(* ===== verification/Prelude.thy ===== *)
theory Prelude
  imports "HOL-Library.Word" "HOL-Library.Monad_Syntax"
begin

text \<open>
  What every component shares: the integer types of the C sources, accesses to C arrays that
  report an index out of range, two predicates to reason about computations of the option
  monad (\<open>None\<close> is undefined behaviour of the C program), and the collections of rules the
  component theories add to.
\<close>

unbundle bit_operations_syntax

section \<open>Integer types\<close>

type_synonym u8 = "8 word"
type_synonym u16 = "16 word"
type_synonym u32 = "32 word"
type_synonym u64 = "64 word"

section \<open>Collections of rules\<close>

text \<open>
  \<open>bits\<close>: what the bit macros do to single bits. \<open>wp\<close>: how \<open>returns\<close> and \<open>whenever\<close> go
  through a computation. \<open>frame\<close>: which parts of the state an operation leaves alone.
\<close>

named_theorems bits
named_theorems wp
named_theorems frame

section \<open>Accesses to C arrays\<close>

text \<open>
  An access outside the array is undefined behaviour in C; here it is \<open>None\<close>, so that a
  theorem that a function returns \<open>Some\<close> says in particular that it stays inside its arrays.
\<close>

definition arr_get :: "'a list \<Rightarrow> nat \<Rightarrow> 'a option" where
  "arr_get xs i = (if i < length xs then Some (xs ! i) else None)"

definition arr_set :: "'a list \<Rightarrow> nat \<Rightarrow> 'a \<Rightarrow> 'a list option" where
  "arr_set xs i v = (if i < length xs then Some (xs[i := v]) else None)"

lemma arr_get_Some [simp]: "i < length xs \<Longrightarrow> arr_get xs i = Some (xs ! i)"
  by (simp add: arr_get_def)

lemma arr_set_Some [simp]: "i < length xs \<Longrightarrow> arr_set xs i v = Some (xs[i := v])"
  by (simp add: arr_set_def)

lemma arr_get_None [simp]: "arr_get xs i = None \<longleftrightarrow> length xs \<le> i"
  by (simp add: arr_get_def not_less)

lemma arr_set_None [simp]: "arr_set xs i v = None \<longleftrightarrow> length xs \<le> i"
  by (simp add: arr_set_def not_less)

lemma arr_set_length: "arr_set xs i v = Some ys \<Longrightarrow> length ys = length xs"
  by (auto simp: arr_set_def split: if_splits)

section \<open>Computations that may be undefined\<close>

text \<open>
  \<open>returns m Q\<close>: the computation is defined and its result satisfies \<open>Q\<close>.
  \<open>whenever m Q\<close>: its result satisfies \<open>Q\<close> if it is defined.
\<close>

definition returns :: "'a option \<Rightarrow> ('a \<Rightarrow> bool) \<Rightarrow> bool" where
  "returns m Q = (case m of None \<Rightarrow> False | Some x \<Rightarrow> Q x)"

definition whenever :: "'a option \<Rightarrow> ('a \<Rightarrow> bool) \<Rightarrow> bool" where
  "whenever m Q = (case m of None \<Rightarrow> True | Some x \<Rightarrow> Q x)"

lemma returns_Some [simp, wp]: "returns (Some x) Q = Q x"
  by (simp add: returns_def)

lemma returns_None [simp, wp]: "returns None Q = False"
  by (simp add: returns_def)

lemma returns_bind [simp, wp]: "returns (m \<bind> f) Q = returns m (\<lambda>x. returns (f x) Q)"
  by (cases m) simp_all

lemma returns_if [wp]: "returns (if b then m else n) Q = (if b then returns m Q else returns n Q)"
  by simp

lemma returns_mono: "returns m P \<Longrightarrow> (\<And>x. P x \<Longrightarrow> Q x) \<Longrightarrow> returns m Q"
  by (cases m) auto

lemma returns_conj: "returns m (\<lambda>x. P x \<and> Q x) \<longleftrightarrow> returns m P \<and> returns m Q"
  by (cases m) auto

lemma returns_iff: "returns m Q \<longleftrightarrow> (\<exists>x. m = Some x \<and> Q x)"
  by (cases m) auto

lemma whenever_Some [simp, wp]: "whenever (Some x) Q = Q x"
  by (simp add: whenever_def)

lemma whenever_None [simp, wp]: "whenever None Q = True"
  by (simp add: whenever_def)

lemma whenever_bind [simp, wp]: "whenever (m \<bind> f) Q = whenever m (\<lambda>x. whenever (f x) Q)"
  by (cases m) simp_all

lemma whenever_if [wp]:
  "whenever (if b then m else n) Q = (if b then whenever m Q else whenever n Q)"
  by simp

lemma whenever_mono: "whenever m P \<Longrightarrow> (\<And>x. P x \<Longrightarrow> Q x) \<Longrightarrow> whenever m Q"
  by (cases m) auto

lemma whenever_iff: "whenever m Q \<longleftrightarrow> (\<forall>x. m = Some x \<longrightarrow> Q x)"
  by (cases m) auto

lemma wheneverD: "whenever m Q \<Longrightarrow> m = Some x \<Longrightarrow> Q x"
  by simp

lemma returns_whenever: "returns m Q \<Longrightarrow> whenever m Q"
  by (cases m) auto

section \<open>Words\<close>

lemma word32_eqI:
  fixes x y :: u32
  assumes "\<And>n. n < 32 \<Longrightarrow> bit x n = bit y n"
  shows "x = y"
  by (rule bit_word_eqI) (use assms in simp)


lemma take_bit_self: "unat x < 2 ^ n \<Longrightarrow> take_bit n x = x" for x :: "'a::len word"
  by (simp add: word_unat_eq_iff unsigned_take_bit_eq take_bit_nat_eq_self)

lemma two_power_32: "(4294967296 :: u32) = 0"
  by code_simp

lemma unat_uminus: "unat (- x) = (2 ^ 32 - unat x) mod 2 ^ 32" for x :: u32
proof -
  have "- x = of_nat (2 ^ 32 - unat x)"
    using unsigned_less [of x, where 'a = nat] by (simp add: of_nat_diff less_imp_le two_power_32)
  then show ?thesis by (simp only: unat_of_nat) simp
qed

lemma bit_top_iff: "n < 2 ^ Suc k \<Longrightarrow> bit n k \<longleftrightarrow> 2 ^ k \<le> n" for n :: nat
proof -
  assume n: "n < 2 ^ Suc k"
  then have "n div 2 ^ k < 2" by (simp add: less_mult_imp_div_less)
  then have "odd (n div 2 ^ k) \<longleftrightarrow> n div 2 ^ k \<noteq> 0" by (cases "n div 2 ^ k") auto
  also have "\<dots> \<longleftrightarrow> 2 ^ k \<le> n" by (simp add: div_eq_0_iff not_less)
  finally show ?thesis by (simp add: bit_iff_odd)
qed

lemma bit_31_iff: "bit x 31 \<longleftrightarrow> 2 ^ 31 \<le> unat x" for x :: u32
  using bit_top_iff [of "unat x" 31] unsigned_less [of x, where 'a = nat] by (simp add: bit_unsigned_iff)

lemma sint_u32: "sint x = int (unat x) - (if bit x 31 then 2 ^ 32 else 0)" for x :: u32
proof -
  have "sint x = take_bit 32 (uint x) - 2 ^ 32 * of_bool (bit (uint x) 31)"
    by (simp add: sint_uint signed_take_bit_eq_take_bit_minus)
  also have "take_bit 32 (uint x) = uint x"
    using unsigned_less [of x, where 'a = int] by (simp add: take_bit_int_eq_self)
  also have "bit (uint x) 31 = bit x 31" by (simp add: bit_unsigned_iff)
  finally show ?thesis by (simp del: uint_nat)
qed

lemma unat_minus_1: "unat (- 1 :: u32) = 4294967295"
  by (simp add: unsigned_minus_1_eq_mask mask_eq_exp_minus_1)

lemma aligned_not_minus_1: "unat x mod 4 = 0 \<Longrightarrow> x \<noteq> - 1" for x :: u32
proof
  assume "unat x mod 4 = 0" and "x = - 1"
  then have "(4294967295 :: nat) mod 4 = 0" by (simp only: unat_minus_1)
  then show False by simp
qed

end
