(* ===== verification/Util.thy ===== *)
theory Util
  imports Prelude
begin

text \<open>
  \<^verbatim>\<open>util.h\<close> and \<^verbatim>\<open>util.c\<close>: the bit macros, the byte reversals, the arithmetic shift and the
  rotation. First the shifts of C on \<^verbatim>\<open>uint32_t\<close> and \<^verbatim>\<open>int\<close>; then the macros, written with the
  shifts and masks of the source; then lemmas that say what they do to each bit, which is
  what every other theory uses.
\<close>

section \<open>The shifts of C\<close>

text \<open>
  \<open>c_shl\<close>, \<open>c_shr\<close> and \<open>c_sar\<close> are \<^verbatim>\<open><<\<close>, \<^verbatim>\<open>>>\<close> on \<^verbatim>\<open>uint32_t\<close> and \<^verbatim>\<open>>>\<close> on \<^verbatim>\<open>int\<close>. The C standard
  leaves a count of 32 or more undefined, and the sources do shift by 32 (\<^verbatim>\<open>ror\<close> with a rotation
  of 0, for one, which every unrotated immediate operand takes). The model gives such a count
  the meaning of the shift instructions of the x86 processors the recorded traces of
  \<^verbatim>\<open>Trace-exemples/\<close> were made on: only the five low bits count. A theorem whose hypotheses keep
  the counts below 32 does not depend on that choice.
\<close>

definition c_shl :: "u32 \<Rightarrow> nat \<Rightarrow> u32" where
  "c_shl x n = push_bit (n mod 32) x"

definition c_shr :: "u32 \<Rightarrow> nat \<Rightarrow> u32" where
  "c_shr x n = drop_bit (n mod 32) x"

definition c_sar :: "u32 \<Rightarrow> nat \<Rightarrow> u32" where
  "c_sar x n = signed_drop_bit (n mod 32) x"

section \<open>The macros of util.h\<close>

definition get_bit :: "u32 \<Rightarrow> nat \<Rightarrow> u32" where
  "get_bit x i = c_shr x i AND 1"

definition set_bit_c :: "u32 \<Rightarrow> nat \<Rightarrow> u32" where
  "set_bit_c x i = x OR c_shl 1 i"

definition clr_bit :: "u32 \<Rightarrow> nat \<Rightarrow> u32" where
  "clr_bit x i = x AND NOT (c_shl 1 i)"

definition get_bits :: "u32 \<Rightarrow> nat \<Rightarrow> nat \<Rightarrow> u32" where
  "get_bits x h l = c_shr x l AND NOT (c_shl (c_sar (NOT 0) (h - l + 1)) (h - l + 1))"

definition set_bits :: "u32 \<Rightarrow> nat \<Rightarrow> nat \<Rightarrow> u32 \<Rightarrow> u32" where
  "set_bits x h l bs =
     (x AND NOT (c_shl (c_sar (NOT 0) l) l)) OR
     (x AND c_shl (c_sar (NOT 0) (h + 1)) (h + 1)) OR
     c_shl bs l"

definition reverse_2 :: "u32 \<Rightarrow> u32" where
  "reverse_2 x = c_shl (x AND 0xFF) 8 OR (c_shr x 8 AND 0xFF)"

definition reverse_4 :: "u32 \<Rightarrow> u32" where
  "reverse_4 x =
     c_shl (x AND 0xFF) 24 OR c_shl (c_shr x 8 AND 0xFF) 16 OR
     c_shl (c_shr x 16 AND 0xFF) 8 OR (c_shr x 24 AND 0xFF)"

section \<open>The functions of util.c\<close>

definition asr :: "u32 \<Rightarrow> u8 \<Rightarrow> u32" where
  "asr value shift =
     c_shr value (unat shift) OR
     (if get_bit value 31 \<noteq> 0 then c_shl (NOT 0) (nat ((32 - uint shift) mod 32)) else 0)"

definition ror :: "u32 \<Rightarrow> u8 \<Rightarrow> u32" where
  "ror value rotation =
     c_shr value (unat rotation) OR c_shl value (nat ((32 - uint rotation) mod 32))"

text \<open>
  In \<^verbatim>\<open>asr\<close> and \<^verbatim>\<open>ror\<close> the count \<^verbatim>\<open>32-shift\<close> is an \<^verbatim>\<open>int\<close> that a shift of more than 32 makes negative;
  its five low bits are \<open>(32 - shift) mod 32\<close>.
\<close>

text \<open>The first byte of the variable \<open>one\<close> is compared with 0; the host is little-endian.\<close>

definition is_big_endian :: int where "is_big_endian = 0"

section \<open>Single bits\<close>

lemma c_shl_eq: "n < 32 \<Longrightarrow> c_shl x n = push_bit n x"
  by (simp add: c_shl_def)

lemma c_shr_eq: "n < 32 \<Longrightarrow> c_shr x n = drop_bit n x"
  by (simp add: c_shr_def)

lemma bit_c_shl [bits]: "n < 32 \<Longrightarrow> bit (c_shl x n) i \<longleftrightarrow> n \<le> i \<and> i < 32 \<and> bit x (i - n)"
  by (auto simp: c_shl_def bit_push_bit_iff)

lemma bit_c_shr [bits]: "n < 32 \<Longrightarrow> bit (c_shr x n) i \<longleftrightarrow> bit x (n + i)"
  by (simp add: c_shr_def bit_drop_bit_eq)

lemma c_sar_minus_1 [simp]: "c_sar (- 1) n = - 1"
  by (simp add: c_sar_def)

lemma get_bit_eq [simp]: "i < 32 \<Longrightarrow> get_bit x i = of_bool (bit x i)"
  by (rule bit_word_eqI) (auto simp: get_bit_def bits bit_simps)

lemma set_bit_c_eq: "i < 32 \<Longrightarrow> set_bit_c x i = Bit_Operations.set_bit i x"
  by (simp add: set_bit_c_def c_shl_def set_bit_eq_or)

lemma clr_bit_eq: "i < 32 \<Longrightarrow> clr_bit x i = unset_bit i x"
  by (simp add: clr_bit_def c_shl_def unset_bit_eq_and_not)

lemma bit_set_bit_c [bits]: "i < 32 \<Longrightarrow> bit (set_bit_c x i) n \<longleftrightarrow> n = i \<or> bit x n"
  by (auto simp: set_bit_c_eq bit_set_bit_iff)

lemma bit_clr_bit [bits]: "i < 32 \<Longrightarrow> bit (clr_bit x i) n \<longleftrightarrow> n \<noteq> i \<and> bit x n"
  by (auto simp: clr_bit_eq bit_unset_bit_iff)

lemma bit_get_bits [bits]:
  "l \<le> h \<Longrightarrow> h - l < 31 \<Longrightarrow> h < 32 \<Longrightarrow> bit (get_bits x h l) i \<longleftrightarrow> l + i \<le> h \<and> bit x (l + i)"
  by (auto simp: get_bits_def bits bit_simps not_le)

lemma bit_set_bits [bits]:
  assumes "l \<le> h" "h < 31"
  shows "bit (set_bits x h l bs) i \<longleftrightarrow>
    (if l \<le> i \<and> i \<le> h then bit bs (i - l)
     else bit x i \<or> (l \<le> i \<and> i < 32 \<and> bit bs (i - l)))"
proof (cases "i < 32")
  case True
  then show ?thesis using assms by (auto simp: set_bits_def bits bit_simps not_le)
next
  case False
  then have "\<not> bit (set_bits x h l bs) i" "\<not> bit x i" "\<not> bit bs (i - l) \<or> \<not> i \<le> h"
    using assms by (auto dest: bit_imp_le_length)
  then show ?thesis using False assms by auto
qed

lemma get_bits_eq:
  "l \<le> h \<Longrightarrow> h - l < 31 \<Longrightarrow> h < 32 \<Longrightarrow> get_bits x h l = take_bit (h - l + 1) (drop_bit l x)"
  by (rule bit_word_eqI) (auto simp: bits bit_simps)


lemma bit_word_rotr:
  fixes x :: u32
  shows "i < 32 \<Longrightarrow> bit (word_rotr n x) i \<longleftrightarrow> bit x ((i + n) mod 32)"
  by (simp add: bit_word_rotr_iff)


lemma word_rotr_zero [simp]: "word_rotr 0 x = x" for x :: u32
  by (rule word32_eqI) (simp add: bit_word_rotr)

lemma mod_32_neg: "nat (- uint n mod 32) = (32 - unat n mod 32) mod 32" for n :: u8
proof -
  have "nat (- int m mod 32) = (32 - m mod 32) mod 32" for m :: nat
  proof -
    have "- int m mod 32 = (if m mod 32 = 0 then 0 else 32 - int (m mod 32))"
      using zmod_int [of m 32] by (simp add: zmod_zminus1_eq_if)
    then show ?thesis by (cases "m mod 32 = 0") (simp_all add: nat_diff_distrib)
  qed
  from this [of "unat n"] show ?thesis by simp
qed

lemma ror_eq_word_rotr: "ror x n = word_rotr (unat n) x"
proof (rule word32_eqI)
  fix i :: nat
  assume i: "i < 32"
  define k where "k = unat n mod 32"
  have k: "k < 32" by (simp add: k_def)
  have "word_rotr (unat n) x = word_rotr k x"
    by (rule bit_word_eqI) (simp add: k_def bit_word_rotr_iff mod_add_right_eq)
  moreover have "ror x n = c_shr x k OR c_shl x ((32 - k) mod 32)"
    by (simp add: ror_def mod_32_neg k_def c_shr_def)
  moreover have "(i + k) mod 32 = (if i + k < 32 then i + k else i + k - 32)"
    using i k by (simp add: le_mod_geq)
  ultimately show "bit (ror x n) i = bit (word_rotr (unat n) x) i"
    using i k by (cases "k = 0")
      (auto simp: bits bit_simps bit_word_rotr add.commute split: if_splits dest: bit_imp_le_length)
qed

lemma asr_eq: "0 < n \<Longrightarrow> n < 32 \<Longrightarrow> asr x n = signed_drop_bit (unat n) x"
proof (rule word32_eqI)
  fix i :: nat
  assume n: "0 < n" "n < 32" and i: "i < 32"
  have "0 < unat n" "unat n < 32" using n by (simp_all add: unat_gt_0 word_less_nat_alt)
  then show "bit (asr x n) i = bit (signed_drop_bit (unat n) x) i"
    using i by (auto simp: asr_def mod_32_neg bits bit_simps bit_signed_drop_bit_iff dest: bit_imp_le_length)
qed

lemma asr_0: "asr x 0 = (if bit x 31 then - 1 else x)"
  by (simp add: asr_def c_shr_def c_shl_def)

lemma and_255: "x AND 0xFF = take_bit 8 x" for x :: u32
  by (simp add: take_bit_eq_mask mask_eq_exp_minus_1)

lemma bit_reverse_4 [bits]:
  "bit (reverse_4 x) i \<longleftrightarrow>
     (if i < 8 then bit x (24 + i) else if i < 16 then bit x (i + 8)
      else if i < 24 then bit x (i - 8) else i < 32 \<and> bit x (i - 24))"
  by (auto simp: reverse_4_def and_255 bits bit_simps add.commute)

lemma bit_reverse_2 [bits]:
  "bit (reverse_2 x) i \<longleftrightarrow> (if i < 8 then bit x (8 + i) else i < 16 \<and> bit x (i - 8))"
  by (auto simp: reverse_2_def and_255 bits bit_simps)

lemma reverse_4_reverse_4: "reverse_4 (reverse_4 x) = x"
  by (rule word32_eqI) (auto simp: bits)

lemma reverse_2_reverse_2: "reverse_2 (reverse_2 x) = take_bit 16 x"
  by (rule word32_eqI) (auto simp: bits bit_simps)

text \<open>A four-bit field of an instruction is a register number.\<close>

lemma get_bits_less: "h - l < 31 \<Longrightarrow> l \<le> h \<Longrightarrow> h < 32 \<Longrightarrow> unat (get_bits x h l) < 2 ^ (h - l + 1)"
  by (simp only: get_bits_eq unsigned_take_bit_eq take_bit_nat_less_exp)

lemma unat_get_bits:
  "l \<le> h \<Longrightarrow> h - l < 31 \<Longrightarrow> h < 32 \<Longrightarrow> unat (get_bits x h l) = unat x div 2 ^ l mod 2 ^ (h - l + 1)"
  by (simp only: get_bits_eq unsigned_take_bit_eq unat_drop_bit_eq take_bit_eq_mod [of _ "_ :: nat"]
      drop_bit_eq_div [of _ "_ :: nat"])

lemma unat_ucast_8: "unat x < 256 \<Longrightarrow> unat (ucast x :: u8) = unat x" for x :: u32
  by (simp add: unsigned_ucast_eq take_bit_nat_eq_self)

lemma field_less [simp]:
  "(ucast (get_bits ins 3 0) :: u8) < 16" "(ucast (get_bits ins 11 8) :: u8) < 16"
  "(ucast (get_bits ins 15 12) :: u8) < 16" "(ucast (get_bits ins 19 16) :: u8) < 16"
  using get_bits_less [of 3 0 ins] get_bits_less [of 11 8 ins] get_bits_less [of 15 12 ins]
    get_bits_less [of 19 16 ins]
  by (simp_all add: word_less_nat_alt unat_ucast_8)

section \<open>Properties\<close>

lemma high_bits_clear: "unat v < 2 ^ n \<Longrightarrow> n \<le> i \<Longrightarrow> \<not> bit v i" for v :: u32
  using take_bit_self [of v n] by (metis bit_take_bit_iff not_le)

theorem set_bits_field:
  assumes "l \<le> h" "h < 31" "unat v < 2 ^ (h - l + 1)"
  shows "get_bits (set_bits x h l v) h l = v \<and>
    (\<forall>i. \<not> (l \<le> i \<and> i \<le> h) \<longrightarrow> bit (set_bits x h l v) i = bit x i)"
proof -
  have v: "\<not> bit v i" if "h - l + 1 \<le> i" for i using high_bits_clear [OF assms(3) that] .
  have "get_bits (set_bits x h l v) h l = v"
  proof (rule word32_eqI)
    fix i :: nat
    assume "i < 32"
    show "bit (get_bits (set_bits x h l v) h l) i = bit v i"
      using assms(1,2) v [of i] by (cases "l + i \<le> h") (auto simp: bits)
  qed
  moreover have "bit (set_bits x h l v) i = bit x i" if "\<not> (l \<le> i \<and> i \<le> h)" for i
    using assms(1,2) v [of "i - l"] that by (cases "l \<le> i") (auto simp: bits)
  ultimately show ?thesis by blast
qed

theorem set_bits_field_witness:
  "get_bits (set_bits 0xFFFFFFFF 4 0 0x13) 4 0 = 0x13 \<and>
    bit (set_bits 0xFFFFFFFF 4 0 0x13) 7 = bit (0xFFFFFFFF :: u32) 7"
  using set_bits_field [of 0 4 "0x13" "0xFFFFFFFF"] by simp

theorem rotation_and_arithmetic_shift:
  "ror x n = word_rotr (unat n) x \<and> (0 < n \<and> n < 32 \<longrightarrow> asr x n = signed_drop_bit (unat n) x)"
  using ror_eq_word_rotr [of x n] asr_eq [of n x] by blast

theorem rotation_and_arithmetic_shift_witness:
  "ror 0x80000001 4 = word_rotr (unat (4 :: u8)) 0x80000001 \<and>
    asr 0x80000001 4 = signed_drop_bit (unat (4 :: u8)) 0x80000001"
  using rotation_and_arithmetic_shift [of "0x80000001" 4] by simp

end
