(* ===== verification/Cells.thy ===== *)
theory Cells
  imports Prelude
begin

text \<open>
  The interface of everything that stores values in cells: the three widths of the simulated
  memory and the register file of a mode. \<open>cells\<close> is the contract a client relies on; \<open>access\<close>
  is the contract of the memory routines of \<^verbatim>\<open>memory.c\<close>, which return a status and write what
  they read through a pointer, and \<open>access\<close> gives \<open>cells\<close>.
\<close>

section \<open>Sequences of accesses\<close>

fun put_all :: "('m \<Rightarrow> 'a \<Rightarrow> 'v \<Rightarrow> 'm option) \<Rightarrow> 'm \<Rightarrow> ('a \<times> 'v) list \<Rightarrow> 'm option" where
  "put_all put m [] = Some m"
| "put_all put m ((a, v) # xs) = do { m \<leftarrow> put m a v; put_all put m xs }"

fun get_all :: "('m \<Rightarrow> 'a \<Rightarrow> 'v option) \<Rightarrow> 'm \<Rightarrow> 'a list \<Rightarrow> 'v list option" where
  "get_all get m [] = Some []"
| "get_all get m (a # as) = do { v \<leftarrow> get m a; vs \<leftarrow> get_all get m as; Some (v # vs) }"

fun all_apart :: "('a \<Rightarrow> 'a \<Rightarrow> bool) \<Rightarrow> 'a list \<Rightarrow> bool" where
  "all_apart apart [] \<longleftrightarrow> True"
| "all_apart apart (a # as) \<longleftrightarrow> (\<forall>b \<in> set as. apart a b) \<and> all_apart apart as"

section \<open>Cells\<close>

locale cells =
  fixes get :: "'m \<Rightarrow> 'a \<Rightarrow> 'v option"
    and put :: "'m \<Rightarrow> 'a \<Rightarrow> 'v \<Rightarrow> 'm option"
    and inv :: "'m \<Rightarrow> bool"
    and ok :: "'m \<Rightarrow> 'a \<Rightarrow> bool"
    and apart :: "'a \<Rightarrow> 'a \<Rightarrow> bool"
  assumes apart_sym: "apart a b \<Longrightarrow> apart b a"
    and get_defined: "inv m \<Longrightarrow> ok m a \<Longrightarrow> get m a \<noteq> None"
    and put_defined: "inv m \<Longrightarrow> ok m a \<Longrightarrow> put m a v \<noteq> None"
    and inv_put: "inv m \<Longrightarrow> ok m a \<Longrightarrow> put m a v = Some m' \<Longrightarrow> inv m'"
    and ok_put: "inv m \<Longrightarrow> ok m a \<Longrightarrow> put m a v = Some m' \<Longrightarrow> ok m' b = ok m b"
    and get_put: "inv m \<Longrightarrow> ok m a \<Longrightarrow> put m a v = Some m' \<Longrightarrow> get m' a = Some v"
    and get_put_apart:
      "inv m \<Longrightarrow> ok m a \<Longrightarrow> ok m b \<Longrightarrow> apart a b \<Longrightarrow> put m a v = Some m' \<Longrightarrow> get m' b = get m b"
begin

lemma put_all_defined:
  "inv m \<Longrightarrow> \<forall>(a, v) \<in> set xs. ok m a \<Longrightarrow>
     \<exists>m'. put_all put m xs = Some m' \<and> inv m' \<and> (\<forall>b. ok m' b = ok m b)"
proof (induction xs arbitrary: m)
  case (Cons x xs)
  obtain a v where x: "x = (a, v)" by (cases x)
  with Cons.prems have a: "ok m a" by simp
  then obtain m1 where m1: "put m a v = Some m1" using put_defined Cons.prems(1) by blast
  have "inv m1" "\<And>b. ok m1 b = ok m b"
    using inv_put ok_put Cons.prems(1) a m1 by blast+
  with Cons.IH [of m1] Cons.prems(2) show ?case by (auto simp: x m1)
qed simp

lemma get_put_all:
  "inv m \<Longrightarrow> \<forall>(a, v) \<in> set xs. ok m a \<and> apart a b \<Longrightarrow> ok m b \<Longrightarrow>
     put_all put m xs = Some m' \<Longrightarrow> get m' b = get m b"
proof (induction xs arbitrary: m)
  case (Cons x xs)
  obtain a v where x: "x = (a, v)" by (cases x)
  with Cons.prems have a: "ok m a" "apart a b" by simp_all
  then obtain m1 where m1: "put m a v = Some m1" using put_defined Cons.prems(1) by blast
  have inv: "inv m1" and ok: "\<And>b. ok m1 b = ok m b"
    using inv_put ok_put Cons.prems(1) a m1 by blast+
  have "get m' b = get m1 b"
    by (rule Cons.IH) (use Cons.prems inv in \<open>auto simp: x m1 ok\<close>)
  also have "\<dots> = get m b" using get_put_apart [OF _ _ _ _ m1] Cons.prems a by blast
  finally show ?case .
qed simp

lemma get_all_put_all:
  "inv m \<Longrightarrow> \<forall>a \<in> set as. ok m a \<Longrightarrow> all_apart apart as \<Longrightarrow> length vs = length as \<Longrightarrow>
     put_all put m (zip as vs) = Some m' \<Longrightarrow> get_all get m' as = Some vs"
proof (induction as arbitrary: m vs)
  case (Cons a as)
  then obtain v vs' where vs: "vs = v # vs'" by (cases vs) auto
  have a: "ok m a" using Cons.prems by simp
  then obtain m1 where m1: "put m a v = Some m1" using put_defined Cons.prems(1) by blast
  have inv: "inv m1" and ok: "\<And>b. ok m1 b = ok m b"
    using inv_put ok_put Cons.prems(1) a m1 by blast+
  have rest: "put_all put m1 (zip as vs') = Some m'" using Cons.prems by (simp add: vs m1)
  have "get_all get m' as = Some vs'"
    by (rule Cons.IH [OF inv]) (use Cons.prems rest in \<open>auto simp: vs ok\<close>)
  moreover have "get m' a = get m1 a"
    by (rule get_put_all [OF inv _ _ rest]) (use Cons.prems in \<open>auto simp: ok apart_sym dest!: set_zip_leftD\<close>)
  ultimately show ?case using get_put [OF Cons.prems(1) a m1] by (simp add: vs)
qed simp

end

section \<open>Accesses with a status\<close>

definition FAILURE :: int where "FAILURE = -1"
definition SUCCESS :: int where "SUCCESS = 0"

lemma FAILURE_neq_SUCCESS [simp]: "FAILURE \<noteq> SUCCESS" "SUCCESS \<noteq> FAILURE"
  by (simp_all add: FAILURE_def SUCCESS_def)

locale access =
  fixes rd :: "'m \<Rightarrow> 'a \<Rightarrow> 'n::len word \<Rightarrow> (int \<times> 'n word) option"
    and wr :: "'m \<Rightarrow> 'a \<Rightarrow> 'n word \<Rightarrow> (int \<times> 'm) option"
    and inv :: "'m \<Rightarrow> bool"
    and ok :: "'m \<Rightarrow> 'a \<Rightarrow> bool"
    and apart :: "'a \<Rightarrow> 'a \<Rightarrow> bool"
  assumes apart_commute: "apart a b \<Longrightarrow> apart b a"
    and rd_ok: "inv m \<Longrightarrow> ok m a \<Longrightarrow> \<exists>w. \<forall>v. rd m a v = Some (SUCCESS, w)"
    and rd_fail: "inv m \<Longrightarrow> \<not> ok m a \<Longrightarrow> rd m a v = Some (FAILURE, v)"
    and wr_ok: "inv m \<Longrightarrow> ok m a \<Longrightarrow> \<exists>m'. wr m a v = Some (SUCCESS, m')"
    and wr_fail: "inv m \<Longrightarrow> \<not> ok m a \<Longrightarrow> wr m a v = Some (FAILURE, m)"
    and inv_wr: "inv m \<Longrightarrow> wr m a v = Some (st, m') \<Longrightarrow> inv m'"
    and ok_wr: "inv m \<Longrightarrow> wr m a v = Some (st, m') \<Longrightarrow> ok m' b = ok m b"
    and rd_wr: "inv m \<Longrightarrow> ok m a \<Longrightarrow> wr m a v = Some (st, m') \<Longrightarrow> rd m' a u = Some (SUCCESS, v)"
    and rd_wr_apart: "inv m \<Longrightarrow> ok m a \<Longrightarrow> ok m b \<Longrightarrow> apart a b \<Longrightarrow>
      wr m a v = Some (st, m') \<Longrightarrow> rd m' b u = rd m b u"
begin

lemma rd_defined: "inv m \<Longrightarrow> rd m a v \<noteq> None"
  using rd_ok [of m a] rd_fail [of m a v] by (cases "ok m a") auto

lemma wr_defined: "inv m \<Longrightarrow> wr m a v \<noteq> None"
  using wr_ok [of m a v] wr_fail [of m a v] by (cases "ok m a") auto

lemma rd_status: "inv m \<Longrightarrow> rd m a v = Some (st, w) \<Longrightarrow> st = (if ok m a then SUCCESS else FAILURE)"
  using rd_ok [of m a] rd_fail [of m a v] by (cases "ok m a") auto

lemma rd_out_of_range: "inv m \<Longrightarrow> \<not> ok m a \<Longrightarrow> rd m a v = Some (st, w) \<Longrightarrow> w = v"
  using rd_fail [of m a v] by simp

lemma rd_old_irrelevant: "inv m \<Longrightarrow> ok m a \<Longrightarrow> rd m a v = rd m a u"
  using rd_ok [of m a] by auto

lemma wr_status: "inv m \<Longrightarrow> wr m a v = Some (st, m') \<Longrightarrow> st = (if ok m a then SUCCESS else FAILURE)"
  using wr_ok [of m a v] wr_fail [of m a v] by (cases "ok m a") auto

end

sublocale access \<subseteq> plain: cells "\<lambda>m a. map_option snd (rd m a 0)" "\<lambda>m a v. map_option snd (wr m a v)"
proof unfold_locales
  show "apart b a" if "apart a b" for a b using that by (rule apart_commute)
  show "map_option snd (rd m a 0) \<noteq> None" if "inv m" for m a using rd_defined [OF that] by simp
  show "map_option snd (wr m a v) \<noteq> None" if "inv m" for m a v using wr_defined [OF that] by simp
qed (auto simp: rd_wr rd_wr_apart intro: inv_wr dest: ok_wr)

end
