(* ===== verification/Memory.thy ===== *)
theory Memory
  imports Util Cells
begin

text \<open>
  \<^verbatim>\<open>memory.h\<close> and \<^verbatim>\<open>memory.c\<close>: the simulated memory, an array of 32 bit words with byte, half word
  and word accesses in either byte order. The specification is an image of bytes indexed by
  address; each access of the code refines the load or store of its bytes.
\<close>

section \<open>State and operations\<close>

record memory =
  mem_size :: u64
  mem_be :: int
  mem_data :: "u32 list"


text \<open>
  \<^verbatim>\<open>malloc\<close> leaves the words with contents the C standard does not fix; they are the argument
  \<open>junk\<close>. The structure is written into a block asked for with \<^verbatim>\<open>sizeof(memory)\<close>, the 8 bytes of a
  pointer, while it takes 24: \<open>usable n\<close> is the number of bytes that may be written to the block the
  allocator returns for a request of \<open>n\<close>, and \<open>memory_create\<close> is defined when they are enough (the
  GNU allocator gives 24 bytes for every request of at most 24). The allocations are taken to succeed.
\<close>

definition sizeof_pointer :: nat where "sizeof_pointer = 8"
definition sizeof_memory_data :: nat where "sizeof_memory_data = 24"

definition new_memory :: "(nat \<Rightarrow> u32) \<Rightarrow> u64 \<Rightarrow> int \<Rightarrow> memory" where
  "new_memory junk sz big_endian =
     (let oneMore = (if sz mod 4 > 0 then 1 else 0)
      in \<lparr>mem_size = sz, mem_be = big_endian,
          mem_data = map junk [0..<unat (sz div 4) + oneMore]\<rparr>)"

definition memory_create :: "(nat \<Rightarrow> nat) \<Rightarrow> (nat \<Rightarrow> u32) \<Rightarrow> u64 \<Rightarrow> int \<Rightarrow> memory option" where
  "memory_create usable junk sz big_endian =
     (if usable sizeof_pointer < sizeof_memory_data then None
      else Some (new_memory junk sz big_endian))"

definition memory_get_size :: "memory \<Rightarrow> u64" where
  "memory_get_size mem = mem_size mem"

text \<open>
  A read returns the status and the content of the variable its last parameter points to:
  \<open>value\<close> is that content before the call, which a failing read leaves alone.
\<close>

definition memory_read_byte :: "memory \<Rightarrow> u32 \<Rightarrow> u8 \<Rightarrow> (int \<times> u8) option" where
  "memory_read_byte mem address value =
     (if ucast address \<ge> memory_get_size mem then Some (FAILURE, value)
      else do {
        word \<leftarrow> arr_get (mem_data mem) (unat (address div 4));
        let addr = unat (address mod 4);
        let bitDeb = addr * 8;
        let bitFin = addr * 8 + 7;
        Some (SUCCESS, ucast (get_bits word bitFin bitDeb))
      })"

definition memory_read_half :: "memory \<Rightarrow> u32 \<Rightarrow> u16 \<Rightarrow> (int \<times> u16) option" where
  "memory_read_half mem address value =
     (if ucast address \<ge> memory_get_size mem \<or> address mod 2 \<noteq> 0 then Some (FAILURE, value)
      else do {
        word \<leftarrow> arr_get (mem_data mem) (unat (address div 4));
        let addr = unat (address mod 4);
        let bitDeb = addr * 8;
        let bitFin = addr * 8 + 15;
        let value = (ucast (get_bits word bitFin bitDeb) :: u16);
        let value = (if mem_be mem \<noteq> 0 then ucast (reverse_2 (ucast value)) else value);
        Some (SUCCESS, value)
      })"

definition memory_read_word :: "memory \<Rightarrow> u32 \<Rightarrow> u32 \<Rightarrow> (int \<times> u32) option" where
  "memory_read_word mem address value =
     (if ucast address \<ge> memory_get_size mem \<or> address mod 4 \<noteq> 0 then Some (FAILURE, value)
      else do {
        value \<leftarrow> arr_get (mem_data mem) (unat (address div 4));
        let value = (if mem_be mem \<noteq> 0 then reverse_4 value else value);
        Some (SUCCESS, value)
      })"

definition memory_write_byte :: "memory \<Rightarrow> u32 \<Rightarrow> u8 \<Rightarrow> (int \<times> memory) option" where
  "memory_write_byte mem address value =
     (if ucast address \<ge> memory_get_size mem then Some (FAILURE, mem)
      else do {
        let i = unat (address div 4);
        word \<leftarrow> arr_get (mem_data mem) i;
        let addr = unat (address mod 4);
        let bitDeb = addr * 8;
        let bitFin = addr * 8 + 7;
        let (bitFin, word) = (if bitFin = 31 then (30, clr_bit word 31) else (bitFin, word));
        data \<leftarrow> arr_set (mem_data mem) i (set_bits word bitFin bitDeb (ucast value));
        Some (SUCCESS, mem\<lparr>mem_data := data\<rparr>)
      })"

definition memory_write_half :: "memory \<Rightarrow> u32 \<Rightarrow> u16 \<Rightarrow> (int \<times> memory) option" where
  "memory_write_half mem address value =
     (if ucast address \<ge> memory_get_size mem \<or> address mod 2 \<noteq> 0 then Some (FAILURE, mem)
      else do {
        let value = (if mem_be mem \<noteq> 0 then ucast (reverse_2 (ucast value)) else value);
        let i = unat (address div 4);
        word \<leftarrow> arr_get (mem_data mem) i;
        let addr = unat (address mod 4);
        let bitDeb = addr * 8;
        let bitFin = addr * 8 + 15;
        let (bitFin, word) = (if bitFin = 31 then (30, clr_bit word 31) else (bitFin, word));
        data \<leftarrow> arr_set (mem_data mem) i (set_bits word bitFin bitDeb (ucast value));
        Some (SUCCESS, mem\<lparr>mem_data := data\<rparr>)
      })"

definition memory_write_word :: "memory \<Rightarrow> u32 \<Rightarrow> u32 \<Rightarrow> (int \<times> memory) option" where
  "memory_write_word mem address value =
     (if ucast address \<ge> memory_get_size mem \<or> address mod 4 \<noteq> 0 then Some (FAILURE, mem)
      else do {
        let value = (if mem_be mem \<noteq> 0 then reverse_4 value else value);
        data \<leftarrow> arr_set (mem_data mem) (unat (address div 4)) value;
        Some (SUCCESS, mem\<lparr>mem_data := data\<rparr>)
      })"

section \<open>Specification: an image of bytes\<close>

definition byte_of :: "u32 \<Rightarrow> nat \<Rightarrow> u8" where
  "byte_of w k = ucast (drop_bit (8 * k) w)"

definition byte_at :: "memory \<Rightarrow> nat \<Rightarrow> u8" where
  "byte_at m a = byte_of (mem_data m ! (a div 4)) (a mod 4)"

text \<open>The bytes of a half word and of a word in the order of their addresses.\<close>

definition half_bytes :: "int \<Rightarrow> u16 \<Rightarrow> u8 list" where
  "half_bytes be v =
     (let bs = [ucast v, ucast (drop_bit 8 v)] in if be \<noteq> 0 then rev bs else bs)"

definition word_bytes :: "int \<Rightarrow> u32 \<Rightarrow> u8 list" where
  "word_bytes be v =
     (let bs = [byte_of v 0, byte_of v 1, byte_of v 2, byte_of v 3]
      in if be \<noteq> 0 then rev bs else bs)"

definition load_bytes :: "(nat \<Rightarrow> u8) \<Rightarrow> nat \<Rightarrow> nat \<Rightarrow> u8 list" where
  "load_bytes f a n = map (\<lambda>k. f (a + k)) [0..<n]"

fun store_bytes :: "(nat \<Rightarrow> u8) \<Rightarrow> nat \<Rightarrow> u8 list \<Rightarrow> (nat \<Rightarrow> u8)" where
  "store_bytes f a [] = f"
| "store_bytes f a (b # bs) = store_bytes (f(a := b)) (Suc a) bs"

definition wf_memory :: "memory \<Rightarrow> bool" where
  "wf_memory m \<longleftrightarrow>
     length (mem_data m) = unat (mem_size m div 4) + (if mem_size m mod 4 > 0 then 1 else 0)"

lemma memory_create_overflows:
  "memory_create usable junk sz be = None \<longleftrightarrow> usable sizeof_pointer < sizeof_memory_data"
  by (simp add: memory_create_def)

lemma wf_new_memory: "wf_memory (new_memory junk sz be)"
  by (simp add: wf_memory_def new_memory_def Let_def)


section \<open>Bytes of words\<close>

lemma bit_byte_of [bits]: "bit (byte_of w k) i \<longleftrightarrow> i < 8 \<and> bit w (8 * k + i)"
  by (simp add: byte_of_def bit_simps)

lemma word_eq_bytesI:
  assumes "\<And>k. k < 4 \<Longrightarrow> byte_of v k = byte_of w k"
  shows "v = w"
proof (rule word32_eqI)
  fix n :: nat
  assume "n < 32"
  then have "bit (byte_of v (n div 8)) (n mod 8) = bit (byte_of w (n div 8)) (n mod 8)"
    using assms [of "n div 8"] by auto
  then show "bit v n = bit w n" by (simp add: bits)
qed

lemma less_4_cases: "(k::nat) < 4 \<longleftrightarrow> k = 0 \<or> k = 1 \<or> k = 2 \<or> k = 3"
  by auto

lemma byte_of_reverse_4: "k < 4 \<Longrightarrow> byte_of (reverse_4 w) k = byte_of w (3 - k)"
  by (rule bit_word_eqI) (auto simp: bits less_4_cases)

lemma word_bytes_nth: "k < 4 \<Longrightarrow> word_bytes be v ! k = byte_of v (if be \<noteq> 0 then 3 - k else k)"
  by (auto simp: word_bytes_def Let_def less_4_cases)

lemma length_word_bytes [simp]: "length (word_bytes be v) = 4"
  by (simp add: word_bytes_def Let_def)

lemma length_half_bytes [simp]: "length (half_bytes be v) = 2"
  by (simp add: half_bytes_def Let_def)

lemma word_bytes_inject: "word_bytes be v = word_bytes be w \<longleftrightarrow> v = w"
  by (auto simp: word_bytes_def Let_def less_4_cases intro!: word_eq_bytesI split: if_splits)

lemma half_bytes_inject: "half_bytes be v = half_bytes be w \<longleftrightarrow> v = w"
proof
  assume "half_bytes be v = half_bytes be w"
  then have lo: "(ucast v :: u8) = ucast w" and hi: "(ucast (drop_bit 8 v) :: u8) = ucast (drop_bit 8 w)"
    by (auto simp: half_bytes_def Let_def split: if_splits)
  show "v = w"
  proof (rule bit_word_eqI)
    fix n assume "n < LENGTH(16)"
    then show "bit v n = bit w n"
      using arg_cong [OF lo, of "\<lambda>x. bit x n"] arg_cong [OF hi, of "\<lambda>x. bit x (n - 8)"]
      by (cases "n < 8") (auto simp: bit_simps)
  qed
qed simp

text \<open>What the byte and half word writes do to the word they change.\<close>

definition put_byte :: "u32 \<Rightarrow> nat \<Rightarrow> u8 \<Rightarrow> u32" where
  "put_byte word k value =
     (let bitDeb = k * 8; bitFin = k * 8 + 7;
          (bitFin, word) = (if bitFin = 31 then (30, clr_bit word 31) else (bitFin, word))
      in set_bits word bitFin bitDeb (ucast value))"

definition put_half :: "u32 \<Rightarrow> nat \<Rightarrow> u16 \<Rightarrow> u32" where
  "put_half word k value =
     (let bitDeb = k * 8; bitFin = k * 8 + 15;
          (bitFin, word) = (if bitFin = 31 then (30, clr_bit word 31) else (bitFin, word))
      in set_bits word bitFin bitDeb (ucast value))"

lemma byte_of_put_byte:
  assumes k: "k < 4" and j: "j < 4"
  shows "byte_of (put_byte w k v) j = (if j = k then v else byte_of w j)"
proof (rule bit_word_eqI)
  fix i
  assume "i < LENGTH(8)"
  moreover have "8 \<le> n \<Longrightarrow> bit v n = False" for n using bit_imp_le_length [of v n] by auto
  ultimately show "bit (byte_of (put_byte w k v) j) i = bit (if j = k then v else byte_of w j) i"
    using k j unfolding less_4_cases
    by (elim disjE) (auto simp: put_byte_def Let_def bits bit_simps)
qed

lemma byte_of_put_half:
  assumes k: "k = 0 \<or> k = 2" and j: "j < 4"
  shows "byte_of (put_half w k v) j =
     (if j = k then ucast v else if j = k + 1 then ucast (drop_bit 8 v) else byte_of w j)"
proof (rule bit_word_eqI)
  fix i
  assume "i < LENGTH(8)"
  moreover have "16 \<le> n \<Longrightarrow> bit v n = False" for n using bit_imp_le_length [of v n] by auto
  ultimately show "bit (byte_of (put_half w k v) j) i = bit
     (if j = k then ucast v else if j = k + 1 then ucast (drop_bit 8 v) else byte_of w j) i"
    using k j unfolding less_4_cases
    by (elim disjE) (auto simp: put_half_def Let_def bits bit_simps)
qed


lemma ucast_get_bits_byte: "k < 4 \<Longrightarrow> ucast (get_bits w (k * 8 + 7) (k * 8)) = byte_of w k"
  by (rule bit_word_eqI) (auto simp: bits bit_simps less_4_cases)

lemma half_bytes_get_bits:
  assumes "k = 0 \<or> k = 2"
  shows "half_bytes 0 (ucast (get_bits w (k * 8 + 15) (k * 8))) = [byte_of w k, byte_of w (k + 1)]"
  using assms by (auto simp: half_bytes_def Let_def bits bit_simps intro!: bit_word_eqI)

lemma half_bytes_reverse_2:
  "half_bytes be (ucast (reverse_2 (ucast v))) = rev (half_bytes be v)"
  by (auto simp: half_bytes_def Let_def bits bit_simps intro!: bit_word_eqI)

lemma half_bytes_be: "half_bytes be v = (if be \<noteq> 0 then rev (half_bytes 0 v) else half_bytes 0 v)"
  by (simp add: half_bytes_def Let_def)

lemma word_bytes_be: "word_bytes be v = (if be \<noteq> 0 then rev (word_bytes 0 v) else word_bytes 0 v)"
  by (simp add: word_bytes_def Let_def)

lemma word_bytes_reverse_4: "word_bytes be (reverse_4 v) = rev (word_bytes be v)"
  by (simp add: word_bytes_def Let_def byte_of_reverse_4)

section \<open>Addresses\<close>

lemma unat_div_4 [simp]: "unat (a div 4) = unat a div 4" for a :: u32
  by (simp add: unat_div)

lemma unat_mod_4 [simp]: "unat (a mod 4) = unat a mod 4" for a :: u32
  by (simp add: unat_mod)

lemma mod_2_iff: "a mod 2 = 0 \<longleftrightarrow> unat a mod 2 = 0" for a :: u32
  by (simp add: unat_mod unat_eq_0 [symmetric] flip: unat_eq_0)

lemma mod_4_iff: "a mod 4 = 0 \<longleftrightarrow> unat a mod 4 = 0" for a :: u32
  by (simp add: unat_mod flip: unat_eq_0)

definition in_memory :: "memory \<Rightarrow> u32 \<Rightarrow> bool" where
  "in_memory m a \<longleftrightarrow> unat a < unat (mem_size m)"

lemma unat_ucast_64 [simp]: "unat (ucast a :: u64) = unat a" for a :: u32
proof -
  have "unat a < 2 ^ 32" using unsigned_less [of a] by simp
  then show ?thesis by (simp add: unsigned_ucast_eq take_bit_nat_eq_self)
qed

lemma ucast_ge_size: "ucast (a :: u32) \<ge> memory_get_size m \<longleftrightarrow> \<not> in_memory m a"
  by (simp add: in_memory_def memory_get_size_def word_le_nat_alt not_less)

lemma index_in_data:
  assumes "wf_memory m" "in_memory m a"
  shows "unat a div 4 < length (mem_data m)"
proof -
  have "0 < mem_size m mod 4 \<longleftrightarrow> unat (mem_size m) mod 4 \<noteq> 0"
    by (simp add: word_gt_0 unat_mod flip: unat_eq_0)
  then have "length (mem_data m) = unat (mem_size m) div 4 + (if unat (mem_size m) mod 4 \<noteq> 0 then 1 else 0)"
    using assms(1) by (simp add: wf_memory_def unat_div)
  moreover have "unat a < unat (mem_size m)" using assms(2) by (simp add: in_memory_def)
  moreover have "y < x \<Longrightarrow> y div 4 < x div 4 + (if x mod 4 \<noteq> 0 then 1 else 0)" for x y :: nat
    using div_le_mono [of y x 4] less_mult_imp_div_less [of y "x div 4" 4]
      mult_div_mod_eq [of 4 x] by (cases "x mod 4 = 0") (simp_all add: mult.commute)
  ultimately show ?thesis by simp
qed

section \<open>Reads\<close>

definition half_at :: "memory \<Rightarrow> nat \<Rightarrow> u16" where
  "half_at m a =
     (let v = ucast (get_bits (mem_data m ! (a div 4)) (a mod 4 * 8 + 15) (a mod 4 * 8))
      in if mem_be m \<noteq> 0 then ucast (reverse_2 (ucast v)) else v)"

definition word_at :: "memory \<Rightarrow> nat \<Rightarrow> u32" where
  "word_at m a =
     (if mem_be m \<noteq> 0 then reverse_4 (mem_data m ! (a div 4)) else mem_data m ! (a div 4))"

lemma upt_4: "[0..<4] = [0, 1, 2, 3::nat]"
  by (simp add: upt_rec)

lemma upt_2: "[0..<2] = [0, 1::nat]"
  by (simp add: upt_rec)

lemma word_bytes_eq:
  "word_bytes be v = map (byte_of (if be \<noteq> 0 then reverse_4 v else v)) [0..<4]"
  by (simp add: word_bytes_def Let_def byte_of_reverse_4 upt_4)

lemma div_mod_add:
  fixes a :: nat
  assumes "a mod 4 + k < 4"
  shows "(a + k) div 4 = a div 4" "(a + k) mod 4 = a mod 4 + k"
proof -
  define q r where "q = a div 4" and "r = a mod 4"
  have "a = 4 * q + r" by (simp add: q_def r_def)
  moreover have "r + k < 4" using assms by (simp add: r_def)
  ultimately show "(a + k) div 4 = a div 4" "(a + k) mod 4 = a mod 4 + k"
    by (simp_all add: add.assoc)
qed

lemma same_cell_iff:
  fixes a b :: nat
  assumes "a mod 4 = 0"
  shows "a \<le> b \<and> b < a + 4 \<longleftrightarrow> b div 4 = a div 4" "b div 4 = a div 4 \<Longrightarrow> b - a = b mod 4"
proof -
  define q q' r where "q = a div 4" and "q' = b div 4" and "r = b mod 4"
  have "a = 4 * q" "b = 4 * q' + r" "r < 4" using assms by (auto simp: q_def q'_def r_def)
  then show "a \<le> b \<and> b < a + 4 \<longleftrightarrow> b div 4 = a div 4" "b div 4 = a div 4 \<Longrightarrow> b - a = b mod 4"
    by simp_all linarith
qed

lemma byte_at_aligned:
  assumes "a mod 4 + k < 4"
  shows "byte_at m (a + k) = byte_of (mem_data m ! (a div 4)) (a mod 4 + k)"
proof -
  show ?thesis using assms by (simp add: byte_at_def div_mod_add)
qed

lemma store_bytes_nth:
  "store_bytes f a bs b = (if a \<le> b \<and> b < a + length bs then bs ! (b - a) else f b)"
proof (induction bs arbitrary: f a)
  case (Cons x bs)
  show ?case
    by (simp only: store_bytes.simps Cons.IH) (auto simp: nth_Cons')
qed auto

lemma even_mod_4: "even (a::nat) \<Longrightarrow> a mod 4 = 0 \<or> a mod 4 = 2"
  by presburger

lemma half_at_bytes:
  assumes "even a"
  shows "half_bytes (mem_be m) (half_at m a) = load_bytes (byte_at m) a 2"
proof -
  have k: "a mod 4 = 0 \<or> a mod 4 = 2" using assms by (rule even_mod_4)
  then have "half_bytes 0 (ucast (get_bits (mem_data m ! (a div 4)) (a mod 4 * 8 + 15) (a mod 4 * 8)))
      = load_bytes (byte_at m) a 2"
    by (auto simp: half_bytes_get_bits [OF k] load_bytes_def upt_2 byte_at_aligned [of a 0, simplified]
        byte_at_aligned [of a 1, simplified])
  then show ?thesis
    by (simp add: half_at_def Let_def half_bytes_reverse_2 half_bytes_be [of "mem_be m"])
qed

lemma word_at_bytes:
  assumes "a mod 4 = 0"
  shows "word_bytes (mem_be m) (word_at m a) = load_bytes (byte_at m) a 4"
proof -
  have "word_bytes 0 (mem_data m ! (a div 4)) = load_bytes (byte_at m) a 4"
    using assms by (simp add: word_bytes_eq load_bytes_def byte_at_aligned)
  then show ?thesis
    by (simp add: word_at_def word_bytes_reverse_4 word_bytes_be [of "mem_be m"])
qed

lemma memory_read_byte_eq:
  assumes "wf_memory m"
  shows "memory_read_byte m a v =
    Some (if in_memory m a then (SUCCESS, byte_at m (unat a)) else (FAILURE, v))"
proof (cases "in_memory m a")
  case True
  with assms have "unat a div 4 < length (mem_data m)" by (rule index_in_data)
  moreover have "ucast (get_bits w (unat a mod 4 * 8 + 7) (unat a mod 4 * 8)) = byte_of w (unat a mod 4)" for w
    by (rule ucast_get_bits_byte) simp
  ultimately show ?thesis
    using True by (simp add: memory_read_byte_def ucast_ge_size byte_at_def)
qed (simp add: memory_read_byte_def ucast_ge_size)

lemma memory_read_half_eq:
  assumes "wf_memory m"
  shows "memory_read_half m a v =
    Some (if in_memory m a \<and> even (unat a) then (SUCCESS, half_at m (unat a)) else (FAILURE, v))"
  using index_in_data [OF assms, of a]
  by (auto simp: memory_read_half_def ucast_ge_size half_at_def mod_2_iff Let_def even_iff_mod_2_eq_zero)

lemma memory_read_word_eq:
  assumes "wf_memory m"
  shows "memory_read_word m a v =
    Some (if in_memory m a \<and> unat a mod 4 = 0 then (SUCCESS, word_at m (unat a)) else (FAILURE, v))"
  using index_in_data [OF assms, of a]
  by (auto simp: memory_read_word_def ucast_ge_size word_at_def mod_4_iff Let_def)

section \<open>Writes\<close>

definition set_byte :: "memory \<Rightarrow> nat \<Rightarrow> u8 \<Rightarrow> memory" where
  "set_byte m a v = m\<lparr>mem_data := (mem_data m)[a div 4 := put_byte (mem_data m ! (a div 4)) (a mod 4) v]\<rparr>"

definition set_half :: "memory \<Rightarrow> nat \<Rightarrow> u16 \<Rightarrow> memory" where
  "set_half m a v =
     (let v = (if mem_be m \<noteq> 0 then ucast (reverse_2 (ucast v)) else v)
      in m\<lparr>mem_data := (mem_data m)[a div 4 := put_half (mem_data m ! (a div 4)) (a mod 4) v]\<rparr>)"

definition set_word :: "memory \<Rightarrow> nat \<Rightarrow> u32 \<Rightarrow> memory" where
  "set_word m a v =
     m\<lparr>mem_data := (mem_data m)[a div 4 := (if mem_be m \<noteq> 0 then reverse_4 v else v)]\<rparr>"

lemma memory_write_byte_eq:
  assumes "wf_memory m"
  shows "memory_write_byte m a v =
    Some (if in_memory m a then (SUCCESS, set_byte m (unat a) v) else (FAILURE, m))"
  using index_in_data [OF assms, of a]
  by (auto simp: memory_write_byte_def ucast_ge_size set_byte_def put_byte_def Let_def)

lemma memory_write_half_eq:
  assumes "wf_memory m"
  shows "memory_write_half m a v =
    Some (if in_memory m a \<and> even (unat a) then (SUCCESS, set_half m (unat a) v) else (FAILURE, m))"
  using index_in_data [OF assms, of a]
  by (auto simp: memory_write_half_def ucast_ge_size set_half_def put_half_def mod_2_iff Let_def
      even_iff_mod_2_eq_zero)

lemma memory_write_word_eq:
  assumes "wf_memory m"
  shows "memory_write_word m a v =
    Some (if in_memory m a \<and> unat a mod 4 = 0 then (SUCCESS, set_word m (unat a) v) else (FAILURE, m))"
  using index_in_data [OF assms, of a]
  by (auto simp: memory_write_word_def ucast_ge_size set_word_def mod_4_iff Let_def)


lemma half_bytes_eq:
  "half_bytes be v =
     (let u = (if be \<noteq> 0 then ucast (reverse_2 (ucast v)) else v) in [ucast u, ucast (drop_bit 8 u)])"
  using half_bytes_reverse_2 [of 0 v] by (auto simp: half_bytes_def Let_def)

lemma byte_at_set_byte:
  assumes "a div 4 < length (mem_data m)"
  shows "byte_at (set_byte m a v) = (byte_at m)(a := v)"
proof
  fix b :: nat
  have "b = a \<longleftrightarrow> b div 4 = a div 4 \<and> b mod 4 = a mod 4" by (metis div_mult_mod_eq)
  then show "byte_at (set_byte m a v) b = ((byte_at m)(a := v)) b"
    using assms by (auto simp: byte_at_def set_byte_def byte_of_put_byte nth_list_update)
qed

lemma half_cell:
  "(j::nat) < 4 \<Longrightarrow> k = 0 \<or> k = 2 \<Longrightarrow>
     4 * p + k \<le> 4 * q + j \<and> 4 * q + j < 4 * p + k + 2 \<longleftrightarrow> q = p \<and> (j = k \<or> j = k + 1)"
  by arith

lemma byte_at_set_half:
  assumes "a div 4 < length (mem_data m)" "even a"
  shows "byte_at (set_half m a v) = store_bytes (byte_at m) a (half_bytes (mem_be m) v)"
proof
  fix b :: nat
  define k j where "k = a mod 4" and "j = b mod 4"
  have k: "k = 0 \<or> k = 2" using assms(2) even_mod_4 by (simp add: k_def)
  have j: "j < 4" by (simp add: j_def)
  have a: "a = 4 * (a div 4) + k" and b: "b = 4 * (b div 4) + j" by (simp_all add: k_def j_def)
  have in_cell: "a \<le> b \<and> b < a + 2 \<longleftrightarrow> b div 4 = a div 4 \<and> (j = k \<or> j = k + 1)"
    by (rule half_cell [OF j k, of "a div 4" "b div 4", folded a b])
  define u where "u = (if mem_be m \<noteq> 0 then ucast (reverse_2 (ucast v)) else v)"
  have lhs: "byte_at (set_half m a v) b =
      (if b div 4 = a div 4 then byte_of (put_half (mem_data m ! (a div 4)) k u) j else byte_at m b)"
    using assms(1) by (simp add: byte_at_def set_half_def Let_def u_def nth_list_update k_def j_def)
  have rhs: "half_bytes (mem_be m) v = [ucast u, ucast (drop_bit 8 u)]"
    by (simp add: half_bytes_eq u_def Let_def)
  show "byte_at (set_half m a v) b = store_bytes (byte_at m) a (half_bytes (mem_be m) v) b"
  proof (cases "b div 4 = a div 4 \<and> (j = k \<or> j = k + 1)")
    case True
    then have "b - a = j - k" using a b by auto
    with True in_cell show ?thesis
      unfolding lhs rhs store_bytes_nth by (auto simp: byte_of_put_half [OF k j])
  next
    case False
    with in_cell have "\<not> (a \<le> b \<and> b < a + 2)" by blast
    then have "store_bytes (byte_at m) a (half_bytes (mem_be m) v) b = byte_at m b"
      by (auto simp: store_bytes_nth)
    with False show ?thesis
      unfolding lhs by (auto simp: byte_of_put_half [OF k j]) (simp add: byte_at_def j_def)
  qed
qed

lemma byte_at_set_word:
  assumes "a div 4 < length (mem_data m)" "a mod 4 = 0"
  shows "byte_at (set_word m a v) = store_bytes (byte_at m) a (word_bytes (mem_be m) v)"
proof
  fix b :: nat
  note same_cell_iff [OF assms(2), of b]
  then show "byte_at (set_word m a v) b = store_bytes (byte_at m) a (word_bytes (mem_be m) v) b"
    using assms(1) by (auto simp: store_bytes_nth byte_at_def set_word_def word_bytes_eq nth_list_update)
qed

lemma wf_set [simp]:
  "wf_memory (set_byte m a b) = wf_memory m"
  "wf_memory (set_half m a h) = wf_memory m"
  "wf_memory (set_word m a w) = wf_memory m"
  by (simp_all add: wf_memory_def set_byte_def set_half_def set_word_def Let_def)

lemma set_fields [simp]:
  "mem_size (set_byte m a b) = mem_size m" "mem_be (set_byte m a b) = mem_be m"
  "mem_size (set_half m a h) = mem_size m" "mem_be (set_half m a h) = mem_be m"
  "mem_size (set_word m a w) = mem_size m" "mem_be (set_word m a w) = mem_be m"
  by (simp_all add: set_byte_def set_half_def set_word_def Let_def)

lemma in_memory_set [simp]:
  "in_memory (set_byte m a b) = in_memory m"
  "in_memory (set_half m a h) = in_memory m"
  "in_memory (set_word m a w) = in_memory m"
  by (simp_all add: in_memory_def fun_eq_iff)


section \<open>The memory routines meet the interface of accesses\<close>

definition ok_half :: "memory \<Rightarrow> u32 \<Rightarrow> bool" where
  "ok_half m a \<longleftrightarrow> in_memory m a \<and> even (unat a)"

definition ok_word :: "memory \<Rightarrow> u32 \<Rightarrow> bool" where
  "ok_word m a \<longleftrightarrow> in_memory m a \<and> unat a mod 4 = 0"

definition apart_by :: "nat \<Rightarrow> u32 \<Rightarrow> u32 \<Rightarrow> bool" where
  "apart_by n a b \<longleftrightarrow> unat a + n \<le> unat b \<or> unat b + n \<le> unat a"

lemma apart_by_sym: "apart_by n a b \<Longrightarrow> apart_by n b a"
  by (auto simp: apart_by_def)

lemma load_store_bytes: "load_bytes (store_bytes f a bs) a (length bs) = bs"
  by (rule nth_equalityI) (auto simp: load_bytes_def store_bytes_nth)

lemma load_store_bytes_apart:
  "a + length bs \<le> b \<or> b + n \<le> a \<Longrightarrow> load_bytes (store_bytes f a bs) b n = load_bytes f b n"
  by (auto simp: load_bytes_def store_bytes_nth)

lemma word_at_set_word:
  assumes "wf_memory m" "ok_word m a"
  shows "word_at (set_word m (unat a) v) (unat a) = v"
proof -
  have "word_bytes (mem_be m) (word_at (set_word m (unat a) v) (unat a)) = word_bytes (mem_be m) v"
    using assms load_store_bytes [of "byte_at m" "unat a" "word_bytes (mem_be m) v"]
      word_at_bytes [of "unat a" "set_word m (unat a) v"]
    by (simp add: ok_word_def byte_at_set_word index_in_data)
  then show ?thesis by (simp only: word_bytes_inject)
qed

lemma word_at_set_word_apart:
  assumes "wf_memory m" "ok_word m a" "ok_word m b" "apart_by 4 a b"
  shows "word_at (set_word m (unat a) v) (unat b) = word_at m (unat b)"
proof -
  have "word_bytes (mem_be m) (word_at (set_word m (unat a) v) (unat b))
      = word_bytes (mem_be m) (word_at m (unat b))"
    using assms load_store_bytes_apart [of "unat a" "word_bytes (mem_be m) v" "unat b" 4 "byte_at m"]
      word_at_bytes [of "unat b" "set_word m (unat a) v"] word_at_bytes [of "unat b" m]
    by (simp add: ok_word_def apart_by_def byte_at_set_word index_in_data)
  then show ?thesis by (simp only: word_bytes_inject)
qed

lemma half_at_set_half:
  assumes "wf_memory m" "ok_half m a"
  shows "half_at (set_half m (unat a) v) (unat a) = v"
proof -
  have "half_bytes (mem_be m) (half_at (set_half m (unat a) v) (unat a)) = half_bytes (mem_be m) v"
    using assms load_store_bytes [of "byte_at m" "unat a" "half_bytes (mem_be m) v"]
      half_at_bytes [of "unat a" "set_half m (unat a) v"]
    by (simp add: ok_half_def byte_at_set_half index_in_data)
  then show ?thesis by (simp only: half_bytes_inject)
qed

lemma half_at_set_half_apart:
  assumes "wf_memory m" "ok_half m a" "ok_half m b" "apart_by 2 a b"
  shows "half_at (set_half m (unat a) v) (unat b) = half_at m (unat b)"
proof -
  have "half_bytes (mem_be m) (half_at (set_half m (unat a) v) (unat b))
      = half_bytes (mem_be m) (half_at m (unat b))"
    using assms load_store_bytes_apart [of "unat a" "half_bytes (mem_be m) v" "unat b" 2 "byte_at m"]
      half_at_bytes [of "unat b" "set_half m (unat a) v"] half_at_bytes [of "unat b" m]
    by (simp add: ok_half_def apart_by_def byte_at_set_half index_in_data)
  then show ?thesis by (simp only: half_bytes_inject)
qed

interpretation byte_access: access memory_read_byte memory_write_byte wf_memory in_memory "apart_by 1"
  by unfold_locales
    (auto simp: memory_read_byte_eq memory_write_byte_eq byte_at_set_byte index_in_data apart_by_def
      split: if_splits)

interpretation half_access: access memory_read_half memory_write_half wf_memory ok_half "apart_by 2"
  by unfold_locales
    (auto simp: memory_read_half_eq memory_write_half_eq half_at_set_half half_at_set_half_apart
      ok_half_def [symmetric] ok_half_def [of "set_half _ _ _"] apart_by_sym split: if_splits)

interpretation word_access: access memory_read_word memory_write_word wf_memory ok_word "apart_by 4"
  by unfold_locales
    (auto simp: memory_read_word_eq memory_write_word_eq word_at_set_word word_at_set_word_apart
      ok_word_def [symmetric] ok_word_def [of "set_word _ _ _"] apart_by_sym split: if_splits)


section \<open>What no write changes\<close>

definition same_shape :: "memory \<Rightarrow> memory \<Rightarrow> bool" where
  "same_shape m m' \<longleftrightarrow> mem_size m' = mem_size m \<and> mem_be m' = mem_be m \<and>
     length (mem_data m') = length (mem_data m)"

lemma same_shape_refl [simp]: "same_shape m m"
  by (simp add: same_shape_def)

lemma same_shape_trans: "same_shape l m \<Longrightarrow> same_shape m n \<Longrightarrow> same_shape l n"
  by (simp add: same_shape_def)

lemma same_shape_wf: "same_shape m m' \<Longrightarrow> wf_memory m' = wf_memory m"
  by (simp add: same_shape_def wf_memory_def)

lemma memory_write_shape:
  "memory_write_byte m a b = Some (st, m') \<Longrightarrow> same_shape m m'"
  "memory_write_half m a h = Some (st, m') \<Longrightarrow> same_shape m m'"
  "memory_write_word m a w = Some (st, m') \<Longrightarrow> same_shape m m'"
  by (auto simp: memory_write_byte_def memory_write_half_def memory_write_word_def same_shape_def
      Let_def bind_eq_Some_conv dest!: arr_set_length split: if_splits prod.splits)

section \<open>Properties\<close>

text \<open>
  C12. A byte, half word or word write inside the memory refines the update of an abstract byte
  array: it stores the bytes of the value in the order of the endianness at consecutive
  addresses and leaves all other bytes.
\<close>

theorem memory_writes_store_bytes:
  assumes "wf_memory m" "in_memory m a"
  shows "(\<exists>m'. memory_write_byte m a b = Some (SUCCESS, m') \<and>
      byte_at m' = store_bytes (byte_at m) (unat a) [b]) \<and>
    (even (unat a) \<longrightarrow> (\<exists>m'. memory_write_half m a h = Some (SUCCESS, m') \<and>
      byte_at m' = store_bytes (byte_at m) (unat a) (half_bytes (mem_be m) h))) \<and>
    (unat a mod 4 = 0 \<longrightarrow> (\<exists>m'. memory_write_word m a w = Some (SUCCESS, m') \<and>
      byte_at m' = store_bytes (byte_at m) (unat a) (word_bytes (mem_be m) w)))"
  using assms index_in_data [OF assms]
  by (simp add: memory_write_byte_eq memory_write_half_eq memory_write_word_eq byte_at_set_byte
      byte_at_set_half byte_at_set_word)

definition example_memory :: memory where
  "example_memory = new_memory (\<lambda>_. 0) 64 1"

lemma wf_example_memory: "wf_memory example_memory"
  by (simp add: example_memory_def wf_new_memory)

lemma in_example_memory: "unat a < 64 \<Longrightarrow> in_memory example_memory a"
  by (simp add: example_memory_def in_memory_def new_memory_def)

theorem memory_writes_store_bytes_witness:
  "\<exists>m'. memory_write_word example_memory 8 0x11223344 = Some (SUCCESS, m') \<and>
    byte_at m' = store_bytes (byte_at example_memory) 8 (word_bytes (mem_be example_memory) 0x11223344)"
  using memory_writes_store_bytes [OF wf_example_memory in_example_memory, of 8 0 0 "0x11223344"] by simp

text \<open>
  C13. A byte, half word or word read inside the memory returns the value whose bytes, in the
  order of the endianness, are those of the abstract byte array at consecutive addresses.
\<close>

theorem memory_reads_load_bytes:
  assumes "wf_memory m" "in_memory m a"
  shows "(\<exists>b. memory_read_byte m a u = Some (SUCCESS, b) \<and> [b] = load_bytes (byte_at m) (unat a) 1) \<and>
    (even (unat a) \<longrightarrow> (\<exists>h. memory_read_half m a v = Some (SUCCESS, h) \<and>
      half_bytes (mem_be m) h = load_bytes (byte_at m) (unat a) 2)) \<and>
    (unat a mod 4 = 0 \<longrightarrow> (\<exists>w. memory_read_word m a x = Some (SUCCESS, w) \<and>
      word_bytes (mem_be m) w = load_bytes (byte_at m) (unat a) 4))"
  using assms index_in_data [OF assms]
  by (simp add: memory_read_byte_eq memory_read_half_eq memory_read_word_eq half_at_bytes word_at_bytes)
    (simp add: load_bytes_def)

theorem memory_reads_load_bytes_witness:
  "\<exists>w. memory_read_word example_memory 12 0 = Some (SUCCESS, w) \<and>
    word_bytes (mem_be example_memory) w = load_bytes (byte_at example_memory) 12 4"
  using memory_reads_load_bytes [OF wf_example_memory in_example_memory, of 12 0 0 0] by simp

text \<open>
  C27. An access outside the memory or not aligned on its size returns FAILURE, leaves the
  memory, and does not write to the location of the value.
\<close>

theorem memory_faults_change_nothing:
  assumes "wf_memory m"
  shows "(\<not> in_memory m a \<longrightarrow> memory_read_byte m a b = Some (FAILURE, b) \<and> memory_write_byte m a b = Some (FAILURE, m)) \<and>
    (\<not> (in_memory m a \<and> even (unat a)) \<longrightarrow>
      memory_read_half m a h = Some (FAILURE, h) \<and> memory_write_half m a h = Some (FAILURE, m)) \<and>
    (\<not> (in_memory m a \<and> unat a mod 4 = 0) \<longrightarrow>
      memory_read_word m a w = Some (FAILURE, w) \<and> memory_write_word m a w = Some (FAILURE, m))"
  using assms by (auto simp: memory_read_byte_eq memory_read_half_eq memory_read_word_eq memory_write_byte_eq
      memory_write_half_eq memory_write_word_eq)

theorem memory_faults_change_nothing_witness:
  "memory_read_word example_memory 6 7 = Some (FAILURE, 7) \<and>
    memory_write_word example_memory 6 7 = Some (FAILURE, example_memory)"
  using memory_faults_change_nothing [OF wf_example_memory, of 6 0 0 7] by simp

theorem memory_block_round_trip:
  assumes "wf_memory m" "\<forall>a \<in> set as. in_memory m a \<and> unat a mod 4 = 0" "all_apart (apart_by 4) as"
    "length vs = length as"
  shows "returns (put_all (\<lambda>m a v. map_option snd (memory_write_word m a v)) m (zip as vs))
    (\<lambda>m'. get_all (\<lambda>m a. map_option snd (memory_read_word m a 0)) m' as = Some vs)"
proof -
  have ok: "\<forall>a \<in> set as. ok_word m a" using assms(2) by (simp add: ok_word_def)
  then have "\<forall>(a, v) \<in> set (zip as vs). ok_word m a" by (auto dest: set_zip_leftD)
  from word_access.plain.put_all_defined [OF assms(1) this]
  show ?thesis
    using word_access.plain.get_all_put_all [OF assms(1) ok assms(3,4)] by (auto simp: returns_iff)
qed

theorem memory_block_round_trip_witness:
  "returns (put_all (\<lambda>m a v. map_option snd (memory_write_word m a v)) example_memory (zip [4, 16] [1, 2]))
    (\<lambda>m'. get_all (\<lambda>m a. map_option snd (memory_read_word m a 0)) m' [4, 16] = Some [1, 2])"
  by (rule memory_block_round_trip) (simp_all add: wf_example_memory in_example_memory apart_by_def)

end
