(* ===== verification/Arm_Constants.thy ===== *)
theory Arm_Constants
  imports Prelude
begin

text \<open>
  \<^verbatim>\<open>arm_constants.h\<close> and \<^verbatim>\<open>arm_constants.c\<close>: the processor modes, the exceptions, the positions of
  the flags in the CPSR, and the tables of names. The register indices that \<^verbatim>\<open>trace.h\<close> and
  \<^verbatim>\<open>registers.h\<close> define for the CPSR, the SPSR and the banked registers are here too, since every
  component names registers with them.
\<close>

section \<open>Modes, exceptions, flags\<close>

definition USR :: u8 where "USR = 0x10"
definition FIQ :: u8 where "FIQ = 0x11"
definition IRQ :: u8 where "IRQ = 0x12"
definition SVC :: u8 where "SVC = 0x13"
definition ABT :: u8 where "ABT = 0x17"
definition UND :: u8 where "UND = 0x1b"
definition SYS :: u8 where "SYS = 0x1f"

lemmas mode_defs = USR_def FIQ_def IRQ_def SVC_def ABT_def UND_def SYS_def

definition RESET :: u8 where "RESET = 1"
definition UNDEFINED_INSTRUCTION :: u8 where "UNDEFINED_INSTRUCTION = 2"
definition SOFTWARE_INTERRUPT :: u8 where "SOFTWARE_INTERRUPT = 3"
definition PREFETCH_ABORT :: u8 where "PREFETCH_ABORT = 4"
definition DATA_ABORT :: u8 where "DATA_ABORT = 5"
definition INTERRUPT :: u8 where "INTERRUPT = 6"
definition FAST_INTERRUPT :: u8 where "FAST_INTERRUPT = 7"

lemmas exception_defs = RESET_def UNDEFINED_INSTRUCTION_def SOFTWARE_INTERRUPT_def
  PREFETCH_ABORT_def DATA_ABORT_def INTERRUPT_def FAST_INTERRUPT_def

text \<open>The macros \<^verbatim>\<open>N\<close>, \<^verbatim>\<open>Z\<close>, \<^verbatim>\<open>C\<close> and \<^verbatim>\<open>V\<close>.\<close>

abbreviation N_bit :: nat where "N_bit \<equiv> 31"
abbreviation Z_bit :: nat where "Z_bit \<equiv> 30"
abbreviation C_bit :: nat where "C_bit \<equiv> 29"
abbreviation V_bit :: nat where "V_bit \<equiv> 28"

section \<open>Register indices\<close>

definition CPSR :: u8 where "CPSR = 16"
definition SPSR :: u8 where "SPSR = 17"
definition R13_SVC :: u8 where "R13_SVC = 23"
definition R13_ABT :: u8 where "R13_ABT = 24"
definition R13_UND :: u8 where "R13_UND = 25"
definition R13_IRQ :: u8 where "R13_IRQ = 26"
definition R13_FIQ :: u8 where "R13_FIQ = 27"
definition R14_SVC :: u8 where "R14_SVC = 28"
definition R14_ABT :: u8 where "R14_ABT = 29"
definition R14_UND :: u8 where "R14_UND = 30"
definition R14_IRQ :: u8 where "R14_IRQ = 31"
definition R14_FIQ :: u8 where "R14_FIQ = 32"
definition SPSR_SVC :: u8 where "SPSR_SVC = 33"
definition SPSR_ABT :: u8 where "SPSR_ABT = 34"
definition SPSR_UND :: u8 where "SPSR_UND = 35"
definition SPSR_IRQ :: u8 where "SPSR_IRQ = 36"
definition SPSR_FIQ :: u8 where "SPSR_FIQ = 37"

lemmas reg_defs = CPSR_def SPSR_def R13_SVC_def R13_ABT_def R13_UND_def R13_IRQ_def R13_FIQ_def
  R14_SVC_def R14_ABT_def R14_UND_def R14_IRQ_def R14_FIQ_def
  SPSR_SVC_def SPSR_ABT_def SPSR_UND_def SPSR_IRQ_def SPSR_FIQ_def

section \<open>Tables of names\<close>

text \<open>A null pointer in a table is \<open>None\<close>.\<close>

definition arm_mode_names :: "string option list" where
  "arm_mode_names = replicate 16 None @
     [Some ''USR'', Some ''FIQ'', Some ''IRQ'', Some ''SVC'', None, None, None,
      Some ''ABT'', None, None, None, Some ''UND'', None, None, None, Some ''SYS'']"

definition arm_register_names :: "string list" where
  "arm_register_names =
     [''R00'', ''R01'', ''R02'', ''R03'', ''R04'', ''R05'', ''R06'', ''R07'', ''R08'', ''R09'',
      ''R10'', ''R11'', ''R12'', ''SP'', ''LR'', ''PC'', ''CPSR'', ''SPSR'']"

definition arm_exception_names :: "string option list" where
  "arm_exception_names =
     [None, Some ''reset'', Some ''undefined instruction'', Some ''software interrupt'',
      Some ''prefetch abort'', Some ''data abort'', Some ''interrupt'', Some ''fast interrupt'']"

definition arm_get_exception_name :: "u8 \<Rightarrow> string option option" where
  "arm_get_exception_name exception =
     (if exception < 8 then arr_get arm_exception_names (unat exception) else Some None)"

definition arm_get_mode_name :: "u8 \<Rightarrow> string option option" where
  "arm_get_mode_name mode = arr_get arm_mode_names (unat mode)"

definition arm_get_register_name :: "u8 \<Rightarrow> string option" where
  "arm_get_register_name reg = arr_get arm_register_names (unat reg)"

lemma length_arm_mode_names [simp]: "length arm_mode_names = 32"
  by (simp add: arm_mode_names_def)

lemma length_arm_register_names [simp]: "length arm_register_names = 18"
  by (simp add: arm_register_names_def)

lemma length_arm_exception_names [simp]: "length arm_exception_names = 8"
  by (simp add: arm_exception_names_def)

lemma arm_get_exception_name_defined: "arm_get_exception_name e \<noteq> None"
  by (auto simp: arm_get_exception_name_def word_less_nat_alt)

text \<open>The seven modes the processor can be in; every other value of the mode bits is invalid.\<close>

definition valid_mode :: "u8 \<Rightarrow> bool" where
  "valid_mode m \<longleftrightarrow> m \<in> {USR, FIQ, IRQ, SVC, ABT, UND, SYS}"

lemma valid_modeE:
  assumes "valid_mode m"
  obtains "m = USR" | "m = FIQ" | "m = IRQ" | "m = SVC" | "m = ABT" | "m = UND" | "m = SYS"
  using assms by (auto simp: valid_mode_def)

lemma named_modes:
  assumes "m < 32"
  shows "(case arm_get_mode_name m of Some (Some s) \<Rightarrow> True | _ \<Rightarrow> False) \<longleftrightarrow> valid_mode m"
proof -
  have "\<forall>k \<in> set [0..<32]. (case arm_get_mode_name (of_nat k) of Some (Some s) \<Rightarrow> True | _ \<Rightarrow> False)
      \<longleftrightarrow> valid_mode (of_nat k)"
    by code_simp
  moreover have "unat m < 32" using assms by (simp add: word_less_nat_alt)
  ultimately show ?thesis by (force dest: bspec [of _ _ "unat m"])
qed

end
