(* ===== verification/Registers.thy ===== *)
theory Registers
  imports Util Arm_Constants Cells
begin

text \<open>
  \<^verbatim>\<open>registers.h\<close> and \<^verbatim>\<open>registers.c\<close>: the 38 physical registers and the banking that maps a
  register number, in the mode of the CPSR, to one of them. The specification of the banking
  is the bank that owns a register in a mode; the main fact is that two registers share a
  physical register exactly when their numbers and their banks agree.
\<close>

section \<open>State and operations\<close>

record registers =
  reg_data :: "u32 list"

definition registers_create :: registers where
  "registers_create = \<lparr>reg_data = replicate 38 0\<rparr>"

definition read_cpsr :: "registers \<Rightarrow> u32" where
  "read_cpsr r = reg_data r ! unat CPSR"

definition get_mode :: "registers \<Rightarrow> u8" where
  "get_mode r = ucast (get_bits (read_cpsr r) 4 0)"

definition current_mode_has_spsr :: "registers \<Rightarrow> bool" where
  "current_mode_has_spsr r \<longleftrightarrow> \<not> (get_mode r = USR \<or> get_mode r = SYS)"

definition in_a_privileged_mode :: "registers \<Rightarrow> bool" where
  "in_a_privileged_mode r \<longleftrightarrow> get_mode r \<noteq> USR"

text \<open>\<open>getRegister_in\<close> is the body of \<^verbatim>\<open>getRegister\<close> once the mode is read; \<open>-1\<close> is cast to \<^verbatim>\<open>uint8_t\<close>.\<close>

definition getRegister_in :: "u8 \<Rightarrow> u8 \<Rightarrow> u8" where
  "getRegister_in mode reg =
     (if mode = USR \<or> mode = SYS then reg
      else if reg < 8 \<or> reg = 15 \<or> reg = 16 then reg
      else if mode \<noteq> FIQ \<and> reg < 13 then reg
      else if reg < 13 then reg + 10
      else if mode = SVC then (if reg = 13 then R13_SVC else if reg = 14 then R14_SVC else SPSR_SVC)
      else if mode = ABT then (if reg = 13 then R13_ABT else if reg = 14 then R14_ABT else SPSR_ABT)
      else if mode = UND then (if reg = 13 then R13_UND else if reg = 14 then R14_UND else SPSR_UND)
      else if mode = IRQ then (if reg = 13 then R13_IRQ else if reg = 14 then R14_IRQ else SPSR_IRQ)
      else if mode = FIQ then (if reg = 13 then R13_FIQ else if reg = 14 then R14_FIQ else SPSR_FIQ)
      else - 1)"

definition getRegister :: "registers \<Rightarrow> u8 \<Rightarrow> u8" where
  "getRegister r reg = getRegister_in (get_mode r) reg"

definition read_register :: "registers \<Rightarrow> u8 \<Rightarrow> u32 option" where
  "read_register r reg = arr_get (reg_data r) (unat (getRegister r reg))"

definition read_usr_register :: "registers \<Rightarrow> u8 \<Rightarrow> u32 option" where
  "read_usr_register r reg = arr_get (reg_data r) (unat reg)"

definition read_spsr :: "registers \<Rightarrow> u32 option" where
  "read_spsr r =
     (if current_mode_has_spsr r then arr_get (reg_data r) (unat (getRegister r SPSR)) else Some (- 1))"

text \<open>The writes clear the register with a null mask, then put the bits of the value in.\<close>

definition masked_write :: "registers \<Rightarrow> u8 \<Rightarrow> u32 \<Rightarrow> registers option" where
  "masked_write r rg value =
     (let mask = NOT (0xFFFFFFFF :: u32) in do {
        old \<leftarrow> arr_get (reg_data r) (unat rg);
        data \<leftarrow> arr_set (reg_data r) (unat rg) ((old AND mask) OR value);
        Some (r\<lparr>reg_data := data\<rparr>) })"

definition write_register :: "registers \<Rightarrow> u8 \<Rightarrow> u32 \<Rightarrow> registers option" where
  "write_register r reg value = masked_write r (getRegister r reg) value"

definition write_usr_register :: "registers \<Rightarrow> u8 \<Rightarrow> u32 \<Rightarrow> registers option" where
  "write_usr_register r reg value =
     (if get_mode r = USR then masked_write r reg value else Some r)"

definition write_cpsr :: "registers \<Rightarrow> u32 \<Rightarrow> registers option" where
  "write_cpsr r value = masked_write r CPSR value"

definition write_spsr :: "registers \<Rightarrow> u32 \<Rightarrow> registers option" where
  "write_spsr r value =
     (if current_mode_has_spsr r then masked_write r (getRegister r SPSR) value else Some r)"

section \<open>Banks\<close>

text \<open>
  The bank a register number belongs to in a mode: \<open>FIQ\<close> has its own \<open>r8\<close> to \<open>r14\<close>, the other
  exception modes their own \<open>r13\<close> and \<open>r14\<close>, and the rest is shared with user mode.
\<close>

definition bank :: "u8 \<Rightarrow> u8 \<Rightarrow> u8" where
  "bank mode reg =
     (if mode = FIQ \<and> 8 \<le> reg \<and> reg \<le> 14 then FIQ
      else if mode \<in> {IRQ, SVC, ABT, UND} \<and> (reg = 13 \<or> reg = 14) then mode
      else USR)"

definition modes :: "u8 list" where
  "modes = [USR, FIQ, IRQ, SVC, ABT, UND, SYS]"

lemma set_modes: "m \<in> set modes \<longleftrightarrow> valid_mode m"
  by (auto simp: modes_def valid_mode_def)

text \<open>The bank and number of a physical register.\<close>

definition owner :: "u8 \<Rightarrow> u8 \<times> u8" where
  "owner p =
     (if p < 16 then (USR, p)
      else if p \<le> 22 then (FIQ, p - 10)
      else (([SVC, ABT, UND, IRQ, FIQ] ! (unat (p - 23) mod 5)), if p \<le> 27 then 13 else 14))"

lemma reg_cases:
  assumes "reg < 16"
  shows "\<exists>k \<in> set [0..<16]. reg = (of_nat k :: u8)"
  using assms by (intro bexI [of _ "unat reg"]) (simp_all add: word_less_nat_alt)

lemma owner_getRegister_in:
  assumes "valid_mode m" "reg < 16"
  shows "owner (getRegister_in m reg) = (bank m reg, reg)"
proof -
  have "\<forall>m \<in> set modes. \<forall>k \<in> set [0..<16].
      owner (getRegister_in m (of_nat k)) = (bank m (of_nat k), of_nat k)"
    by code_simp
  with assms reg_cases show ?thesis by (metis set_modes)
qed

lemma getRegister_in_bank:
  assumes "valid_mode m" "reg < 16"
  shows "getRegister_in m reg = getRegister_in (bank m reg) reg"
proof -
  have "\<forall>m \<in> set modes. \<forall>k \<in> set [0..<16].
      getRegister_in m (of_nat k) = getRegister_in (bank m (of_nat k)) (of_nat k)"
    by code_simp
  with assms reg_cases show ?thesis by (metis set_modes)
qed

lemma getRegister_in_range:
  assumes "valid_mode m" "reg < 16"
  shows "unat (getRegister_in m reg) < 38 \<and> unat (getRegister_in m reg) \<noteq> 16 \<and>
    unat (getRegister_in m reg) < 33"
proof -
  have "\<forall>m \<in> set modes. \<forall>k \<in> set [0..<16].
      unat (getRegister_in m (of_nat k)) < 33 \<and> unat (getRegister_in m (of_nat k)) \<noteq> 16"
    by code_simp
  with assms reg_cases have "unat (getRegister_in m reg) < 33 \<and> unat (getRegister_in m reg) \<noteq> 16"
    by (metis set_modes)
  then show ?thesis by simp
qed

lemma getRegister_in_SPSR_range:
  assumes "valid_mode m" "m \<noteq> USR" "m \<noteq> SYS"
  shows "unat (getRegister_in m SPSR) < 38 \<and> 32 < unat (getRegister_in m SPSR)"
proof -
  have "\<forall>m \<in> set modes. m \<noteq> USR \<and> m \<noteq> SYS \<longrightarrow>
      unat (getRegister_in m SPSR) < 38 \<and> 32 < unat (getRegister_in m SPSR)"
    by code_simp
  with assms show ?thesis by (metis set_modes)
qed

text \<open>Two registers, each in a mode, are one physical register exactly when number and bank agree.\<close>

lemma getRegister_in_eq_iff:
  assumes "valid_mode m" "reg < 16" "valid_mode m'" "reg' < 16"
  shows "getRegister_in m reg = getRegister_in m' reg' \<longleftrightarrow> reg = reg' \<and> bank m reg = bank m' reg'"
  using owner_getRegister_in [OF assms(1,2)] owner_getRegister_in [OF assms(3,4)]
    getRegister_in_bank [OF assms(1,2)] getRegister_in_bank [OF assms(3,4)]
  by (metis prod.inject)

section \<open>Well-formed register files\<close>

definition wf_registers :: "registers \<Rightarrow> bool" where
  "wf_registers r \<longleftrightarrow> length (reg_data r) = 38"

definition mode_of :: "u32 \<Rightarrow> u8" where
  "mode_of v = ucast (get_bits v 4 0)"

lemma get_mode_eq: "get_mode r = mode_of (read_cpsr r)"
  by (simp add: get_mode_def mode_of_def)

lemma mode_of_less: "mode_of v < 32"
proof -
  have "unat (mode_of v) = unat (take_bit 5 v)"
    by (simp add: mode_of_def get_bits_eq unsigned_ucast_eq unsigned_take_bit_eq)
  also have "\<dots> < 32"
    using take_bit_nat_less_exp [of 5 "unat v"] by (simp add: unsigned_take_bit_eq)
  finally show ?thesis by (simp add: word_less_nat_alt)
qed

lemma bit_mode_of: "bit (mode_of v) i \<longleftrightarrow> i < 5 \<and> bit v i"
  by (auto simp: mode_of_def bits bit_simps)

lemma mode_of_high_bits [simp]:
  "4 < i \<Longrightarrow> i < 32 \<Longrightarrow> mode_of (set_bit_c x i) = mode_of x"
  "4 < i \<Longrightarrow> i < 32 \<Longrightarrow> mode_of (clr_bit x i) = mode_of x"
  by (rule bit_word_eqI, auto simp: bit_mode_of bits)+

lemma wf_registers_create: "wf_registers registers_create"
  by (simp add: wf_registers_def registers_create_def)

lemma write_mask: "(- 4294967296 :: u32) = 0"
  by code_simp

lemma masked_write_eq:
  "wf_registers r \<Longrightarrow> unat rg < 38 \<Longrightarrow>
     masked_write r rg v = Some (r\<lparr>reg_data := (reg_data r)[unat rg := v]\<rparr>)"
  by (simp add: masked_write_def wf_registers_def write_mask)

lemma masked_write_wf: "masked_write r rg v = Some r' \<Longrightarrow> wf_registers r' = wf_registers r"
  by (auto simp: masked_write_def wf_registers_def Let_def bind_eq_Some_conv dest: arr_set_length)

lemma unat_CPSR [simp]: "unat CPSR = 16"
  by (simp add: CPSR_def)

lemma write_cpsr_eq:
  "wf_registers r \<Longrightarrow> write_cpsr r v = Some (r\<lparr>reg_data := (reg_data r)[16 := v]\<rparr>)"
  by (simp add: write_cpsr_def masked_write_eq)

lemma read_register_eq:
  assumes "wf_registers r" "valid_mode (get_mode r)" "reg < 16"
  shows "read_register r reg = Some (reg_data r ! unat (getRegister r reg))"
  using assms getRegister_in_range by (simp add: read_register_def getRegister_def wf_registers_def)

lemma write_register_eq:
  assumes "wf_registers r" "valid_mode (get_mode r)" "reg < 16"
  shows "write_register r reg v = Some (r\<lparr>reg_data := (reg_data r)[unat (getRegister r reg) := v]\<rparr>)"
  using assms getRegister_in_range by (simp add: write_register_def getRegister_def masked_write_eq)

lemma read_cpsr_update [simp]:
  "wf_registers r \<Longrightarrow> read_cpsr (r\<lparr>reg_data := (reg_data r)[i := v]\<rparr>) = (if i = 16 then v else read_cpsr r)"
  by (simp add: read_cpsr_def wf_registers_def)

lemma wf_registers_update [simp]:
  "wf_registers (r\<lparr>reg_data := (reg_data r)[i := v]\<rparr>) = wf_registers r"
  by (simp add: wf_registers_def)

interpretation register_cells: cells read_register write_register
  "\<lambda>r. wf_registers r \<and> valid_mode (get_mode r)" "\<lambda>r reg. reg < 16" "(\<noteq>)"
proof unfold_locales
  fix r r' :: registers and reg :: u8 and v :: u32
  assume inv: "wf_registers r \<and> valid_mode (get_mode r)" and reg: "reg < 16"
  note range = getRegister_in_range [of "get_mode r", OF _ reg]
  show "read_register r reg \<noteq> None" "write_register r reg v \<noteq> None"
    using inv reg by (simp_all add: read_register_eq write_register_eq)
  assume w: "write_register r reg v = Some r'"
  then have r': "r' = r\<lparr>reg_data := (reg_data r)[unat (getRegister r reg) := v]\<rparr>"
    using inv reg by (simp add: write_register_eq)
  with inv range have mode: "get_mode r' = get_mode r" by (simp add: get_mode_eq getRegister_def)
  with inv r' show inv': "wf_registers r' \<and> valid_mode (get_mode r')" by simp
  show "read_register r' reg = Some v"
    using inv inv' reg range mode by (simp add: read_register_eq getRegister_def r' wf_registers_def)
  fix b :: u8
  assume b: "b < 16" and "reg \<noteq> b"
  then have "getRegister r reg \<noteq> getRegister r b"
    using inv reg by (simp add: getRegister_def getRegister_in_eq_iff)
  then have "unat (getRegister r reg) \<noteq> unat (getRegister r b)" by (simp add: word_unat_eq_iff)
  then show "read_register r' b = read_register r b"
    using inv inv' b mode by (simp add: read_register_eq getRegister_def r')
qed auto


section \<open>Switching modes\<close>

text \<open>
  C14. A write to a register in one mode is seen from another mode exactly when the architecture
  gives the register the same bank in both modes; otherwise the register keeps its value.
\<close>

theorem banked_registers_isolated:
  assumes "wf_registers r" "valid_mode (get_mode r)" "valid_mode (mode_of v)" "reg < 16" "reg' < 16"
  shows "do { r1 \<leftarrow> write_cpsr r v; r2 \<leftarrow> write_register r1 reg' x;
              r3 \<leftarrow> write_cpsr r2 (read_cpsr r); read_register r3 reg } =
    (if reg = reg' \<and> bank (get_mode r) reg = bank (mode_of v) reg' then Some x
     else read_register r reg)" (is "?lhs = _")
proof -
  define r1 where "r1 = r\<lparr>reg_data := (reg_data r)[16 := v]\<rparr>"
  define p where "p = unat (getRegister_in (mode_of v) reg')"
  define q where "q = unat (getRegister_in (get_mode r) reg)"
  have p: "p < 38" "p \<noteq> 16" and q: "q < 38" "q \<noteq> 16"
    using getRegister_in_range assms by (simp_all add: p_def q_def)
  have pq: "q = p \<longleftrightarrow> reg = reg' \<and> bank (get_mode r) reg = bank (mode_of v) reg'"
    unfolding p_def q_def by (simp add: getRegister_in_eq_iff assms flip: word_unat_eq_iff)
  have wf1: "wf_registers r1" and mode1: "get_mode r1 = mode_of v"
    using assms(1) by (simp_all add: r1_def get_mode_eq)
  define r3 where "r3 = r\<lparr>reg_data := ((reg_data r)[16 := v, p := x])[16 := read_cpsr r]\<rparr>"
  have "?lhs = read_register r3 reg"
    using assms wf1 mode1 by (simp add: write_cpsr_eq write_register_eq r1_def [symmetric])
      (simp add: r1_def r3_def p_def getRegister_def write_cpsr_eq)
  moreover have mode3: "get_mode r3 = get_mode r" and wf3: "wf_registers r3"
    using assms(1) by (simp_all add: get_mode_eq r3_def read_cpsr_def wf_registers_def)
  ultimately have "?lhs = Some (reg_data r3 ! q)"
    using read_register_eq [OF wf3 _ assms(4)] assms(2) by (simp add: getRegister_def q_def)
  also have "\<dots> = (if q = p then Some x else read_register r reg)"
    using assms p q by (simp add: r3_def read_register_eq getRegister_def wf_registers_def nth_list_update)
      (simp add: q_def)
  finally show ?thesis by (simp only: pq)
qed

theorem banked_registers_isolated_witness:
  "do { r1 \<leftarrow> write_cpsr \<lparr>reg_data = (replicate 38 0)[16 := 0x1D3]\<rparr> 0x1D1; r2 \<leftarrow> write_register r1 8 5;
        r3 \<leftarrow> write_cpsr r2 (read_cpsr \<lparr>reg_data = (replicate 38 0)[16 := 0x1D3]\<rparr>); read_register r3 8 } =
    (if (8 :: u8) = 8 \<and> bank (get_mode \<lparr>reg_data = (replicate 38 0)[16 := 0x1D3]\<rparr>) 8 = bank (mode_of 0x1D1) 8
     then Some 5 else read_register \<lparr>reg_data = (replicate 38 0)[16 := 0x1D3]\<rparr> 8)"
  by (rule banked_registers_isolated; code_simp)

end
