(* ===== verification/Printf.thy ===== *)
theory Printf
  imports Prelude
begin

text \<open>
  The conversions of \<^verbatim>\<open>printf\<close> and \<^verbatim>\<open>sscanf\<close> the sources use: \<^verbatim>\<open>%d\<close>, \<^verbatim>\<open>%08X\<close>, \<^verbatim>\<open>%02x\<close> and \<^verbatim>\<open>%3s\<close>.
\<close>

fun digits :: "nat \<Rightarrow> string" where
  "digits n = (if n < 10 then [char_of (48 + n)] else digits (n div 10) @ [char_of (48 + n mod 10)])"

declare digits.simps [simp del]

definition fmt_d :: "int \<Rightarrow> string" where
  "fmt_d i = (if i < 0 then CHR ''-'' # digits (nat (- i)) else digits (nat i))"

definition hex_digit :: "nat \<Rightarrow> nat \<Rightarrow> char" where
  "hex_digit a n = char_of (if n < 10 then 48 + n else a + n - 10)"

text \<open>The digit \<open>k\<close> of a word, counting from the least significant.\<close>

definition nibble :: "u32 \<Rightarrow> nat \<Rightarrow> nat" where
  "nibble w k = unat (take_bit 4 (drop_bit (4 * k) w))"

definition fmt_08X :: "u32 \<Rightarrow> string" where
  "fmt_08X w = map (\<lambda>k. hex_digit 65 (nibble w k)) [7, 6, 5, 4, 3, 2, 1, 0]"

definition fmt_02x :: "u8 \<Rightarrow> string" where
  "fmt_02x b = [hex_digit 97 (unat b div 16), hex_digit 97 (unat b mod 16)]"

definition fmt_3s :: "string \<Rightarrow> string" where
  "fmt_3s s = replicate (3 - length s) CHR '' '' @ s"

lemma length_fmt_02x [simp]: "length (fmt_02x b) = 2"
  by (simp add: fmt_02x_def)

lemma length_fmt_08X [simp]: "length (fmt_08X w) = 8"
  by (simp add: fmt_08X_def)

end
