(* ===== verification/Trace.thy ===== *)
theory Trace
  imports Util Arm_Constants Printf
begin

text \<open>
  \<^verbatim>\<open>trace.h\<close> and \<^verbatim>\<open>trace.c\<close>: the trace of the accesses to
  registers and memory. The static variables of \<^verbatim>\<open>trace.c\<close> are the record \<open>trace\<close>; its last
  field is what has been printed. Built as \<^verbatim>\<open>Makefile.am\<close> does, without \<^verbatim>\<open>ARM_TRACE_FORMAT\<close>.
\<close>

section \<open>State\<close>

text \<open>What is printed: the fields of each format string; \<open>render\<close> gives the characters.\<close>

type_synonym location = "(string \<times> int) option"

datatype line =
    Mem_line location u32 string string u8 string u32 u32
  | Reg_line location u32 string string string u32
  | Text string

record trace =
  tr_output :: "line list"  \<comment> \<open>most recent first\<close>
  last_address :: u32
  tr_enabled :: bool
  location_stack :: "(string \<times> int) list"  \<comment> \<open>top first; the arrays hold 128\<close>
  trace_flags :: u32

definition trace_init :: trace where
  "trace_init = \<lparr>tr_output = [], last_address = 0x12345678, tr_enabled = True,
     location_stack = [], trace_flags = 0\<rparr>"

definition OTHER_ACCESS :: u8 where "OTHER_ACCESS = 0"
definition OPCODE_FETCH :: u8 where "OPCODE_FETCH = 1"
definition WRITE :: u8 where "WRITE = 0"
definition READ :: u8 where "READ = 1"
definition MEMORY :: u32 where "MEMORY = 1"
definition REGISTERS :: u32 where "REGISTERS = 2"
definition STATE :: u32 where "STATE = 4"
definition POSITION :: u32 where "POSITION = 8"

lemmas trace_consts = OTHER_ACCESS_def OPCODE_FETCH_def WRITE_def READ_def

definition trace_memory_seq :: "string list" where "trace_memory_seq = ['''', '''']"
definition trace_memory_cause :: "string list" where "trace_memory_cause = ['''', '', fetch'']"
definition trace_memory_type :: "string list" where "trace_memory_type = [''write'', ''read'']"
definition trace_register_type :: "string list" where "trace_register_type = [''write'', ''read'']"

section \<open>Operations\<close>

definition trace_start_location :: "string \<Rightarrow> int \<Rightarrow> trace \<Rightarrow> trace option" where
  "trace_start_location file l t =
     (if tr_enabled t
      then if length (location_stack t) < 128
           then Some (t\<lparr>location_stack := (file, l) # location_stack t\<rparr>) else None
      else Some t)"

definition trace_end_location :: "trace \<Rightarrow> trace option" where
  "trace_end_location t =
     (if tr_enabled t
      then case location_stack t of [] \<Rightarrow> None | _ # ls \<Rightarrow> Some (t\<lparr>location_stack := ls\<rparr>)
      else Some t)"

definition trace_print_location :: "trace \<Rightarrow> location" where
  "trace_print_location t =
     (if tr_enabled t \<and> trace_flags t AND POSITION \<noteq> 0
      then case location_stack t of [] \<Rightarrow> None | l # _ \<Rightarrow> Some l
      else None)"

definition trace_memory :: "u32 \<Rightarrow> u8 \<Rightarrow> u8 \<Rightarrow> u8 \<Rightarrow> u32 \<Rightarrow> u32 \<Rightarrow> trace \<Rightarrow> trace option" where
  "trace_memory cycle type sz cause address value t =
     (if tr_enabled t \<and> trace_flags t AND MEMORY \<noteq> 0
      then do {
        let sq = (if address = last_address t + 4 then 1 else 0 :: nat);
        let t = t\<lparr>last_address := address\<rparr>;
        let loc = trace_print_location t;
        sq_name \<leftarrow> arr_get trace_memory_seq sq;
        type_name \<leftarrow> arr_get trace_memory_type (unat type);
        cause_name \<leftarrow> arr_get trace_memory_cause (unat cause);
        Some (t\<lparr>tr_output :=
          Mem_line loc cycle sq_name type_name sz cause_name address value # tr_output t\<rparr>)
      }
      else Some t)"

definition trace_register :: "u32 \<Rightarrow> u8 \<Rightarrow> u8 \<Rightarrow> u8 \<Rightarrow> u32 \<Rightarrow> trace \<Rightarrow> trace option" where
  "trace_register cycle type reg mode value t =
     (if tr_enabled t \<and> trace_flags t AND REGISTERS \<noteq> 0
      then do {
        mode_entry \<leftarrow> arm_get_mode_name mode;
        let mode_name = (case mode_entry of None \<Rightarrow> '''' | Some s \<Rightarrow> ''_'' @ s);
        let loc = trace_print_location t;
        type_name \<leftarrow> arr_get trace_register_type (unat type);
        reg_name \<leftarrow> arm_get_register_name reg;
        Some (t\<lparr>tr_output := Reg_line loc cycle type_name reg_name mode_name value # tr_output t\<rparr>)
      }
      else Some t)"

definition trace_disable :: "trace \<Rightarrow> trace" where
  "trace_disable t = t\<lparr>tr_enabled := False\<rparr>"

definition trace_enable :: "trace \<Rightarrow> trace" where
  "trace_enable t = t\<lparr>tr_enabled := True\<rparr>"

definition trace_add :: "u32 \<Rightarrow> trace \<Rightarrow> trace" where
  "trace_add flags t = t\<lparr>trace_flags := trace_flags t OR flags\<rparr>"

text \<open>The characters \<^verbatim>\<open>fprintf\<close> writes for a line; \<^verbatim>\<open>%d\<close> prints the cycle count as signed.\<close>

definition render_location :: "location \<Rightarrow> string" where
  "render_location loc = (case loc of None \<Rightarrow> '''' | Some (file, l) \<Rightarrow> file @ '', '' @ fmt_d l @ '': '')"

fun render :: "line \<Rightarrow> string" where
  "render (Mem_line loc cycle sq type sz cause address value) =
     render_location loc @ ''Cycle '' @ fmt_d (sint cycle) @ '', Mem '' @ sq @ type @ '' ('' @
     fmt_d (uint sz) @ '' bytes'' @ cause @ '') addr: '' @ fmt_08X address @ '', val: '' @ fmt_08X value @
     [CHR 0x0A]"
| "render (Reg_line loc cycle type reg mode value) =
     render_location loc @ ''Cycle '' @ fmt_d (sint cycle) @ '', Register '' @ type @ '', '' @ reg @ mode @
     '', val: '' @ fmt_08X value @ [CHR 0x0A]"
| "render (Text s) = s"

definition printed :: "trace \<Rightarrow> string" where
  "printed t = concat (map render (rev (tr_output t)))"

section \<open>What the trace depends on\<close>

text \<open>
  The part of the state the program itself reads back: an access changes only what is printed
  and the last address.
\<close>

definition same_setup :: "trace \<Rightarrow> trace \<Rightarrow> bool" where
  "same_setup t u \<longleftrightarrow> tr_enabled u = tr_enabled t \<and> location_stack u = location_stack t \<and>
     trace_flags u = trace_flags t"

lemma same_setup_refl [simp]: "same_setup t t"
  by (simp add: same_setup_def)

lemma same_setup_trans: "same_setup t u \<Longrightarrow> same_setup u v \<Longrightarrow> same_setup t v"
  by (simp add: same_setup_def)

lemma trace_register_defined:
  assumes "type = READ \<or> type = WRITE" "reg \<le> 17" "mode < 32"
  shows "trace_register cycle type reg mode value t \<noteq> None"
proof -
  have "unat type < 2" "unat reg < 18" "unat mode < 32"
    using assms by (auto simp: trace_consts word_less_nat_alt word_le_nat_alt)
  then show ?thesis
    by (simp add: trace_register_def arm_get_mode_name_def arm_get_register_name_def
        trace_register_type_def Let_def)
qed

lemma trace_memory_defined:
  assumes "type = READ \<or> type = WRITE" "cause = OTHER_ACCESS \<or> cause = OPCODE_FETCH"
  shows "trace_memory cycle type sz cause address value t \<noteq> None"
  using assms
  by (auto simp: trace_memory_def trace_consts trace_memory_seq_def trace_memory_type_def
      trace_memory_cause_def Let_def)

lemma trace_register_setup:
  "trace_register cycle type reg mode value t = Some u \<Longrightarrow> same_setup t u"
  by (auto simp: trace_register_def same_setup_def Let_def bind_eq_Some_conv split: if_splits)

lemma trace_memory_setup:
  "trace_memory cycle type sz cause address value t = Some u \<Longrightarrow> same_setup t u"
  by (auto simp: trace_memory_def same_setup_def Let_def bind_eq_Some_conv split: if_splits)

text \<open>The trace after an access, when the access names an existing register and mode.\<close>

definition log_reg :: "u32 \<Rightarrow> u8 \<Rightarrow> u8 \<Rightarrow> u8 \<Rightarrow> u32 \<Rightarrow> trace \<Rightarrow> trace" where
  "log_reg cycle type reg mode value t =
     (case trace_register cycle type reg mode value t of None \<Rightarrow> t | Some u \<Rightarrow> u)"

definition log_mem :: "u32 \<Rightarrow> u8 \<Rightarrow> u8 \<Rightarrow> u8 \<Rightarrow> u32 \<Rightarrow> u32 \<Rightarrow> trace \<Rightarrow> trace" where
  "log_mem cycle type sz cause address value t =
     (case trace_memory cycle type sz cause address value t of None \<Rightarrow> t | Some u \<Rightarrow> u)"

lemma trace_register_log:
  "type = READ \<or> type = WRITE \<Longrightarrow> reg \<le> 17 \<Longrightarrow> mode < 32 \<Longrightarrow>
     trace_register cycle type reg mode value t = Some (log_reg cycle type reg mode value t)"
  using trace_register_defined [of type reg mode cycle "value" t] by (auto simp: log_reg_def)

lemma trace_memory_log:
  "type = READ \<or> type = WRITE \<Longrightarrow> cause = OTHER_ACCESS \<or> cause = OPCODE_FETCH \<Longrightarrow>
     trace_memory cycle type sz cause address value t =
       Some (log_mem cycle type sz cause address value t)"
  using trace_memory_defined [of type cause cycle sz address "value" t] by (auto simp: log_mem_def)

end
