(* ===== verification/Arm_Core.thy ===== *)
theory Arm_Core
  imports Memory Registers Trace
begin

text \<open>
  \<^verbatim>\<open>arm_core.h\<close> and \<^verbatim>\<open>arm_core.c\<close>: the state of the processor and its accesses to registers and
  memory, each of which is traced. The record also holds the static variables of \<^verbatim>\<open>trace.c\<close>,
  which are global in C and change with every access.
\<close>

section \<open>State and operations\<close>

record arm_core =
  cycle_count :: u32
  regs :: registers
  mem :: memory
  tr :: trace

definition arm_current_mode_has_spsr :: "arm_core \<Rightarrow> bool" where
  "arm_current_mode_has_spsr p = current_mode_has_spsr (regs p)"

definition arm_in_a_privileged_mode :: "arm_core \<Rightarrow> bool" where
  "arm_in_a_privileged_mode p = in_a_privileged_mode (regs p)"

definition arm_get_cycle_count :: "arm_core \<Rightarrow> u32" where
  "arm_get_cycle_count p = cycle_count p"

text \<open>The read of the program counter adds 4 and clears bit 1.\<close>

definition pc_adjust :: "u8 \<Rightarrow> u32 \<Rightarrow> u32" where
  "pc_adjust rg value = (if rg = 15 then (value + 4) AND 0xFFFFFFFD else value)"

definition arm_read_register :: "u8 \<Rightarrow> arm_core \<Rightarrow> (u32 \<times> arm_core) option" where
  "arm_read_register rg p = do {
     value \<leftarrow> read_register (regs p) rg;
     let value = pc_adjust rg value;
     t \<leftarrow> trace_register (cycle_count p) READ rg (get_mode (regs p)) value (tr p);
     Some (value, p\<lparr>tr := t\<rparr>) }"

definition arm_read_usr_register :: "u8 \<Rightarrow> arm_core \<Rightarrow> (u32 \<times> arm_core) option" where
  "arm_read_usr_register rg p = do {
     value \<leftarrow> read_usr_register (regs p) rg;
     let value = pc_adjust rg value;
     t \<leftarrow> trace_register (cycle_count p) READ rg USR value (tr p);
     Some (value, p\<lparr>tr := t\<rparr>) }"

definition arm_read_cpsr :: "arm_core \<Rightarrow> (u32 \<times> arm_core) option" where
  "arm_read_cpsr p = do {
     let value = read_cpsr (regs p);
     t \<leftarrow> trace_register (cycle_count p) READ CPSR 0 value (tr p);
     Some (value, p\<lparr>tr := t\<rparr>) }"

definition arm_read_spsr :: "arm_core \<Rightarrow> (u32 \<times> arm_core) option" where
  "arm_read_spsr p = do {
     value \<leftarrow> read_spsr (regs p);
     t \<leftarrow> trace_register (cycle_count p) READ SPSR (get_mode (regs p)) value (tr p);
     Some (value, p\<lparr>tr := t\<rparr>) }"

definition arm_write_register :: "u8 \<Rightarrow> u32 \<Rightarrow> arm_core \<Rightarrow> arm_core option" where
  "arm_write_register rg value p = do {
     r \<leftarrow> write_register (regs p) rg value;
     t \<leftarrow> trace_register (cycle_count p) WRITE rg (get_mode r) value (tr p);
     Some (p\<lparr>regs := r, tr := t\<rparr>) }"

definition arm_write_usr_register :: "u8 \<Rightarrow> u32 \<Rightarrow> arm_core \<Rightarrow> arm_core option" where
  "arm_write_usr_register rg value p = do {
     r \<leftarrow> write_usr_register (regs p) rg value;
     t \<leftarrow> trace_register (cycle_count p) WRITE rg USR value (tr p);
     Some (p\<lparr>regs := r, tr := t\<rparr>) }"

definition arm_write_cpsr :: "u32 \<Rightarrow> arm_core \<Rightarrow> arm_core option" where
  "arm_write_cpsr value p = do {
     r \<leftarrow> write_cpsr (regs p) value;
     t \<leftarrow> trace_register (cycle_count p) WRITE CPSR 0 value (tr p);
     Some (p\<lparr>regs := r, tr := t\<rparr>) }"

definition arm_write_spsr :: "u32 \<Rightarrow> arm_core \<Rightarrow> arm_core option" where
  "arm_write_spsr value p = do {
     r \<leftarrow> write_spsr (regs p) value;
     t \<leftarrow> trace_register (cycle_count p) WRITE SPSR (get_mode r) value (tr p);
     Some (p\<lparr>regs := r, tr := t\<rparr>) }"

text \<open>
  A memory access takes the content of the variable its pointer designates and returns it with
  the status; a failing read leaves it alone, and the trace prints it all the same.
\<close>

definition arm_fetch :: "u32 \<Rightarrow> arm_core \<Rightarrow> (int \<times> u32 \<times> arm_core) option" where
  "arm_fetch value p = do {
     let p = p\<lparr>cycle_count := cycle_count p + 1\<rparr>;
     (pc, p) \<leftarrow> arm_read_register 15 p;
     let address = pc - 4;
     (result, value) \<leftarrow> memory_read_word (mem p) address value;
     t \<leftarrow> trace_memory (cycle_count p) READ 4 OPCODE_FETCH address value (tr p);
     p \<leftarrow> arm_write_register 15 (address + 4) (p\<lparr>tr := t\<rparr>);
     Some (result, value, p) }"

definition arm_read_byte :: "u32 \<Rightarrow> u8 \<Rightarrow> arm_core \<Rightarrow> (int \<times> u8 \<times> arm_core) option" where
  "arm_read_byte address value p = do {
     (result, value) \<leftarrow> memory_read_byte (mem p) address value;
     t \<leftarrow> trace_memory (cycle_count p) READ 1 OTHER_ACCESS address (ucast value) (tr p);
     Some (result, value, p\<lparr>tr := t\<rparr>) }"

definition arm_read_half :: "u32 \<Rightarrow> u16 \<Rightarrow> arm_core \<Rightarrow> (int \<times> u16 \<times> arm_core) option" where
  "arm_read_half address value p = do {
     (result, value) \<leftarrow> memory_read_half (mem p) address value;
     t \<leftarrow> trace_memory (cycle_count p) READ 2 OTHER_ACCESS address (ucast value) (tr p);
     Some (result, value, p\<lparr>tr := t\<rparr>) }"

definition arm_read_word :: "u32 \<Rightarrow> u32 \<Rightarrow> arm_core \<Rightarrow> (int \<times> u32 \<times> arm_core) option" where
  "arm_read_word address value p = do {
     (result, value) \<leftarrow> memory_read_word (mem p) address value;
     t \<leftarrow> trace_memory (cycle_count p) READ 4 OTHER_ACCESS address value (tr p);
     Some (result, value, p\<lparr>tr := t\<rparr>) }"

definition arm_write_byte :: "u32 \<Rightarrow> u8 \<Rightarrow> arm_core \<Rightarrow> (int \<times> arm_core) option" where
  "arm_write_byte address value p = do {
     (result, m) \<leftarrow> memory_write_byte (mem p) address value;
     t \<leftarrow> trace_memory (cycle_count p) WRITE 1 OTHER_ACCESS address (ucast value) (tr p);
     Some (result, p\<lparr>mem := m, tr := t\<rparr>) }"

definition arm_write_half :: "u32 \<Rightarrow> u16 \<Rightarrow> arm_core \<Rightarrow> (int \<times> arm_core) option" where
  "arm_write_half address value p = do {
     (result, m) \<leftarrow> memory_write_half (mem p) address value;
     t \<leftarrow> trace_memory (cycle_count p) WRITE 2 OTHER_ACCESS address (ucast value) (tr p);
     Some (result, p\<lparr>mem := m, tr := t\<rparr>) }"

definition arm_write_word :: "u32 \<Rightarrow> u32 \<Rightarrow> arm_core \<Rightarrow> (int \<times> arm_core) option" where
  "arm_write_word address value p = do {
     (result, m) \<leftarrow> memory_write_word (mem p) address value;
     t \<leftarrow> trace_memory (cycle_count p) WRITE 4 OTHER_ACCESS address value (tr p);
     Some (result, p\<lparr>mem := m, tr := t\<rparr>) }"


section \<open>Well-formed states\<close>

definition wf_core :: "arm_core \<Rightarrow> bool" where
  "wf_core p \<longleftrightarrow> wf_registers (regs p) \<and> wf_memory (mem p)"

definition core_mode :: "arm_core \<Rightarrow> u8" where
  "core_mode p = get_mode (regs p)"

definition cpsr :: "arm_core \<Rightarrow> u32" where
  "cpsr p = read_cpsr (regs p)"

text \<open>A state in which every access to a register of the mode is defined.\<close>

definition ok_core :: "arm_core \<Rightarrow> bool" where
  "ok_core p \<longleftrightarrow> wf_core p \<and> valid_mode (core_mode p)"

lemma core_mode_less [simp]: "core_mode p < 32"
  by (simp add: core_mode_def get_mode_eq mode_of_less)

lemma core_mode_cpsr: "core_mode p = mode_of (cpsr p)"
  by (simp add: core_mode_def cpsr_def get_mode_eq)

section \<open>The effect of each access\<close>

text \<open>
  Each access of a state with a valid mode is an equation \<open>Some (value, state)\<close>, with the state
  written with the functions below, which the simplifier knows how to look through.
\<close>

definition traced_reg :: "u8 \<Rightarrow> u8 \<Rightarrow> u8 \<Rightarrow> u32 \<Rightarrow> arm_core \<Rightarrow> arm_core" where
  "traced_reg type rg mode value p = p\<lparr>tr := log_reg (cycle_count p) type rg mode value (tr p)\<rparr>"

definition traced_mem :: "u8 \<Rightarrow> u8 \<Rightarrow> u8 \<Rightarrow> u32 \<Rightarrow> u32 \<Rightarrow> arm_core \<Rightarrow> arm_core" where
  "traced_mem type sz cause address value p =
     p\<lparr>tr := log_mem (cycle_count p) type sz cause address value (tr p)\<rparr>"

definition reg_val :: "arm_core \<Rightarrow> u8 \<Rightarrow> u32" where
  "reg_val p rg = reg_data (regs p) ! unat (getRegister (regs p) rg)"

definition set_physical :: "u8 \<Rightarrow> u32 \<Rightarrow> arm_core \<Rightarrow> arm_core" where
  "set_physical i v p = p\<lparr>regs := (regs p)\<lparr>reg_data := (reg_data (regs p))[unat i := v]\<rparr>\<rparr>"

definition set_reg :: "u8 \<Rightarrow> u32 \<Rightarrow> arm_core \<Rightarrow> arm_core" where
  "set_reg rg v p = set_physical (getRegister_in (core_mode p) rg) v p"

definition set_cpsr :: "u32 \<Rightarrow> arm_core \<Rightarrow> arm_core" where
  "set_cpsr v p = set_physical CPSR v p"

definition set_spsr :: "u32 \<Rightarrow> arm_core \<Rightarrow> arm_core" where
  "set_spsr v p =
     (if core_mode p = USR \<or> core_mode p = SYS then p
      else set_physical (getRegister_in (core_mode p) SPSR) v p)"

definition spsr_val :: "arm_core \<Rightarrow> u32" where
  "spsr_val p =
     (if core_mode p = USR \<or> core_mode p = SYS then - 1
      else reg_data (regs p) ! unat (getRegister_in (core_mode p) SPSR))"

lemma traced_fields [simp]:
  "cycle_count (traced_reg ty rg md v p) = cycle_count p" "regs (traced_reg ty rg md v p) = regs p"
  "mem (traced_reg ty rg md v p) = mem p"
  "cycle_count (traced_mem ty sz ca a v p) = cycle_count p" "regs (traced_mem ty sz ca a v p) = regs p"
  "mem (traced_mem ty sz ca a v p) = mem p"
  by (simp_all add: traced_reg_def traced_mem_def)

lemma set_fields_core [simp]:
  "cycle_count (set_physical i v p) = cycle_count p" "mem (set_physical i v p) = mem p"
  "cycle_count (set_reg rg v p) = cycle_count p" "mem (set_reg rg v p) = mem p"
  "cycle_count (set_cpsr v p) = cycle_count p" "mem (set_cpsr v p) = mem p"
  "cycle_count (set_spsr v p) = cycle_count p" "mem (set_spsr v p) = mem p"
  by (simp_all add: set_physical_def set_reg_def set_cpsr_def set_spsr_def)

lemma traced_views [simp]:
  "core_mode (traced_reg ty rg md v p) = core_mode p" "core_mode (traced_mem ty sz ca a v p) = core_mode p"
  "cpsr (traced_reg ty rg md v p) = cpsr p" "cpsr (traced_mem ty sz ca a v p) = cpsr p"
  "reg_val (traced_reg ty rg md v p) = reg_val p" "reg_val (traced_mem ty sz ca a v p) = reg_val p"
  "spsr_val (traced_reg ty rg md v p) = spsr_val p" "spsr_val (traced_mem ty sz ca a v p) = spsr_val p"
  "wf_core (traced_reg ty rg md v p) = wf_core p" "wf_core (traced_mem ty sz ca a v p) = wf_core p"
  "ok_core (traced_reg ty rg md v p) = ok_core p" "ok_core (traced_mem ty sz ca a v p) = ok_core p"
  by (simp_all add: core_mode_def cpsr_def reg_val_def spsr_val_def wf_core_def ok_core_def fun_eq_iff)

lemma mem_update_views [simp]:
  "core_mode (p\<lparr>mem := m\<rparr>) = core_mode p" "cpsr (p\<lparr>mem := m\<rparr>) = cpsr p"
  "reg_val (p\<lparr>mem := m\<rparr>) = reg_val p" "spsr_val (p\<lparr>mem := m\<rparr>) = spsr_val p"
  "core_mode (p\<lparr>cycle_count := c\<rparr>) = core_mode p" "cpsr (p\<lparr>cycle_count := c\<rparr>) = cpsr p"
  "reg_val (p\<lparr>cycle_count := c\<rparr>) = reg_val p" "spsr_val (p\<lparr>cycle_count := c\<rparr>) = spsr_val p"
  "wf_core (p\<lparr>cycle_count := c\<rparr>) = wf_core p" "ok_core (p\<lparr>cycle_count := c\<rparr>) = ok_core p"
  by (simp_all add: core_mode_def cpsr_def reg_val_def spsr_val_def wf_core_def ok_core_def fun_eq_iff)

lemma wf_core_set_physical [simp]: "wf_core (set_physical i v p) = wf_core p"
  by (simp add: wf_core_def set_physical_def)

lemma wf_core_set [simp]:
  "wf_core (set_reg rg v p) = wf_core p" "wf_core (set_cpsr v p) = wf_core p"
  "wf_core (set_spsr v p) = wf_core p"
  by (simp_all add: set_reg_def set_cpsr_def set_spsr_def)

lemma cpsr_set_physical:
  "wf_core p \<Longrightarrow> cpsr (set_physical i v p) = (if unat i = 16 then v else cpsr p)"
  by (simp add: cpsr_def set_physical_def wf_core_def)

lemma cpsr_set_cpsr [simp]: "wf_core p \<Longrightarrow> cpsr (set_cpsr v p) = v"
  by (simp add: set_cpsr_def cpsr_set_physical)

lemma core_mode_set_cpsr [simp]: "wf_core p \<Longrightarrow> core_mode (set_cpsr v p) = mode_of v"
  by (simp add: core_mode_cpsr)

lemma cpsr_set_reg [simp]: "ok_core p \<Longrightarrow> rg < 16 \<Longrightarrow> cpsr (set_reg rg v p) = cpsr p"
  using getRegister_in_range [of "core_mode p" rg]
  by (simp add: set_reg_def cpsr_set_physical ok_core_def)

lemma core_mode_set_reg [simp]: "ok_core p \<Longrightarrow> rg < 16 \<Longrightarrow> core_mode (set_reg rg v p) = core_mode p"
  by (simp add: core_mode_cpsr)

lemma ok_core_set_reg [simp]: "ok_core p \<Longrightarrow> rg < 16 \<Longrightarrow> ok_core (set_reg rg v p)"
  by (simp add: ok_core_def)

lemma cpsr_set_spsr [simp]: "ok_core p \<Longrightarrow> cpsr (set_spsr v p) = cpsr p"
  using getRegister_in_SPSR_range [of "core_mode p"]
  by (auto simp: set_spsr_def cpsr_set_physical ok_core_def)

lemma core_mode_set_spsr [simp]: "ok_core p \<Longrightarrow> core_mode (set_spsr v p) = core_mode p"
  by (simp add: core_mode_cpsr)

lemma ok_core_set_spsr [simp]: "ok_core p \<Longrightarrow> ok_core (set_spsr v p)"
  by (simp add: ok_core_def)

lemma ok_core_set_cpsr [simp]: "wf_core p \<Longrightarrow> ok_core (set_cpsr v p) = valid_mode (mode_of v)"
  by (simp add: ok_core_def)

lemma ok_coreD [simp]: "ok_core p \<Longrightarrow> wf_core p" "ok_core p \<Longrightarrow> valid_mode (core_mode p)"
  by (simp_all add: ok_core_def)

lemma wf_core_mem: "wf_core p \<Longrightarrow> wf_memory (mem p)"
  by (simp add: wf_core_def)

lemma ok_core_mem_update: "ok_core p \<Longrightarrow> wf_memory m \<Longrightarrow> ok_core (p\<lparr>mem := m\<rparr>)"
  by (simp add: ok_core_def wf_core_def del: ok_coreD)

lemma mode_of_cpsr [simp]: "mode_of (cpsr p) = core_mode p"
  by (simp add: core_mode_cpsr)

lemma reg_val_set_physical:
  "wf_core p \<Longrightarrow> core_mode (set_physical i v p) = core_mode p \<Longrightarrow>
   unat i < 38 \<Longrightarrow> reg_val (set_physical i v p) rg =
     (if getRegister_in (core_mode p) rg = i then v else reg_val p rg)"
  unfolding core_mode_def
  by (simp add: reg_val_def getRegister_def) (simp add: set_physical_def wf_core_def wf_registers_def nth_list_update
      flip: word_unat_eq_iff)

lemma reg_val_set_reg [simp]:
  assumes "ok_core p" "rg < 16" "rg' < 16"
  shows "reg_val (set_reg rg v p) rg' = (if rg' = rg then v else reg_val p rg')"
  using assms getRegister_in_range [of "core_mode p" rg] core_mode_set_reg [of p rg v]
  by (auto simp: set_reg_def reg_val_set_physical getRegister_in_eq_iff)

lemma reg_val_set_cpsr [simp]:
  assumes "ok_core p" "rg < 16" "mode_of v = core_mode p"
  shows "reg_val (set_cpsr v p) rg = reg_val p rg"
proof -
  have "core_mode (set_physical CPSR v p) = core_mode p"
    using assms core_mode_set_cpsr [of p v] by (simp add: set_cpsr_def)
  moreover have "getRegister_in (core_mode p) rg \<noteq> CPSR"
    using getRegister_in_range [of "core_mode p" rg] assms by auto
  ultimately show ?thesis using assms by (simp add: set_cpsr_def reg_val_set_physical)
qed

lemma getRegister_in_15 [simp]: "getRegister_in m 15 = 15"
  by (simp add: getRegister_in_def)

lemma reg_val_15: "reg_val p 15 = reg_data (regs p) ! 15"
  by (simp add: reg_val_def getRegister_def)

lemma reg_val_15_set_cpsr [simp]: "reg_val (set_cpsr v p) 15 = reg_val p 15"
  by (simp add: reg_val_15 set_cpsr_def set_physical_def)

lemma reg_val_set_spsr [simp]:
  assumes "ok_core p" "rg < 16"
  shows "reg_val (set_spsr v p) rg = reg_val p rg"
proof (cases "core_mode p = USR \<or> core_mode p = SYS")
  case False
  let ?i = "getRegister_in (core_mode p) SPSR"
  have i: "unat ?i < 38" "32 < unat ?i"
    using False assms(1) getRegister_in_SPSR_range [of "core_mode p"] by auto
  have "core_mode (set_physical ?i v p) = core_mode p"
    using core_mode_set_spsr [OF assms(1), of v] False by (simp add: set_spsr_def)
  moreover have "getRegister_in (core_mode p) rg \<noteq> ?i"
    using getRegister_in_range [of "core_mode p" rg] assms i by auto
  ultimately show ?thesis using False assms i by (simp add: set_spsr_def reg_val_set_physical)
qed (auto simp: set_spsr_def)

lemma spsr_val_set_spsr [simp]:
  assumes "ok_core p" "core_mode p \<noteq> USR" "core_mode p \<noteq> SYS"
  shows "spsr_val (set_spsr v p) = v"
proof -
  have "unat (getRegister_in (core_mode p) SPSR) < 38"
    using assms getRegister_in_SPSR_range [of "core_mode p"] by auto
  then show ?thesis
    using assms core_mode_set_spsr [OF assms(1), of v]
    by (simp add: spsr_val_def)
      (use ok_coreD(1) [OF assms(1)] in \<open>simp add: set_spsr_def set_physical_def wf_core_def wf_registers_def\<close>)
qed

lemma spsr_val_set_reg [simp]:
  assumes "ok_core p" "rg < 16"
  shows "spsr_val (set_reg rg v p) = spsr_val p"
proof (cases "core_mode p = USR \<or> core_mode p = SYS")
  case False
  have "unat (getRegister_in (core_mode p) rg) \<noteq> unat (getRegister_in (core_mode p) SPSR)"
    using False assms getRegister_in_SPSR_range [of "core_mode p"] getRegister_in_range [of "core_mode p" rg]
    by auto
  with False assms show ?thesis
    by (simp add: spsr_val_def) (simp add: set_reg_def set_physical_def)
qed (use assms in \<open>auto simp: spsr_val_def\<close>)

section \<open>Equations for the accesses\<close>

lemma reg_le_17 [simp]: "rg < 16 \<Longrightarrow> rg \<le> (17 :: u8)"
  by (simp add: word_less_nat_alt word_le_nat_alt)

lemma core_mode_fold: "get_mode (regs p) = core_mode p"
  by (simp add: core_mode_def)

lemma arm_read_register_eq:
  assumes "ok_core p" "rg < 16"
  shows "arm_read_register rg p = Some (pc_adjust rg (reg_val p rg),
    traced_reg READ rg (core_mode p) (pc_adjust rg (reg_val p rg)) p)"
proof -
  have "read_register (regs p) rg = Some (reg_val p rg)"
    using assms by (simp add: read_register_eq ok_core_def wf_core_def core_mode_def reg_val_def)
  then show ?thesis
    using assms by (simp add: arm_read_register_def core_mode_fold trace_register_log traced_reg_def Let_def)
qed

lemma arm_write_register_eq:
  assumes "ok_core p" "rg < 16"
  shows "arm_write_register rg v p = Some (traced_reg WRITE rg (core_mode p) v (set_reg rg v p))"
proof -
  have "write_register (regs p) rg v = Some (regs (set_reg rg v p))"
    using assms by (simp add: write_register_eq ok_core_def wf_core_def core_mode_def set_reg_def
        set_physical_def getRegister_def)
  moreover have "get_mode (regs (set_reg rg v p)) = core_mode p"
    using assms by (simp add: core_mode_fold)
  ultimately show ?thesis
    using assms by (simp add: arm_write_register_def trace_register_log traced_reg_def Let_def)
      (simp add: set_reg_def set_physical_def)
qed

lemma arm_read_cpsr_eq: "arm_read_cpsr p = Some (cpsr p, traced_reg READ CPSR 0 (cpsr p) p)"
  by (simp add: arm_read_cpsr_def cpsr_def trace_register_log traced_reg_def CPSR_def Let_def)

lemma arm_write_cpsr_eq:
  "wf_core p \<Longrightarrow> arm_write_cpsr v p = Some (traced_reg WRITE CPSR 0 v (set_cpsr v p))"
  by (simp add: arm_write_cpsr_def write_cpsr_eq wf_core_def trace_register_log traced_reg_def
      set_cpsr_def set_physical_def) (simp add: CPSR_def trace_register_log)

lemma arm_read_spsr_eq:
  assumes "ok_core p"
  shows "arm_read_spsr p = Some (spsr_val p, traced_reg READ SPSR (core_mode p) (spsr_val p) p)"
proof -
  have "read_spsr (regs p) = Some (spsr_val p)"
    using assms getRegister_in_SPSR_range [of "core_mode p"]
    by (auto simp: read_spsr_def current_mode_has_spsr_def spsr_val_def core_mode_fold ok_core_def
        wf_core_def wf_registers_def getRegister_def)
  then show ?thesis
    by (simp add: arm_read_spsr_def core_mode_fold trace_register_log traced_reg_def Let_def SPSR_def)
qed

lemma arm_write_spsr_eq:
  assumes "ok_core p"
  shows "arm_write_spsr v p = Some (traced_reg WRITE SPSR (core_mode p) v (set_spsr v p))"
proof -
  have "write_spsr (regs p) v = Some (regs (set_spsr v p))"
    using assms getRegister_in_SPSR_range [of "core_mode p"]
    by (auto simp: write_spsr_def current_mode_has_spsr_def set_spsr_def core_mode_fold ok_core_def
        wf_core_def masked_write_eq getRegister_def set_physical_def)
  moreover have "get_mode (regs (set_spsr v p)) = core_mode p"
    using assms by (simp add: core_mode_fold)
  ultimately show ?thesis
    by (simp add: arm_write_spsr_def trace_register_log traced_reg_def Let_def SPSR_def)
      (simp add: set_spsr_def set_physical_def)
qed

lemma arm_current_mode_has_spsr_eq:
  "arm_current_mode_has_spsr p \<longleftrightarrow> core_mode p \<noteq> USR \<and> core_mode p \<noteq> SYS"
  by (simp add: arm_current_mode_has_spsr_def current_mode_has_spsr_def core_mode_def)

text \<open>
  \<^verbatim>\<open>write_usr_register\<close> writes only in user mode, so in every other mode the program counter is
  not changed by it.
\<close>

lemma arm_write_usr_register_eq:
  assumes "wf_core p" "rg < 16"
  shows "arm_write_usr_register rg v p =
    Some (traced_reg WRITE rg USR v (if core_mode p = USR then set_physical rg v p else p))"
proof -
  have "write_usr_register (regs p) rg v =
      Some (regs (if core_mode p = USR then set_physical rg v p else p))"
    using assms by (simp add: write_usr_register_def core_mode_fold masked_write_eq wf_core_def
        set_physical_def word_less_nat_alt)
  then show ?thesis
    using assms by (simp add: arm_write_usr_register_def trace_register_log traced_reg_def Let_def USR_def)
      (simp add: set_physical_def)
qed

lemma arm_read_word_eq:
  assumes "wf_core p"
  shows "arm_read_word a v p =
    (let (st, w) = (if ok_word (mem p) a then (SUCCESS, word_at (mem p) (unat a)) else (FAILURE, v))
     in Some (st, w, traced_mem READ 4 OTHER_ACCESS a w p))"
  using assms by (simp add: arm_read_word_def memory_read_word_eq ok_word_def trace_memory_log
      wf_core_def traced_mem_def)

lemma arm_read_half_eq:
  assumes "wf_core p"
  shows "arm_read_half a v p =
    (let (st, w) = (if ok_half (mem p) a then (SUCCESS, half_at (mem p) (unat a)) else (FAILURE, v))
     in Some (st, w, traced_mem READ 2 OTHER_ACCESS a (ucast w) p))"
  using assms by (simp add: arm_read_half_def memory_read_half_eq ok_half_def trace_memory_log
      wf_core_def traced_mem_def)

lemma arm_read_byte_eq:
  assumes "wf_core p"
  shows "arm_read_byte a v p =
    (let (st, w) = (if in_memory (mem p) a then (SUCCESS, byte_at (mem p) (unat a)) else (FAILURE, v))
     in Some (st, w, traced_mem READ 1 OTHER_ACCESS a (ucast w) p))"
  using assms by (simp add: arm_read_byte_def memory_read_byte_eq trace_memory_log
      wf_core_def traced_mem_def)

lemma arm_write_word_eq:
  assumes "wf_core p"
  shows "arm_write_word a v p =
    (let (st, m) = (if ok_word (mem p) a then (SUCCESS, set_word (mem p) (unat a) v) else (FAILURE, mem p))
     in Some (st, traced_mem WRITE 4 OTHER_ACCESS a v (p\<lparr>mem := m\<rparr>)))"
  using assms by (simp add: arm_write_word_def memory_write_word_eq ok_word_def trace_memory_log
      wf_core_def traced_mem_def)

lemma arm_write_half_eq:
  assumes "wf_core p"
  shows "arm_write_half a v p =
    (let (st, m) = (if ok_half (mem p) a then (SUCCESS, set_half (mem p) (unat a) v) else (FAILURE, mem p))
     in Some (st, traced_mem WRITE 2 OTHER_ACCESS a (ucast v) (p\<lparr>mem := m\<rparr>)))"
  using assms by (simp add: arm_write_half_def memory_write_half_eq ok_half_def trace_memory_log
      wf_core_def traced_mem_def)

lemma arm_write_byte_eq:
  assumes "wf_core p"
  shows "arm_write_byte a v p =
    (let (st, m) = (if in_memory (mem p) a then (SUCCESS, set_byte (mem p) (unat a) v) else (FAILURE, mem p))
     in Some (st, traced_mem WRITE 1 OTHER_ACCESS a (ucast v) (p\<lparr>mem := m\<rparr>)))"
  using assms by (simp add: arm_write_byte_def memory_write_byte_eq trace_memory_log
      wf_core_def traced_mem_def)

lemma wf_core_set_mem [simp]:
  "wf_core (p\<lparr>mem := set_word (mem p) a w\<rparr>) = wf_core p" "wf_core (p\<lparr>mem := set_half (mem p) a h\<rparr>) = wf_core p"
  "wf_core (p\<lparr>mem := set_byte (mem p) a b\<rparr>) = wf_core p"
  by (simp_all add: wf_core_def)

lemmas core_eqs = arm_read_register_eq arm_write_register_eq arm_read_cpsr_eq arm_write_cpsr_eq
  arm_read_spsr_eq arm_write_spsr_eq arm_write_usr_register_eq arm_read_word_eq arm_read_half_eq
  arm_read_byte_eq arm_write_word_eq arm_write_half_eq arm_write_byte_eq

text \<open>
  The fetch: the instruction at \<open>pc\<close> is read, \<open>pc\<close> moves 4 on, and the cycle is counted. The
  adjusted read clears bit 1, so the address is \<open>pc\<close> when \<open>pc\<close> is a multiple of 4.
\<close>

definition fetch_address :: "arm_core \<Rightarrow> u32" where
  "fetch_address p = pc_adjust 15 (reg_val p 15) - 4"

lemma pc_mask:
  fixes y :: u32
  assumes "take_bit 2 y = 0"
  shows "y AND 0xFFFFFFFD = y"
proof -
  have "(0xFFFFFFFD :: u32) = NOT (push_bit 1 1)" by code_simp
  then have "y AND 0xFFFFFFFD = unset_bit 1 y" by (simp only: unset_bit_eq_and_not)
  moreover have "\<not> bit y 1" using assms bit_take_bit_iff [of 2 y 1] by simp
  then have "unset_bit 1 y = y" by (intro bit_word_eqI) (auto simp: bit_unset_bit_iff)
  ultimately show ?thesis by simp
qed

definition fetch_result :: "u32 \<Rightarrow> arm_core \<Rightarrow> int \<times> u32 \<times> arm_core" where
  "fetch_result v p =
    (let a = fetch_address p;
         (st, w) = (if ok_word (mem p) a then (SUCCESS, word_at (mem p) (unat a)) else (FAILURE, v));
         q = traced_reg READ 15 (core_mode p) (a + 4) (p\<lparr>cycle_count := cycle_count p + 1\<rparr>);
         q = traced_mem READ 4 OPCODE_FETCH a w q
     in (st, w, traced_reg WRITE 15 (core_mode p) (a + 4) (set_reg 15 (a + 4) q)))"

lemma arm_fetch_eq:
  assumes "ok_core p"
  shows "arm_fetch v p = Some (fetch_result v p)"
proof -
  define q where "q = p\<lparr>cycle_count := cycle_count p + 1\<rparr>"
  define q' where "q' = traced_reg READ 15 (core_mode p) (pc_adjust 15 (reg_val p 15)) q"
  define a where "a = fetch_address p"
  define sw where "sw = (if ok_word (mem p) a then (SUCCESS, word_at (mem p) (unat a)) else (FAILURE, v))"
  have "ok_core q" "core_mode q = core_mode p" "reg_val q = reg_val p" "mem q = mem p"
    using assms by (simp_all add: q_def)
  then have rd: "arm_read_register 15 q = Some (pc_adjust 15 (reg_val p 15), q')"
    and q': "ok_core q'" "core_mode q' = core_mode p" "mem q' = mem p"
    by (simp_all add: arm_read_register_eq q'_def)
  have rw: "memory_read_word (mem p) a v = Some sw"
    using assms by (simp add: memory_read_word_eq sw_def ok_word_def ok_core_def wf_core_def)
  have tm: "trace_memory (cycle_count q') READ 4 OPCODE_FETCH a w (tr q') =
      Some (tr (traced_mem READ 4 OPCODE_FETCH a w q'))" for w
    by (simp add: trace_memory_log traced_mem_def)
  have fold: "q'\<lparr>tr := tr (traced_mem READ 4 OPCODE_FETCH a w q')\<rparr> = traced_mem READ 4 OPCODE_FETCH a w q'" for w
    by (simp add: traced_mem_def)
  have a: "pc_adjust 15 (reg_val p 15) = a + 4" by (simp add: a_def fetch_address_def)
  have "arm_fetch v p = Some (fst sw, snd sw, traced_reg WRITE 15 (core_mode p) (a + 4)
      (set_reg 15 (a + 4) (traced_mem READ 4 OPCODE_FETCH a (snd sw) q')))"
    using q' rw by (cases sw) (simp add: arm_fetch_def Let_def rd a tm fold arm_write_register_eq flip: q_def)
  also have "\<dots> = Some (fetch_result v p)"
    by (simp add: fetch_result_def Let_def q_def q'_def sw_def a flip: a_def)
  finally show ?thesis .
qed

lemma fetch_address_aligned:
  assumes "reg_val p 15 mod 4 = 0"
  shows "fetch_address p = reg_val p 15"
proof -
  have "unat (reg_val p 15 + 4) mod 4 = (unat (reg_val p 15) + 4) mod 4"
    by (simp add: unat_word_ariths mod_mod_cancel)
  also have "\<dots> = 0" using assms by (simp add: mod_4_iff)
  finally have "take_bit 2 (reg_val p 15 + 4) = 0" by (simp add: take_bit_eq_mod mod_4_iff)
  then show ?thesis by (simp add: fetch_address_def pc_adjust_def pc_mask)
qed

text \<open>States that differ in their trace only: what reads leave behind them.\<close>

definition only_traced :: "arm_core \<Rightarrow> arm_core \<Rightarrow> bool" where
  "only_traced p q \<longleftrightarrow> cycle_count q = cycle_count p \<and> regs q = regs p \<and> mem q = mem p"

lemma only_traced_refl [simp]: "only_traced p p"
  by (simp add: only_traced_def)

lemma only_traced_traced [simp]:
  "only_traced p (traced_reg ty rg md v q) = only_traced p q"
  "only_traced p (traced_mem ty sz ca a v q) = only_traced p q"
  by (simp_all add: only_traced_def)

lemma only_traced_trans: "only_traced p q \<Longrightarrow> only_traced q r \<Longrightarrow> only_traced p r"
  by (simp add: only_traced_def)

lemma only_tracedD:
  assumes "only_traced p q"
  shows "reg_val q = reg_val p" "cpsr q = cpsr p" "spsr_val q = spsr_val p" "core_mode q = core_mode p"
    "mem q = mem p" "cycle_count q = cycle_count p" "ok_core q = ok_core p" "wf_core q = wf_core p"
    "regs q = regs p"
  using assms by (simp_all add: only_traced_def reg_val_def cpsr_def spsr_val_def core_mode_def
      wf_core_def fun_eq_iff del: ok_coreD) (simp add: ok_core_def wf_core_def core_mode_def)

lemma only_traced_sets:
  assumes "only_traced p q"
  shows "only_traced (set_reg rg v p) (set_reg rg v q)" "only_traced (set_cpsr v p) (set_cpsr v q)"
    "only_traced (set_spsr v p) (set_spsr v q)"
  using assms only_tracedD [OF assms]
  by (simp_all add: set_reg_def set_cpsr_def set_spsr_def set_physical_def only_traced_def)

text \<open>The value an instruction reads from a register: for the program counter, its address plus 8.\<close>

definition seen :: "arm_core \<Rightarrow> u8 \<Rightarrow> u32" where
  "seen p rg = pc_adjust rg (reg_val p rg)"

lemma seen_only_traced: "only_traced p q \<Longrightarrow> seen q = seen p"
  by (simp add: seen_def only_tracedD fun_eq_iff)

text \<open>The registers that keep their values from one state to another.\<close>

definition same_regs_but :: "u8 set \<Rightarrow> arm_core \<Rightarrow> arm_core \<Rightarrow> bool" where
  "same_regs_but rs p q \<longleftrightarrow> (\<forall>rg < 16. rg \<notin> rs \<longrightarrow> reg_val q rg = reg_val p rg)"

section \<open>What every access keeps\<close>

text \<open>
  Whatever the mode, no access changes the size of the register file, the shape of the memory or
  the setup of the trace. \<open>evolves\<close> is that relation; the rules below carry it through a
  computation from a fixed first state \<open>s\<close>.
\<close>

definition evolves :: "arm_core \<Rightarrow> arm_core \<Rightarrow> bool" where
  "evolves p q \<longleftrightarrow> wf_registers (regs q) = wf_registers (regs p) \<and>
     same_shape (mem p) (mem q) \<and> same_setup (tr p) (tr q)"

lemma evolves_refl [simp]: "evolves p p"
  by (simp add: evolves_def)

lemma evolves_trans: "evolves p q \<Longrightarrow> evolves q r \<Longrightarrow> evolves p r"
  by (auto simp: evolves_def intro: same_shape_trans same_setup_trans)

lemma evolves_wf: "evolves p q \<Longrightarrow> wf_core q = wf_core p"
  by (auto simp: evolves_def wf_core_def dest: same_shape_wf)

lemma write_wf:
  "write_register r rg v = Some r' \<Longrightarrow> wf_registers r' = wf_registers r"
  "write_usr_register r rg v = Some r' \<Longrightarrow> wf_registers r' = wf_registers r"
  "write_cpsr r v = Some r' \<Longrightarrow> wf_registers r' = wf_registers r"
  "write_spsr r v = Some r' \<Longrightarrow> wf_registers r' = wf_registers r"
  by (auto simp: write_register_def write_usr_register_def write_cpsr_def write_spsr_def
      dest: masked_write_wf split: if_splits)

lemma evolves_accesses:
  "arm_read_register rg p = Some (v, q) \<Longrightarrow> evolves p q"
  "arm_read_usr_register rg p = Some (v, q) \<Longrightarrow> evolves p q"
  "arm_read_cpsr p = Some (v, q) \<Longrightarrow> evolves p q"
  "arm_read_spsr p = Some (v, q) \<Longrightarrow> evolves p q"
  "arm_write_register rg v p = Some q \<Longrightarrow> evolves p q"
  "arm_write_usr_register rg v p = Some q \<Longrightarrow> evolves p q"
  "arm_write_cpsr v p = Some q \<Longrightarrow> evolves p q"
  "arm_write_spsr v p = Some q \<Longrightarrow> evolves p q"
  "arm_read_byte a b p = Some (st, b', q) \<Longrightarrow> evolves p q"
  "arm_read_half a h p = Some (st, h', q) \<Longrightarrow> evolves p q"
  "arm_read_word a w p = Some (st, w', q) \<Longrightarrow> evolves p q"
  "arm_write_byte a b p = Some (st, q) \<Longrightarrow> evolves p q"
  "arm_write_half a h p = Some (st, q) \<Longrightarrow> evolves p q"
  "arm_write_word a w p = Some (st, q) \<Longrightarrow> evolves p q"
  by (auto simp: arm_read_register_def arm_read_usr_register_def arm_read_cpsr_def arm_read_spsr_def
      arm_write_register_def arm_write_usr_register_def arm_write_cpsr_def arm_write_spsr_def
      arm_read_byte_def arm_read_half_def arm_read_word_def arm_write_byte_def arm_write_half_def
      arm_write_word_def evolves_def Let_def bind_eq_Some_conv
      dest: trace_register_setup trace_memory_setup write_wf memory_write_shape)

lemma evolves_fetch: "arm_fetch v p = Some (st, w, q) \<Longrightarrow> evolves p q"
  by (auto simp: arm_fetch_def Let_def bind_eq_Some_conv dest!: evolves_accesses trace_memory_setup)
    (auto simp: evolves_def intro: same_shape_trans same_setup_trans)

section \<open>A concrete state\<close>

text \<open>
  Supervisor mode with the masks set, as after a reset, the stack pointer at 32, valid modes in
  the saved status registers and 64 bytes of big-endian memory: the input of the examples.
\<close>

definition example_core :: arm_core where
  "example_core = \<lparr>cycle_count = 0,
     regs = \<lparr>reg_data = (replicate 38 0x10)[15 := 0, 16 := 0x1D3, 23 := 32]\<rparr>,
     mem = example_memory, tr = trace_init\<rparr>"

lemma ok_example_core [simp]: "ok_core example_core"
  by code_simp

lemma example_core_values [simp]:
  "cpsr example_core = 0x1D3" "core_mode example_core = SVC" "spsr_val example_core = 0x10"
  "reg_val example_core 0 = 0x10" "reg_val example_core 1 = 0x10" "reg_val example_core 13 = 32"
  "reg_val example_core 14 = 0x10" "reg_val example_core 15 = 0" "mem example_core = example_memory"
  by code_simp+

end
