(* ===== verification/Arm_Condition.thy ===== *)
theory Arm_Condition
  imports Arm_Core
begin

text \<open>
  \<^verbatim>\<open>condition\<close> of \<^verbatim>\<open>arm_instruction.c\<close>: whether the condition field of an instruction holds in the
  current CPSR. Every handler calls it, so it comes before them. Each call reads the CPSR
  through the traced access.
\<close>

section \<open>Operation\<close>

definition condition_test :: "u8 \<Rightarrow> u32 \<Rightarrow> int" where
  "condition_test cond cpsr_value =
     (if cond = 0 then (if get_bit cpsr_value Z_bit \<noteq> 0 then 1 else 0)
      else if cond = 1 then (if get_bit cpsr_value Z_bit = 0 then 1 else 0)
      else if cond = 2 then (if get_bit cpsr_value C_bit \<noteq> 0 then 1 else 0)
      else if cond = 3 then (if get_bit cpsr_value C_bit = 0 then 1 else 0)
      else if cond = 4 then (if get_bit cpsr_value N_bit \<noteq> 0 then 1 else 0)
      else if cond = 5 then (if get_bit cpsr_value N_bit = 0 then 1 else 0)
      else if cond = 6 then (if get_bit cpsr_value V_bit \<noteq> 0 then 1 else 0)
      else if cond = 7 then (if get_bit cpsr_value V_bit = 0 then 1 else 0)
      else if cond = 8 then
        (if get_bit cpsr_value C_bit \<noteq> 0 \<and> get_bit cpsr_value Z_bit = 0 then 1 else 0)
      else if cond = 9 then
        (if get_bit cpsr_value C_bit = 0 \<or> get_bit cpsr_value Z_bit \<noteq> 0 then 1 else 0)
      else if cond = 10 then
        (if get_bit cpsr_value N_bit = get_bit cpsr_value V_bit then 1 else 0)
      else if cond = 11 then
        (if get_bit cpsr_value N_bit \<noteq> get_bit cpsr_value V_bit then 1 else 0)
      else if cond = 12 then
        (if get_bit cpsr_value N_bit = get_bit cpsr_value V_bit \<and> get_bit cpsr_value Z_bit = 0
         then 1 else 0)
      else if cond = 13 then
        (if get_bit cpsr_value N_bit \<noteq> get_bit cpsr_value V_bit \<or> get_bit cpsr_value Z_bit \<noteq> 0
         then 1 else 0)
      else if cond = 14 then 1
      else 0)"

definition condition :: "u32 \<Rightarrow> arm_core \<Rightarrow> (int \<times> arm_core) option" where
  "condition ins p = do {
     let cond = ucast (get_bits ins 31 28);
     (cpsr_value, p) \<leftarrow> arm_read_cpsr p;
     Some (condition_test cond cpsr_value, p) }"

section \<open>Specification\<close>

text \<open>
  The tables of the architecture: the three high bits of the field choose a test of the flags,
  the low bit negates it. Applied to the field 15, which is no condition, the rule gives false.
\<close>

definition flag_test :: "nat \<Rightarrow> u32 \<Rightarrow> bool" where
  "flag_test k v =
     [bit v Z_bit, bit v C_bit, bit v N_bit, bit v V_bit,
      bit v C_bit \<and> \<not> bit v Z_bit,
      bit v N_bit = bit v V_bit,
      bit v N_bit = bit v V_bit \<and> \<not> bit v Z_bit,
      True] ! k"

definition condition_holds :: "u32 \<Rightarrow> u32 \<Rightarrow> bool" where
  "condition_holds ins v \<longleftrightarrow> flag_test (unat (drop_bit 29 ins)) v \<noteq> bit ins 28"

definition cond_field :: "u32 \<Rightarrow> u8" where
  "cond_field ins = ucast (get_bits ins 31 28)"

lemma unat_cond_field: "unat (cond_field ins) = drop_bit 28 (unat ins)"
proof -
  have "drop_bit 28 (unat ins) < 16"
    using unsigned_less [of ins, where 'a = nat] by (simp add: drop_bit_eq_div less_mult_imp_div_less)
  moreover have "take_bit 32 (unat ins) = unat ins"
    using unsigned_less [of ins, where 'a = nat] by (simp add: take_bit_nat_eq_self)
  ultimately show ?thesis
    by (simp add: cond_field_def get_bits_eq unsigned_ucast_eq unsigned_take_bit_eq unsigned_drop_bit_eq
        take_bit_nat_eq_self)
qed

lemma cond_field_less: "unat (cond_field ins) < 16"
  using unsigned_less [of ins, where 'a = nat]
  by (simp add: unat_cond_field drop_bit_eq_div less_mult_imp_div_less)

lemma condition_field_parts:
  "unat (drop_bit 29 ins) = unat (cond_field ins) div 2" "bit ins 28 \<longleftrightarrow> odd (unat (cond_field ins))"
proof -
  have "unat (drop_bit 29 ins) = drop_bit 29 (unat ins)" by (simp only: unat_drop_bit_eq)
  then show "unat (drop_bit 29 ins) = unat (cond_field ins) div 2"
    by (simp add: unat_cond_field drop_bit_eq_div flip: div_mult2_eq)
  show "bit ins 28 \<longleftrightarrow> odd (unat (cond_field ins))"
    by (simp only: unat_cond_field bit_unsigned_iff flip: bit_iff_odd_drop_bit) simp
qed

lemma condition_test_cases:
  assumes "k < 16"
  shows "condition_test (of_nat k) v = of_bool (flag_test (k div 2) v \<noteq> odd k)"
proof -
  have "\<forall>k \<in> set [0..<16]. condition_test (of_nat k) v = of_bool (flag_test (k div 2) v \<noteq> odd k)"
    by (simp add: upt_rec condition_test_def flag_test_def)
  with assms show ?thesis by simp
qed

lemma condition_test_holds: "condition_test (cond_field ins) v = of_bool (condition_holds ins v)"
  using condition_test_cases [OF cond_field_less [of ins], of v]
  by (simp add: condition_holds_def condition_field_parts)

lemma condition_eq:
  "condition ins p = Some (of_bool (condition_holds ins (cpsr p)), traced_reg READ CPSR 0 (cpsr p) p)"
  by (simp add: condition_def arm_read_cpsr_eq condition_test_holds flip: cond_field_def)

text \<open>
  C15. For all sixteen condition fields and all flags the test agrees with the condition table
  of the architecture, and only the trace of the read of the status register changes.
\<close>

theorem condition_meets_tables:
  "condition ins p = Some (if condition_holds ins (cpsr p) then 1 else 0, traced_reg READ CPSR 0 (cpsr p) p)"
  by (simp add: condition_eq)

end
