(* ===== verification/Arm_Branch.thy ===== *)
theory Arm_Branch
  imports Arm_Condition
begin

text \<open>
  \<^verbatim>\<open>arm_branch_other.h\<close> and \<^verbatim>\<open>arm_branch_other.c\<close>: branches, the software interrupt and the moves
  from the status registers. An instruction ends with a status, 0 or the number of an
  exception, or ends the simulator.
\<close>

section \<open>Operations\<close>

datatype outcome = Return int | Exit int

definition branch_offset :: "u32 \<Rightarrow> u32" where
  "branch_offset ins =
     (let offset = get_bits ins 23 0;
          offset = c_shr (c_shl (NOT offset + 1) 8) 8;
          offset = (if get_bit offset 23 \<noteq> 0 then set_bits offset 29 24 0x3F
                    else set_bits offset 29 24 0)
      in c_shl offset 2)"

definition arm_branch :: "u32 \<Rightarrow> arm_core \<Rightarrow> (int \<times> arm_core) option" where
  "arm_branch ins p = do {
     (pc, p) \<leftarrow> arm_read_register 15 p;
     p \<leftarrow> (if get_bit ins 24 \<noteq> 0 then arm_write_register 14 (pc - 4) p else Some p);
     (c, p) \<leftarrow> condition ins p;
     p \<leftarrow> (if c \<noteq> 0 then arm_write_register 15 (pc - branch_offset ins) p else Some p);
     Some (0, p) }"

definition arm_coprocessor_others_swi :: "u32 \<Rightarrow> outcome" where
  "arm_coprocessor_others_swi ins =
     (if get_bit ins 24 \<noteq> 0 then
        (if ins AND 0xFFFFFF = 0x123456 then Exit 0 else Return (uint SOFTWARE_INTERRUPT))
      else Return (uint UNDEFINED_INSTRUCTION))"

definition arm_miscellaneous :: "u32 \<Rightarrow> arm_core \<Rightarrow> (int \<times> arm_core) option" where
  "arm_miscellaneous ins p =
     (if get_bit ins 21 = 0 \<and> get_bits ins 19 16 = 0xF \<and> get_bits ins 11 0 = 0 then do {
        (c, p) \<leftarrow> condition ins p;
        if c \<noteq> 0 then do {
          let rd = ucast (get_bits ins 15 12);
          (value, p) \<leftarrow> (if get_bit ins 22 = 1 then arm_read_spsr p else arm_read_cpsr p);
          p \<leftarrow> arm_write_register rd value p;
          Some (0, p)
        } else Some (uint UNDEFINED_INSTRUCTION, p)
      } else Some (uint UNDEFINED_INSTRUCTION, p))"

section \<open>The branch target\<close>

text \<open>The 24 low bits of the instruction as a signed number.\<close>

definition simm24 :: "u32 \<Rightarrow> u32" where
  "simm24 ins = (if bit ins 23 then take_bit 24 ins - 2 ^ 24 else take_bit 24 ins)"

lemma take_bit_24_uminus:
  fixes x :: u32
  defines "n \<equiv> unat (take_bit 24 x)"
  shows "unat (take_bit 24 (- x)) = (if n = 0 then 0 else 2 ^ 24 - n)"
proof -
  define q where "q = unat x div 2 ^ 24"
  have n: "n = unat x mod 2 ^ 24" by (simp only: n_def unsigned_take_bit_eq take_bit_eq_mod [of 24 "unat x"])
  then have x: "unat x = 2 ^ 24 * q + n" by (simp add: q_def)
  have less: "n < 2 ^ 24" by (simp add: n)
  have q: "q < 256"
    using unsigned_less [of x, where 'a = nat] by (simp add: q_def less_mult_imp_div_less)
  have "unat (take_bit 24 (- x)) = (2 ^ 32 - unat x) mod 2 ^ 32 mod 2 ^ 24"
    by (simp only: unsigned_take_bit_eq unat_uminus take_bit_eq_mod [of 24 "_ :: nat"])
  also have "\<dots> = (2 ^ 32 - unat x) mod 2 ^ 24" by (simp add: mod_mod_cancel)
  also have "2 ^ 32 - unat x = (2 ^ 24 - n) + 2 ^ 24 * (255 - q)" using less q by (simp add: x)
  also have "\<dots> mod 2 ^ 24 = (2 ^ 24 - n) mod 2 ^ 24" by (rule mod_mult_self2)
  also have "\<dots> = (if n = 0 then 0 else 2 ^ 24 - n)" using less by simp
  finally show ?thesis .
qed

lemma shift_out_in: "c_shr (c_shl x 8) 8 = take_bit 24 x"
  by (rule word32_eqI) (auto simp: bits bit_simps)

lemma negative_field:
  assumes "bit x 23" "x = take_bit 24 x"
  shows "c_shl (set_bits x 29 24 0x3F) 2 = 4 * (x - 2 ^ 24)"
proof -
  have "x - 2 ^ 24 = x + NOT (mask 24)" by (simp flip: minus_exp_eq_not_mask)
  also have "\<dots> = x OR NOT (mask 24)"
    using assms(2) by (intro disjunctive_add) (metis bit_mask_iff bit_not_iff bit_take_bit_iff)
  finally have "4 * (x - 2 ^ 24) = push_bit 2 (x OR NOT (mask 24))"
    by (simp add: push_bit_eq_mult)
  moreover have "c_shl (set_bits x 29 24 0x3F) 2 = push_bit 2 (x OR NOT (mask 24))"
  proof (rule word32_eqI)
    fix i :: nat
    assume i: "i < 32"
    have "bit (0x3F :: u32) j \<longleftrightarrow> j < 6" for j
    proof -
      have "(0x3F :: u32) = mask 6" by (simp add: mask_eq_exp_minus_1)
      then show ?thesis by (simp only: bit_mask_iff) auto
    qed
    moreover have "bit x j \<Longrightarrow> j < 24" for j using assms(2) by (metis bit_take_bit_iff)
    ultimately show "bit (c_shl (set_bits x 29 24 0x3F) 2) i = bit (push_bit 2 (x OR NOT (mask 24))) i"
      using i by (auto simp: bits bit_simps)
  qed
  ultimately show ?thesis by simp
qed

lemma positive_field:
  assumes "x = take_bit 24 x"
  shows "c_shl (set_bits x 29 24 0) 2 = 4 * x"
proof -
  have "bit x j \<Longrightarrow> j < 24" for j using assms by (metis bit_take_bit_iff)
  then have "c_shl (set_bits x 29 24 0) 2 = push_bit 2 x"
    by (intro word32_eqI) (force simp: bits bit_simps)
  then show ?thesis by (simp add: push_bit_eq_mult)
qed

lemma ucast_unat_eqI: "unat x = unat y \<Longrightarrow> x = y" for x y :: u32
  by (simp add: word_unat_eq_iff)

text \<open>The offset the code subtracts is the opposite of the field, except when the field is \<open>2 ^ 23\<close>.\<close>

lemma branch_offset_eq:
  "branch_offset ins = (if take_bit 24 ins = 2 ^ 23 then - (2 ^ 25) else - (4 * simm24 ins))"
proof -
  define n where "n = unat (take_bit 24 ins)"
  define x where "x = take_bit 24 (- get_bits ins 23 0)"
  have n: "n < 2 ^ 24" by (simp only: n_def unsigned_take_bit_eq take_bit_nat_less_exp)
  have ins: "take_bit 24 ins = of_nat n" by (simp add: n_def)
  have g: "get_bits ins 23 0 = take_bit 24 ins" by (simp add: get_bits_eq)
  have ux: "unat x = (if n = 0 then 0 else 2 ^ 24 - n)"
    using take_bit_24_uminus [of "get_bits ins 23 0"] by (simp add: x_def g n_def)
  have bit_u32: "bit w 23 \<longleftrightarrow> 2 ^ 23 \<le> unat w" if "unat w < 2 ^ 24" for w :: u32
    using bit_top_iff [of "unat w" 23] that by (simp add: bit_unsigned_iff)
  have bx: "bit x 23 \<longleftrightarrow> 2 ^ 23 \<le> unat x" using n ux by (intro bit_u32) simp
  have "bit ins 23 \<longleftrightarrow> bit (take_bit 24 ins) 23" by (simp add: bit_take_bit_iff)
  then have bi: "bit ins 23 \<longleftrightarrow> 2 ^ 23 \<le> n" using bit_u32 [of "take_bit 24 ins"] n by (simp add: n_def)
  have half: "take_bit 24 ins = 2 ^ 23 \<longleftrightarrow> n = 2 ^ 23"
    using n by (simp add: ins word_unat_eq_iff unat_of_nat)
  have "x = of_nat (unat x)" by simp
  also have "of_nat (unat x) = (if n = 0 then 0 else 2 ^ 24 - of_nat n :: u32)"
    using n by (simp add: ux of_nat_diff)
  finally have x: "x = (if n = 0 then 0 else 2 ^ 24 - of_nat n)" .
  have "NOT (get_bits ins 23 0) + 1 = - get_bits ins 23 0" by (simp add: not_eq_complement)
  then have "branch_offset ins = (if bit x 23 then 4 * (x - 2 ^ 24) else 4 * x)"
    using negative_field [of x] positive_field [of x]
    by (simp add: branch_offset_def Let_def shift_out_in flip: x_def) (simp add: x_def)
  also have "\<dots> = (if take_bit 24 ins = 2 ^ 23 then - (2 ^ 25) else - (4 * simm24 ins))"
  proof (cases "n = 2 ^ 23")
    case True
    then show ?thesis using half bx ux x by simp
  next
    case False
    then have "bit x 23 \<longleftrightarrow> 0 < n \<and> n < 2 ^ 23" "bit ins 23 \<longleftrightarrow> 2 ^ 23 < n"
      using bx bi ux by auto
    then show ?thesis using half False by (simp add: x simm24_def ins algebra_simps)
  qed
  finally show ?thesis .
qed

section \<open>Branches\<close>

text \<open>The program counter an instruction sees: its own address plus 8.\<close>

abbreviation seen_pc :: "arm_core \<Rightarrow> u32" where
  "seen_pc p \<equiv> pc_adjust 15 (reg_val p 15)"

lemma arm_branch_effect:
  assumes "ok_core p"
  shows "returns (arm_branch ins p) (\<lambda>(r, q). r = 0 \<and> ok_core q \<and> cpsr q = cpsr p \<and> mem q = mem p \<and>
    same_regs_but {14, 15} p q \<and>
    reg_val q 14 = (if bit ins 24 then seen_pc p - 4 else reg_val p 14) \<and>
    reg_val q 15 = (if condition_holds ins (cpsr p) then seen_pc p - branch_offset ins else reg_val p 15))"
  using assms
  by (cases "bit ins 24"; cases "condition_holds ins (cpsr p)")
    (simp_all add: arm_branch_def core_eqs condition_eq same_regs_but_def)

theorem arm_branch_target:
  assumes "ok_core p" "take_bit 24 ins \<noteq> 2 ^ 23"
  shows "\<exists>q. arm_branch ins p = Some (0, q) \<and> ok_core q \<and> cpsr q = cpsr p \<and> mem q = mem p \<and>
    same_regs_but {14, 15} p q \<and>
    reg_val q 14 = (if bit ins 24 then seen_pc p - 4 else reg_val p 14) \<and>
    reg_val q 15 = (if condition_holds ins (cpsr p) then seen_pc p + 4 * simm24 ins else reg_val p 15)"
  using arm_branch_effect [OF assms(1), of ins] assms(2)
  by (auto simp: returns_iff branch_offset_eq)

theorem arm_branch_target_witness:
  "\<exists>q. arm_branch 0xEBFFFFFE example_core = Some (0, q) \<and> reg_val q 14 = seen_pc example_core - 4 \<and>
    reg_val q 15 = seen_pc example_core + 4 * simm24 0xEBFFFFFE"
proof -
  have "take_bit 24 (0xEBFFFFFE :: u32) \<noteq> 2 ^ 23" "condition_holds 0xEBFFFFFE (cpsr example_core)"
    "bit (0xEBFFFFFE :: u32) 24" by code_simp+
  then show ?thesis using arm_branch_target [OF ok_example_core, of "0xEBFFFFFE"] by auto
qed

theorem arm_branch_furthest_back_goes_forward:
  assumes "ok_core p" "take_bit 24 ins = 2 ^ 23" "condition_holds ins (cpsr p)"
  shows "\<exists>q. arm_branch ins p = Some (0, q) \<and> reg_val q 15 = seen_pc p + 2 ^ 25"
  using arm_branch_effect [OF assms(1), of ins] assms(2,3)
  by (auto simp: returns_iff branch_offset_eq)

theorem arm_branch_furthest_back_goes_forward_witness:
  "\<exists>q. arm_branch 0xEA800000 example_core = Some (0, q) \<and> reg_val q 15 = seen_pc example_core + 2 ^ 25"
  by (rule arm_branch_furthest_back_goes_forward; code_simp)

section \<open>Software interrupts and status moves\<close>

theorem swi_outcome:
  "arm_coprocessor_others_swi ins =
     (if \<not> bit ins 24 then Return (uint UNDEFINED_INSTRUCTION)
      else if take_bit 24 ins = 0x123456 then Exit 0 else Return (uint SOFTWARE_INTERRUPT))"
proof -
  have "ins AND 0xFFFFFF = take_bit 24 ins" by (simp add: take_bit_eq_mask mask_eq_exp_minus_1)
  then show ?thesis by (simp add: arm_coprocessor_others_swi_def)
qed

theorem mrs_moves_status:
  assumes "ok_core p" "\<not> bit ins 21" "get_bits ins 19 16 = 0xF" "get_bits ins 11 0 = 0"
    "condition_holds ins (cpsr p)"
  shows "\<exists>q. arm_miscellaneous ins p = Some (0, q) \<and> cpsr q = cpsr p \<and> mem q = mem p \<and>
    same_regs_but {ucast (get_bits ins 15 12)} p q \<and>
    reg_val q (ucast (get_bits ins 15 12)) = (if bit ins 22 then spsr_val p else cpsr p)"
  using assms
  by (cases "bit ins 22")
    (simp_all add: arm_miscellaneous_def core_eqs condition_eq same_regs_but_def)

theorem mrs_moves_status_witness:
  "\<exists>q. arm_miscellaneous 0xE10F2000 example_core = Some (0, q) \<and> cpsr q = cpsr example_core \<and>
    mem q = mem example_core \<and> same_regs_but {ucast (get_bits 0xE10F2000 15 12)} example_core q \<and>
    reg_val q (ucast (get_bits 0xE10F2000 15 12)) =
      (if bit (0xE10F2000 :: u32) 22 then spsr_val example_core else cpsr example_core)"
  by (rule mrs_moves_status; code_simp)

lemma arm_miscellaneous_ok:
  assumes "ok_core p"
  shows "returns (arm_miscellaneous ins p) (\<lambda>(r, q). ok_core q \<and> mem q = mem p \<and>
    (r = 0 \<or> r = uint UNDEFINED_INSTRUCTION \<and> (\<forall>rg < 16. reg_val q rg = reg_val p rg)))"
  using assms
  by (cases "bit ins 22"; cases "condition_holds ins (cpsr p)")
    (simp_all add: arm_miscellaneous_def core_eqs condition_eq)

end
