(* ===== verification/Arm_Shifter.thy ===== *)
theory Arm_Shifter
  imports Util
begin

text \<open>
  The barrel shifter of the architecture, the specification both the data-processing operands
  and the scaled offsets of the transfers are compared with. No code is modelled here.
\<close>

text \<open>
  \<open>arm_shifter kind by_register n rm c\<close>: kinds 0 to 3 are LSL, LSR, ASR and ROR; \<open>n\<close> is the
  amount, a 5-bit immediate or the low byte of a register. An immediate 0 stands for 32 in LSR
  and ASR, and for the extended rotation in ROR.
\<close>

definition arm_shifter :: "nat \<Rightarrow> bool \<Rightarrow> nat \<Rightarrow> u32 \<Rightarrow> bool \<Rightarrow> u32 \<times> bool" where
  "arm_shifter kind by_register n rm c =
     (if n = 0 \<and> (by_register \<or> kind = 0) then (rm, c)
      else if n = 0 \<and> kind = 3 then (push_bit 31 (of_bool c) OR drop_bit 1 rm, bit rm 0)
      else let n = (if n = 0 then 32 else n) in
        if kind = 0 then (push_bit n rm, n \<le> 32 \<and> bit rm (32 - n))
        else if kind = 1 then (drop_bit n rm, n \<le> 32 \<and> bit rm (n - 1))
        else if kind = 2 then (signed_drop_bit n rm, bit rm (min (n - 1) 31))
        else (word_rotr n rm, bit rm ((n - 1) mod 32)))"

definition shift_amount :: "u32 \<Rightarrow> nat" where
  "shift_amount ins = unat (get_bits ins 11 7)"

lemma shift_amount_less: "shift_amount ins < 32"
  using get_bits_less [of 11 7 ins] by (simp add: shift_amount_def)

lemma unat_shift_value: "unat (ucast (get_bits ins 11 7) :: u8) = shift_amount ins"
  using shift_amount_less [of ins] by (simp add: unat_ucast_8 shift_amount_def)

end
