(* ===== verification/Arm_Data_Processing.thy ===== *)
theory Arm_Data_Processing
  imports Arm_Condition Arm_Shifter
begin

text \<open>
  \<^verbatim>\<open>arm_data_processing.h\<close> and \<^verbatim>\<open>arm_data_processing.c\<close>: the operators, the two kinds of shifter
  operand, the flags and the handler. The function pointers of the source are functions; the
  variables its pointers designate (overflow, carry of the shifter, carry of the addition) are
  passed and returned.
\<close>

section \<open>Operators\<close>

definition logical_and :: "u32 \<Rightarrow> u32 \<Rightarrow> u32" where
  "logical_and val_rn shifter_operand = val_rn AND shifter_operand"

definition logical_eor :: "u32 \<Rightarrow> u32 \<Rightarrow> u32" where
  "logical_eor val_rn shifter_operand = val_rn XOR shifter_operand"

definition sub :: "u32 \<Rightarrow> u32 \<Rightarrow> u32" where
  "sub val_rn shifter_operand = val_rn + (NOT shifter_operand + 1)"

definition rsb :: "u32 \<Rightarrow> u32 \<Rightarrow> u32" where
  "rsb val_rn shifter_operand = shifter_operand + (NOT val_rn + 1)"

definition add :: "u32 \<Rightarrow> u32 \<Rightarrow> u32" where
  "add val_rn shifter_operand = val_rn + shifter_operand"

definition logical_or :: "u32 \<Rightarrow> u32 \<Rightarrow> u32" where
  "logical_or val_rn shifter_operand = val_rn OR shifter_operand"

definition mov :: "u32 \<Rightarrow> u32 \<Rightarrow> u32" where
  "mov val_rn shifter_operand = shifter_operand"

definition bic :: "u32 \<Rightarrow> u32 \<Rightarrow> u32" where
  "bic val_rn shifter_operand = val_rn AND NOT shifter_operand"

section \<open>Flags\<close>

definition ZNCV_value :: "int \<Rightarrow> int \<Rightarrow> u32 \<Rightarrow> int \<Rightarrow> int \<Rightarrow> u32 \<Rightarrow> u32" where
  "ZNCV_value oVerflow Carry value oV Ca cpsr_value =
     (let cpsr_value = (if value = 0 then set_bit_c cpsr_value Z_bit else clr_bit cpsr_value Z_bit);
          cpsr_value = (if get_bit value 31 \<noteq> 0 then set_bit_c cpsr_value N_bit
                        else clr_bit cpsr_value N_bit);
          cpsr_value = (if Carry \<noteq> 0 \<and> Ca \<noteq> 0 then set_bit_c cpsr_value C_bit
                        else if Ca \<noteq> 0 then clr_bit cpsr_value C_bit else cpsr_value);
          cpsr_value = (if oVerflow \<noteq> 0 \<and> oV \<noteq> 0 then set_bit_c cpsr_value V_bit
                        else if oV \<noteq> 0 then clr_bit cpsr_value V_bit else cpsr_value)
      in cpsr_value)"

definition ZNCV_update ::
  "int \<Rightarrow> int \<Rightarrow> u32 \<Rightarrow> int \<Rightarrow> int \<Rightarrow> u32 \<Rightarrow> arm_core \<Rightarrow> arm_core option" where
  "ZNCV_update oVerflow Carry value oV Ca cpsr_value p =
     arm_write_cpsr (ZNCV_value oVerflow Carry value oV Ca cpsr_value) p"

section \<open>Operands\<close>

text \<open>The overflow and the carry both operand functions compute at their end.\<close>

definition overflow_of :: "u32 \<Rightarrow> u32 \<Rightarrow> u32 \<Rightarrow> int" where
  "overflow_of shifter_operand valRn value =
     (if get_bit shifter_operand 31 = get_bit valRn 31 \<and> get_bit value 31 \<noteq> get_bit shifter_operand 31
      then 1 else 0)"

definition carry_from :: "u32 \<Rightarrow> u32 \<Rightarrow> u32 \<Rightarrow> int" where
  "carry_from shifter_operand valRn value =
     (if shifter_operand > value \<or> valRn > value then 1 else 0)"

type_synonym flags = "int \<times> int \<times> int"
type_synonym operand = "u32 \<Rightarrow> (u32 \<Rightarrow> u32 \<Rightarrow> u32) \<Rightarrow> flags \<Rightarrow> arm_core \<Rightarrow> (u32 \<times> flags \<times> arm_core) option"

text \<open>The C flag, read for a carry.\<close>

definition carry_in :: "arm_core \<Rightarrow> (int \<times> arm_core) option" where
  "carry_in p = do { (c, p) \<leftarrow> arm_read_cpsr p; Some (uint (get_bit c C_bit), p) }"

definition data_processing_immediate_operand :: operand where
  "data_processing_immediate_operand ins operateur flags p = do {
     let immediate = get_bits ins 7 0;
     let rotate = (ucast (get_bits ins 11 8) :: u8);
     let rn = ucast (get_bits ins 19 16);
     (valRn, p) \<leftarrow> arm_read_register rn p;
     let shifter_operand = ror immediate (rotate * 2);
     let value = operateur valRn shifter_operand;
     (Carry, p) \<leftarrow> (if rotate = 0 then carry_in p
                  else Some (uint (get_bit shifter_operand 31), p));
     Some (value,
       (overflow_of shifter_operand valRn value, Carry, carry_from shifter_operand valRn value), p) }"

text \<open>The \<^verbatim>\<open>switch\<close> on the kind of shift.\<close>

definition shift_operand ::
  "u8 \<Rightarrow> u32 \<Rightarrow> u32 \<Rightarrow> int \<Rightarrow> arm_core \<Rightarrow> (u32 \<times> int \<times> arm_core) option" where
  "shift_operand champ ins valRm Carry p =
     (let shift_value = (ucast (get_bits ins 11 7) :: u8); rs = ucast (get_bits ins 11 8) in
      if champ = 0 then do {
        (Carry, p) \<leftarrow> (if shift_value = 0 then carry_in p
                     else Some (uint (get_bit valRm (32 - unat shift_value)), p));
        Some (c_shl valRm (unat shift_value), Carry, p) }
      else if champ = 1 then do {
        (valRs, p) \<leftarrow> arm_read_register rs p;
        let valRsb70 = (ucast (get_bits valRs 7 0) :: u8);
        (Carry, p) \<leftarrow> (if valRsb70 = 0 then carry_in p
                     else if valRsb70 \<le> 32 then Some (uint (get_bit valRm (32 - unat valRsb70)), p)
                     else Some (0, p));
        Some (c_shl valRm (unat valRs), Carry, p) }
      else if champ = 2 then
        (let Carry = (if shift_value = 0 then uint (get_bit valRm 31)
                      else uint (get_bit valRm (unat shift_value - 1)))
         in Some (c_shr valRm (unat shift_value), Carry, p))
      else if champ = 3 then do {
        (valRs, p) \<leftarrow> arm_read_register rs p;
        let valRsb70 = (ucast (get_bits valRs 7 0) :: u8);
        (Carry, p) \<leftarrow> (if valRsb70 = 0 then carry_in p
                     else if valRsb70 \<le> 32 then Some (uint (get_bit valRm (unat valRsb70 - 1)), p)
                     else Some (0, p));
        Some (c_shr valRm (unat valRs), Carry, p) }
      else if champ = 4 then
        (let Carry = (if shift_value = 0 then uint (get_bit valRm 31)
                      else uint (get_bit valRm (unat shift_value - 1)))
         in Some (asr valRm shift_value, Carry, p))
      else if champ = 5 then do {
        (valRs, p) \<leftarrow> arm_read_register rs p;
        let valRsb70 = (ucast (get_bits valRs 7 0) :: u8);
        (Carry, p) \<leftarrow> (if valRsb70 = 0 then carry_in p
                     else if valRsb70 \<le> 32 then Some (uint (get_bit valRm (unat valRsb70 - 1)), p)
                     else Some (0, p));
        Some (asr valRm (ucast valRs), Carry, p) }
      else if champ = 6 then
        (let Carry = (if shift_value \<noteq> 0 then uint (get_bit valRm (unat shift_value - 1)) else Carry)
         in Some (ror valRm shift_value, Carry, p))
      else do {
        (valRs, p) \<leftarrow> arm_read_register rs p;
        (Carry, p) \<leftarrow> (if get_bits valRs 7 0 = 0 then carry_in p
                     else if get_bits valRs 4 0 = 0 then Some (uint (get_bit valRm 31), p)
                     else Some (uint (get_bit valRm (unat (get_bits valRs 4 0) - 1)), p));
        Some (ror valRm (ucast valRs), Carry, p) })"

definition data_processing_operand :: operand where
  "data_processing_operand ins operateur flags p = do {
     let (oVerflow, Carry, CarryFrom) = flags;
     let champ = (ucast (get_bits ins 6 4) :: u8);
     let rn = ucast (get_bits ins 19 16);
     let rm = ucast (get_bits ins 3 0);
     (valRm, p) \<leftarrow> arm_read_register rm p;
     if champ > 7 then Some (ucast UNDEFINED_INSTRUCTION, (oVerflow, Carry, CarryFrom), p) else do {
       (shifter_operand, Carry, p) \<leftarrow> shift_operand champ ins valRm Carry p;
       (valRn, p) \<leftarrow> arm_read_register rn p;
       let value = operateur valRn shifter_operand;
       Some (value,
         (overflow_of shifter_operand valRn value, Carry, carry_from shifter_operand valRn value), p) } }"

section \<open>The handler\<close>

text \<open>The function the variable \<^verbatim>\<open>operandType\<close> designates.\<close>

definition operand_function :: "u32 \<Rightarrow> operand" where
  "operand_function ins =
     (if get_bit ins 25 = 0 then data_processing_operand else data_processing_immediate_operand)"

text \<open>What an operation with a destination does after its result is known.\<close>

definition write_result ::
  "u32 \<Rightarrow> u8 \<Rightarrow> u32 \<Rightarrow> int \<Rightarrow> int \<Rightarrow> u32 \<Rightarrow> int \<Rightarrow> u32 \<Rightarrow> arm_core \<Rightarrow> (int \<times> arm_core) option" where
  "write_result s rd written oVerflow Carry value oV cpsr_value p = do {
     p \<leftarrow> arm_write_register rd written p;
     p \<leftarrow> (if s \<noteq> 0 then
            (if rd \<noteq> 15 then ZNCV_update oVerflow Carry value oV 1 cpsr_value p
             else if arm_current_mode_has_spsr p then do {
               (v, p) \<leftarrow> arm_read_spsr p;
               arm_write_cpsr v p
             } else Some p)
          else Some p);
     Some (0, p) }"

definition arm_data_processing_shift :: "u32 \<Rightarrow> u32 \<Rightarrow> arm_core \<Rightarrow> (int \<times> arm_core) option" where
  "arm_data_processing_shift junk ins p = do {
     let rd = ucast (get_bits ins 15 12);
     (cpsr_value, p) \<leftarrow> arm_read_cpsr p;
     let opcode = (ucast (get_bits ins 24 21) :: u8);
     let s = get_bit ins 20;
     let flags = (uint (get_bit cpsr_value V_bit), uint (get_bit cpsr_value C_bit), sint junk);
     let operandType = (\<lambda>operateur. operand_function ins ins operateur flags p);
     if opcode = 0 then do {
       (value, (oVerflow, Carry, CarryFrom), p) \<leftarrow> operandType logical_and;
       write_result s rd value oVerflow Carry value 0 cpsr_value p }
     else if opcode = 1 then do {
       (value, (oVerflow, Carry, CarryFrom), p) \<leftarrow> operandType logical_eor;
       write_result s rd value oVerflow Carry value 0 cpsr_value p }
     else if opcode = 2 then do {
       (value, (oVerflow, Carry, CarryFrom), p) \<leftarrow> operandType sub;
       let Carry = NOT CarryFrom;
       write_result s rd value oVerflow Carry value 1 cpsr_value p }
     else if opcode = 3 then do {
       (value, (oVerflow, Carry, CarryFrom), p) \<leftarrow> operandType rsb;
       let Carry = NOT CarryFrom;
       write_result s rd value oVerflow Carry value 1 cpsr_value p }
     else if opcode = 4 then do {
       (value, (oVerflow, Carry, CarryFrom), p) \<leftarrow> operandType add;
       let Carry = CarryFrom;
       write_result s rd value oVerflow Carry value 1 cpsr_value p }
     else if opcode = 5 then do {
       (value, (oVerflow, Carry, CarryFrom), p) \<leftarrow> operandType add;
       let Carry = CarryFrom;
       (c, p) \<leftarrow> arm_read_cpsr p;
       let value = value + get_bit c C_bit;
       write_result s rd value oVerflow Carry value 1 cpsr_value p }
     else if opcode = 6 then do {
       (value, (oVerflow, Carry, CarryFrom), p) \<leftarrow> operandType sub;
       let Carry = NOT CarryFrom;
       (c, p) \<leftarrow> arm_read_cpsr p;
       let value = value - NOT (get_bit c C_bit);
       write_result s rd value oVerflow Carry value 1 cpsr_value p }
     else if opcode = 7 then do {
       (value, (oVerflow, Carry, CarryFrom), p) \<leftarrow> operandType rsb;
       let Carry = NOT CarryFrom;
       (c, p) \<leftarrow> arm_read_cpsr p;
       let value = value - NOT (get_bit c C_bit);
       write_result s rd value oVerflow Carry value 1 cpsr_value p }
     else if opcode = 8 then do {
       (value, (oVerflow, Carry, CarryFrom), p) \<leftarrow> operandType logical_and;
       p \<leftarrow> ZNCV_update oVerflow Carry value 0 1 cpsr_value p;
       Some (0, p) }
     else if opcode = 9 then do {
       (value, (oVerflow, Carry, CarryFrom), p) \<leftarrow> operandType logical_eor;
       p \<leftarrow> ZNCV_update oVerflow Carry value 0 1 cpsr_value p;
       Some (0, p) }
     else if opcode = 10 then do {
       (value, (oVerflow, Carry, CarryFrom), p) \<leftarrow> operandType sub;
       let Carry = NOT CarryFrom;
       p \<leftarrow> ZNCV_update oVerflow Carry value 1 1 cpsr_value p;
       Some (0, p) }
     else if opcode = 11 then do {
       (value, (oVerflow, Carry, CarryFrom), p) \<leftarrow> operandType add;
       let Carry = CarryFrom;
       p \<leftarrow> ZNCV_update oVerflow Carry value 1 1 cpsr_value p;
       Some (0, p) }
     else if opcode = 12 then do {
       (value, (oVerflow, Carry, CarryFrom), p) \<leftarrow> operandType logical_or;
       write_result s rd value oVerflow Carry value 0 cpsr_value p }
     else if opcode = 13 then do {
       (value, (oVerflow, Carry, CarryFrom), p) \<leftarrow> operandType mov;
       write_result s rd value oVerflow Carry value 0 cpsr_value p }
     else if opcode = 14 then do {
       (value, (oVerflow, Carry, CarryFrom), p) \<leftarrow> operandType bic;
       write_result s rd value oVerflow Carry value 0 cpsr_value p }
     else if opcode = 15 then do {
       (value, (oVerflow, Carry, CarryFrom), p) \<leftarrow> operandType mov;
       write_result s rd (NOT value) oVerflow Carry value 0 cpsr_value p }
     else Some (uint UNDEFINED_INSTRUCTION, p) }"

section \<open>The shifter operand of the architecture\<close>

text \<open>The shifts on which the code follows the architecture.\<close>

definition shift_supported :: "u8 \<Rightarrow> nat \<Rightarrow> u32 \<Rightarrow> bool" where
  "shift_supported champ n valRs \<longleftrightarrow>
     (if champ = 0 then True
      else if champ = 1 \<or> champ = 3 then unat valRs < 32
      else if champ = 5 then 0 < n \<and> n < 32
      else if champ = 7 then True
      else 0 < n)"

lemma carry_in_eq:
  "carry_in p = Some (of_bool (bit (cpsr p) C_bit), traced_reg READ CPSR 0 (cpsr p) p)"
  by (simp add: carry_in_def arm_read_cpsr_eq)

lemma uint_of_bool_u32 [simp]: "uint (of_bool b :: u32) = of_bool b"
  by (cases b) simp_all

lemma low_byte: "unat (ucast (get_bits v 7 0) :: u8) = unat v mod 256"
  using get_bits_less [of 7 0 v] by (simp add: unat_ucast_8 unat_get_bits)

lemma unat_ucast_u8: "unat (ucast v :: u8) = unat v mod 256" for v :: u32
  by (simp add: unsigned_ucast_eq take_bit_eq_mod)

lemma low_byte_eq_0: "(ucast (get_bits v 7 0) :: u8) = 0 \<longleftrightarrow> unat v mod 256 = 0"
  by (simp add: word_unat_eq_iff low_byte del: unat_eq_zero)

lemma low_byte_le: "(ucast (get_bits v 7 0) :: u8) \<le> 32 \<longleftrightarrow> unat v mod 256 \<le> 32"
  by (simp add: word_le_nat_alt low_byte)

lemma shift_value_eq_0: "(ucast (get_bits ins 11 7) :: u8) = 0 \<longleftrightarrow> shift_amount ins = 0"
  by (simp add: word_unat_eq_iff unat_shift_value del: unat_eq_zero)

lemma champ_cases:
  assumes "champ < (8 :: u8)"
  obtains "champ = 0" | "champ = 1" | "champ = 2" | "champ = 3" | "champ = 4" | "champ = 5" | "champ = 6" | "champ = 7"
proof -
  have "unat champ < 8" using assms by (simp add: word_less_nat_alt)
  then have "unat champ \<in> {0, 1, 2, 3, 4, 5, 6, 7}" by auto
  then show ?thesis using that by (auto simp: word_unat_eq_iff)
qed

lemma asr_mod: "asr x n = (if unat n mod 32 = 0 then (if bit x 31 then - 1 else x) else signed_drop_bit (unat n mod 32) x)"
proof -
  have "asr x n = asr x (n mod 32)"
    by (simp add: asr_def c_shr_def unat_mod uint_mod mod_minus_eq [of "uint n" 32])
  moreover have "n mod 32 = 0" if "unat n mod 32 = 0"
    using that by (simp add: word_unat_eq_iff unat_mod del: unat_eq_zero)
  moreover have "0 < n mod 32" if "unat n mod 32 \<noteq> 0"
    using that by (simp add: word_less_nat_alt unat_mod)
  moreover have "n mod 32 < 32" by (simp add: word_less_nat_alt unat_mod)
  ultimately show ?thesis
    using asr_eq [of "n mod 32" x] by (cases "unat n mod 32 = 0") (simp_all add: asr_0 unat_mod)
qed

text \<open>
  What the code computes, for every kind and amount: a count is taken modulo 32, so that LSR and ASR
  by an immediate 0 do not shift by 32; an immediate 0 of ROR is no rotation; the carry of an ASR by
  more than 32 is clear. On the shifts of \<open>shift_supported\<close> this is the shifter of the architecture.
\<close>

definition code_shifter :: "nat \<Rightarrow> bool \<Rightarrow> nat \<Rightarrow> u32 \<Rightarrow> bool \<Rightarrow> u32 \<times> bool" where
  "code_shifter kind by_register v rm c =
     (if kind = 0 then push_bit (v mod 32) rm
      else if kind = 1 then drop_bit (v mod 32) rm
      else if kind = 2 then
        (if v mod 32 = 0 then (if bit rm 31 then - 1 else rm) else signed_drop_bit (v mod 32) rm)
      else word_rotr (v mod 256) rm,
      if kind = 3 \<and> v = 0 \<and> \<not> by_register then c
      else if kind = 2 \<and> 32 < v mod 256 then False
      else snd (arm_shifter kind by_register (v mod 256) rm c))"

lemma code_shifter_supported:
  assumes "shift_supported champ (unat v mod 256) v" "champ \<in> {1, 3, 5, 7}"
  shows "code_shifter (unat champ div 2) True (unat v) rm c =
    arm_shifter (unat champ div 2) True (unat v mod 256) rm c"
proof -
  define n where "n = unat v mod 256"
  have n32: "unat v mod 32 = n mod 32" by (simp add: n_def mod_mod_cancel)
  have small: "n < 32" if "unat v < 32" using that by (simp add: n_def)
  from assms(2) consider "champ = 1" | "champ = 3" | "champ = 5" | "champ = 7" by auto
  then show ?thesis
    by cases (use assms(1) small in \<open>auto simp: shift_supported_def code_shifter_def arm_shifter_def Let_def n32
      simp flip: n_def\<close>)
qed

lemma code_shifter_supported_immediate:
  assumes "shift_supported champ n 0" "champ \<in> {0, 2, 4, 6}" "n < 32"
  shows "code_shifter (unat champ div 2) False n rm c = arm_shifter (unat champ div 2) False n rm c"
  using assms by (auto simp: shift_supported_def code_shifter_def arm_shifter_def split: if_splits)

lemma shift_by_immediate:
  assumes "ok_core p" "champ \<in> {0, 2, 4, 6}"
  shows "returns (shift_operand champ ins rm (of_bool (bit (cpsr p) C_bit)) p) (\<lambda>(v, c, q). only_traced p q \<and>
    v = fst (code_shifter (unat champ div 2) False (shift_amount ins) rm (bit (cpsr p) C_bit)) \<and>
    c = of_bool (snd (code_shifter (unat champ div 2) False (shift_amount ins) rm (bit (cpsr p) C_bit))))"
proof -
  define n where "n = shift_amount ins"
  define s where "s = (ucast (get_bits ins 11 7) :: u8)"
  have n: "n < 32" by (simp add: n_def shift_amount_less)
  have us: "unat s = n" by (simp add: n_def s_def flip: unat_shift_value)
  have s0: "s = 0 \<longleftrightarrow> n = 0" using us by (metis unat_eq_zero)
  have ror: "ror rm s = word_rotr n rm" by (simp add: ror_eq_word_rotr us)
  note simps = shift_operand_def Let_def s_def [symmetric] us s0 arm_shifter_def code_shifter_def
    n_def [symmetric] carry_in_eq c_shl_eq c_shr_eq asr_mod ror
  consider "champ = 0" | "champ = 2" | "champ = 4" | "champ = 6" using assms(2) by auto
  then show ?thesis
    by cases (use n in \<open>simp add: simps\<close>)+
qed

definition rs_field :: "u32 \<Rightarrow> u8" where
  "rs_field ins = ucast (get_bits ins 11 8)"

lemma low_bits_mod: "unat (get_bits v 4 0) = unat v mod 256 mod 32" for v :: u32
  by (simp add: unat_get_bits mod_mod_cancel)

lemma get_bits_zero_iff:
  "get_bits v 7 0 = 0 \<longleftrightarrow> unat v mod 256 = 0" "get_bits v 4 0 = 0 \<longleftrightarrow> unat v mod 256 mod 32 = 0"
  by (simp_all add: word_unat_eq_iff unat_get_bits mod_mod_cancel del: unat_eq_zero)

lemma rotate_carry: "n mod 32 \<noteq> 0 \<Longrightarrow> (n - 1) mod 32 = n mod 32 - 1" "n mod 32 = 0 \<Longrightarrow> n \<noteq> 0 \<Longrightarrow> (n - 1) mod 32 = 31"
  for n :: nat
proof -
  define q r where "q = n div 32" and "r = n mod 32"
  have n: "n = 32 * q + r" and r: "r < 32" by (simp_all add: q_def r_def)
  show "(n - 1) mod 32 = n mod 32 - 1" if "n mod 32 \<noteq> 0"
  proof -
    have "0 < r" using that by (simp add: r_def)
    then have "n - 1 = 32 * q + (r - 1)" using n by linarith
    then show ?thesis using r by (simp flip: r_def)
  qed
  show "(n - 1) mod 32 = 31" if "n mod 32 = 0" "n \<noteq> 0"
  proof -
    have "r = 0" using that by (simp add: r_def)
    then have "n - 1 = 32 * (q - 1) + 31" using n that by (cases q) linarith+
    then show ?thesis by simp
  qed
qed

lemma shift_by_register:
  fixes ins :: u32
  assumes "ok_core p" "champ \<in> {1, 3, 5, 7}"
  defines "valRs \<equiv> seen p (rs_field ins)"
  shows "returns (shift_operand champ ins rm c0 p) (\<lambda>(v, c, q). only_traced p q \<and>
    v = fst (code_shifter (unat champ div 2) True (unat valRs) rm (bit (cpsr p) C_bit)) \<and>
    c = of_bool (snd (code_shifter (unat champ div 2) True (unat valRs) rm (bit (cpsr p) C_bit))))"
proof -
  define n where "n = unat valRs mod 256"
  define s where "s = (ucast valRs :: u8)"
  define b where "b = (ucast (get_bits valRs 7 0) :: u8)"
  have us: "unat s = n" "unat b = n"
    by (simp add: n_def s_def unat_ucast_u8) (simp add: n_def b_def low_byte)
  have b0: "b = 0 \<longleftrightarrow> n = 0" "b \<le> 32 \<longleftrightarrow> n \<le> 32"
    using us by (metis unat_eq_zero) (simp add: word_le_nat_alt us)
  have n32: "unat valRs mod 32 = n mod 32" by (simp add: n_def mod_mod_cancel)
  have ror: "ror rm s = word_rotr n rm" by (simp add: ror_eq_word_rotr us)
  have rd: "arm_read_register (rs_field ins) p = Some (valRs, traced_reg READ (rs_field ins) (core_mode p) valRs p)"
    using assms(1) by (simp add: arm_read_register_eq rs_field_def valRs_def seen_def)
  have zero: "get_bits valRs 7 0 = 0 \<longleftrightarrow> n = 0" "get_bits valRs 4 0 = 0 \<longleftrightarrow> n mod 32 = 0"
    and low5: "unat (get_bits valRs 4 0) = n mod 32"
    by (simp_all only: n_def get_bits_zero_iff low_bits_mod)
  note simps = shift_operand_def Let_def rs_field_def [symmetric] rd s_def [symmetric] b_def [symmetric] us b0
    arm_shifter_def code_shifter_def carry_in_eq n32 n_def [symmetric]
  consider "champ = 1" | "champ = 3" | "champ = 5" | "champ = 7" using assms(2) by auto
  then show ?thesis
  proof cases
    case 1
    then show ?thesis by (simp add: simps c_shl_def)
  next
    case 2
    then show ?thesis by (simp add: simps c_shr_def)
  next
    case 3
    then show ?thesis by (cases "n = 32") (simp_all add: simps asr_mod)
  next
    case 4
    then show ?thesis
      using rotate_carry [of n]
      by (cases "n = 0"; cases "n mod 32 = 0") (simp_all add: simps ror zero low5 del: mod_eq_0_iff_dvd)
  qed
qed

text \<open>
  The operand of an instruction in the architecture, and the instructions whose operand the code
  computes in that way: all the immediates, and the shifts of \<open>shift_supported\<close>.
\<close>

definition dp_shift_kind :: "u32 \<Rightarrow> u8" where
  "dp_shift_kind ins = ucast (get_bits ins 6 4)"

definition dp_amount :: "arm_core \<Rightarrow> u32 \<Rightarrow> nat" where
  "dp_amount p ins =
     (if bit ins 4 then unat (seen p (rs_field ins)) mod 256 else shift_amount ins)"

definition dp_operand :: "arm_core \<Rightarrow> u32 \<Rightarrow> u32 \<times> bool" where
  "dp_operand p ins =
     (if bit ins 25 then
        (let imm = take_bit 8 ins; rot = 2 * unat (rs_field ins); v = word_rotr rot imm in
         (v, if rot = 0 then bit (cpsr p) C_bit else bit v 31))
      else arm_shifter (unat (dp_shift_kind ins) div 2) (bit ins 4) (dp_amount p ins)
             (seen p (ucast (get_bits ins 3 0))) (bit (cpsr p) C_bit))"

definition dp_supported :: "arm_core \<Rightarrow> u32 \<Rightarrow> bool" where
  "dp_supported p ins \<longleftrightarrow>
     bit ins 25 \<or> shift_supported (dp_shift_kind ins) (dp_amount p ins) (seen p (rs_field ins))"

lemma dp_shift_kind_less: "dp_shift_kind ins < 8"
  using get_bits_less [of 6 4 ins] by (simp add: dp_shift_kind_def word_less_nat_alt unat_ucast_8)

lemma odd_dp_shift_kind: "odd (unat (dp_shift_kind ins)) \<longleftrightarrow> bit ins 4"
proof -
  have "unat (dp_shift_kind ins) = unat (get_bits ins 6 4)"
    using get_bits_less [of 6 4 ins] by (simp add: dp_shift_kind_def unat_ucast_8)
  then have "odd (unat (dp_shift_kind ins)) \<longleftrightarrow> bit (get_bits ins 6 4) 0"
    by (simp only: bit_unsigned_iff flip: bit_0) simp
  also have "\<dots> \<longleftrightarrow> bit ins 4" by (simp add: get_bits_eq bit_simps)
  finally show ?thesis .
qed

text \<open>The operand the code computes.\<close>

definition dp_used :: "arm_core \<Rightarrow> u32 \<Rightarrow> u32 \<times> bool" where
  "dp_used p ins =
     (if bit ins 25 then dp_operand p ins
      else code_shifter (unat (dp_shift_kind ins) div 2) (bit ins 4)
             (if bit ins 4 then unat (seen p (rs_field ins)) else shift_amount ins)
             (seen p (ucast (get_bits ins 3 0))) (bit (cpsr p) C_bit))"

lemma dp_shift_kind_parity:
  "bit ins 4 \<Longrightarrow> dp_shift_kind ins \<in> {1, 3, 5, 7}" "\<not> bit ins 4 \<Longrightarrow> dp_shift_kind ins \<in> {0, 2, 4, 6}"
  using odd_dp_shift_kind [of ins]
  by (cases rule: champ_cases [OF dp_shift_kind_less [of ins]]; simp)+

lemma dp_used_supported:
  assumes "dp_supported p ins"
  shows "dp_used p ins = dp_operand p ins"
proof (cases "bit ins 25")
  case False
  note kind = dp_shift_kind_parity [of ins]
  show ?thesis
  proof (cases "bit ins 4")
    case True
    then show ?thesis
      using False assms code_shifter_supported [OF _ kind(1) [OF True], of "seen p (rs_field ins)"]
      by (simp only: dp_used_def dp_operand_def dp_amount_def dp_supported_def if_True if_False simp_thms)
  next
    case ins4: False
    have "shift_supported (dp_shift_kind ins) (shift_amount ins) 0"
      using False assms kind(2) [OF ins4] ins4 by (auto simp: dp_supported_def dp_amount_def shift_supported_def)
    with ins4 False show ?thesis
      using code_shifter_supported_immediate [OF _ kind(2) [OF ins4] shift_amount_less]
      by (simp only: dp_used_def dp_operand_def dp_amount_def if_True if_False simp_thms)
  qed
qed (simp add: dp_used_def)

lemma shift_operand_dp:
  assumes "ok_core p" "\<not> bit ins 25"
  shows "returns (shift_operand (dp_shift_kind ins) ins (seen p (ucast (get_bits ins 3 0)))
      (of_bool (bit (cpsr p) C_bit)) p) (\<lambda>(v, c, q). only_traced p q \<and>
    v = fst (dp_used p ins) \<and> c = of_bool (snd (dp_used p ins)))"
proof (cases "bit ins 4")
  case True
  with assms(2) shift_by_register [OF assms(1) dp_shift_kind_parity(1) [OF True]] show ?thesis
    by (simp only: dp_used_def if_True if_False)
next
  case False
  with assms(2) shift_by_immediate [OF assms(1) dp_shift_kind_parity(2) [OF False]] show ?thesis
    by (simp only: dp_used_def if_True if_False)
qed

section \<open>The operand functions\<close>

definition rn_field :: "u32 \<Rightarrow> u8" where
  "rn_field ins = ucast (get_bits ins 19 16)"

definition operand_result ::
  "u32 \<Rightarrow> u32 \<Rightarrow> (u32 \<Rightarrow> u32 \<Rightarrow> u32) \<Rightarrow> int \<Rightarrow> u32 \<times> flags" where
  "operand_result opd rn f c =
     (f rn opd, overflow_of opd rn (f rn opd), c, carry_from opd rn (f rn opd))"

text \<open>Both functions return whatever the instruction, and change nothing but the trace.\<close>

lemma carry_in_returns: "returns (carry_in p) (\<lambda>(c, q). only_traced p q)"
  by (simp add: carry_in_eq)

lemma shift_operand_returns:
  assumes "ok_core p"
  shows "returns (shift_operand champ ins rm c p) (\<lambda>(v, c, q). only_traced p q)"
  using assms by (simp add: shift_operand_def Let_def core_eqs carry_in_eq)

lemma seen_read: "ok_core p \<Longrightarrow> rg < 16 \<Longrightarrow>
    arm_read_register rg p = Some (seen p rg, traced_reg READ rg (core_mode p) (seen p rg) p)"
  by (simp add: arm_read_register_eq seen_def)

text \<open>A fact on the shift is a fact on the operand function.\<close>

lemma data_processing_operand_from_shift:
  assumes "ok_core p"
    "\<And>p'. only_traced p p' \<Longrightarrow>
       returns (shift_operand (dp_shift_kind ins) ins (seen p (ucast (get_bits ins 3 0))) c p')
         (\<lambda>(v, c, q). only_traced p' q \<and> P v c)"
  shows "returns (data_processing_operand ins f (ov, c, cf) p) (\<lambda>(v, fl, q). only_traced p q \<and>
    (\<exists>opd c'. P opd c' \<and> (v, fl) = operand_result opd (seen p (rn_field ins)) f c'))"
proof -
  have less: "\<not> 7 < dp_shift_kind ins"
    using dp_shift_kind_less [of ins] by (simp add: word_le_nat_alt word_less_nat_alt)
  let ?p = "traced_reg READ (ucast (get_bits ins 3 0)) (core_mode p) (seen p (ucast (get_bits ins 3 0))) p"
  obtain opd c' q where s: "shift_operand (dp_shift_kind ins) ins (seen p (ucast (get_bits ins 3 0))) c ?p =
      Some (opd, c', q)" and q: "only_traced ?p q" "P opd c'"
    using assms(2) [of ?p] by (auto simp: returns_iff)
  then have pq: "only_traced p q" by (simp add: only_traced_def)
  then have rn: "arm_read_register (rn_field ins) q =
      Some (seen p (rn_field ins), traced_reg READ (rn_field ins) (core_mode p) (seen p (rn_field ins)) q)"
    using assms(1) by (simp add: seen_read only_tracedD seen_only_traced rn_field_def)
  have "data_processing_operand ins f (ov, c, cf) p = Some (f (seen p (rn_field ins)) opd,
      (snd (operand_result opd (seen p (rn_field ins)) f c')),
      traced_reg READ (rn_field ins) (core_mode p) (seen p (rn_field ins)) q)"
    using assms(1) less s rn
    by (simp add: data_processing_operand_def seen_read operand_result_def Let_def
        flip: dp_shift_kind_def rn_field_def)
  with pq q(2) show ?thesis by (auto simp: operand_result_def)
qed

lemma data_processing_immediate_operand_eq:
  assumes "ok_core p" "bit ins 25"
  shows "returns (data_processing_immediate_operand ins f fl p) (\<lambda>(v, fl, q). only_traced p q \<and>
    (v, fl) = operand_result (fst (dp_operand p ins)) (seen p (rn_field ins)) f (of_bool (snd (dp_operand p ins))))"
proof -
  define r where "r = rs_field ins"
  have r16: "unat r < 16" using field_less(2) [of ins] by (simp add: r_def rs_field_def word_less_nat_alt)
  have ur: "unat (r * 2) = 2 * unat r" using r16 by (simp add: unat_word_ariths)
  have r0: "r = 0 \<longleftrightarrow> unat r = 0" by (rule unat_eq_zero [symmetric])
  have imm: "get_bits ins 7 0 = take_bit 8 ins" by (simp add: get_bits_eq)
  have r': "ucast (get_bits ins 11 8) = r" by (simp add: r_def rs_field_def)
  have rn: "rn_field ins < 16" by (simp add: rn_field_def)
  show ?thesis
    using assms rn
    by (cases "unat r = 0") (simp_all only: data_processing_immediate_operand_def Let_def imm r' r0 ur
      ror_eq_word_rotr rn_field_def [symmetric], simp_all add: seen_read carry_in_eq dp_operand_def
      operand_result_def Let_def flip: r_def)
qed

lemma only_traced_dp [simp]:
  assumes "only_traced p q"
  shows "dp_operand q ins = dp_operand p ins" "dp_supported q ins = dp_supported p ins"
    "dp_used q ins = dp_used p ins"
  using only_tracedD(2) [OF assms] seen_only_traced [OF assms]
  by (simp_all only: dp_used_def dp_operand_def dp_supported_def dp_amount_def)

lemma operand_function_eq:
  assumes "ok_core p"
  shows "returns (operand_function ins ins f (ov, of_bool (bit (cpsr p) C_bit), cf) p) (\<lambda>(v, fl, q). only_traced p q \<and>
    (v, fl) = operand_result (fst (dp_used p ins)) (seen p (rn_field ins)) f (of_bool (snd (dp_used p ins))))"
proof (cases "bit ins 25")
  case True
  then show ?thesis
    using data_processing_immediate_operand_eq [OF assms True, of f "(ov, of_bool (bit (cpsr p) C_bit), cf)"]
    by (simp add: operand_function_def dp_used_def)
next
  case False
  have "returns (shift_operand (dp_shift_kind ins) ins (seen p (ucast (get_bits ins 3 0)))
      (of_bool (bit (cpsr p) C_bit)) p') (\<lambda>(v, c, q). only_traced p' q \<and>
      v = fst (dp_used p ins) \<and> c = of_bool (snd (dp_used p ins)))" if "only_traced p p'" for p'
    using shift_operand_dp [of p' ins] assms False that
    by (simp add: only_tracedD seen_only_traced)
  from data_processing_operand_from_shift [OF assms this] False show ?thesis
    by (simp add: operand_function_def)
qed

section \<open>The effect of the handler\<close>

text \<open>
  The state the handler leaves, up to the trace, as one equation. \<open>dp_tests\<close> are the operations
  without destination, \<open>dp_arith\<close> those that set the overflow flag, \<open>dp_sub\<close> the subtractions.
\<close>

definition opcode_of :: "u32 \<Rightarrow> u8" where
  "opcode_of ins = ucast (get_bits ins 24 21)"

definition rd_field :: "u32 \<Rightarrow> u8" where
  "rd_field ins = ucast (get_bits ins 15 12)"

definition dp_operator :: "u8 \<Rightarrow> u32 \<Rightarrow> u32 \<Rightarrow> u32" where
  "dp_operator opcode =
     [logical_and, logical_eor, sub, rsb, add, add, sub, rsb, logical_and, logical_eor, sub, add,
      logical_or, mov, bic, mov] ! unat opcode"

definition dp_tests :: "u8 set" where "dp_tests = {8, 9, 10, 11}"
definition dp_sub :: "u8 set" where "dp_sub = {2, 3, 6, 7, 10}"
definition dp_arith :: "u8 set" where "dp_arith = {2, 3, 4, 5, 6, 7, 10, 11}"

definition dp_value :: "u8 \<Rightarrow> u32 \<Rightarrow> u32 \<Rightarrow> bool \<Rightarrow> u32" where
  "dp_value opcode rn opd c =
     dp_operator opcode rn opd +
     (if opcode = 5 then of_bool c else if opcode \<in> {6, 7} then of_bool c + 1 else 0)"

definition dp_carry :: "u8 \<Rightarrow> u32 \<Rightarrow> u32 \<Rightarrow> int \<Rightarrow> int" where
  "dp_carry opcode rn opd sc =
     (let cf = carry_from opd rn (dp_operator opcode rn opd) in
      if opcode \<in> dp_sub then NOT cf else if opcode \<in> dp_arith then cf else sc)"

definition dp_flags :: "u8 \<Rightarrow> u32 \<Rightarrow> u32 \<Rightarrow> int \<Rightarrow> u32 \<Rightarrow> u32" where
  "dp_flags opcode rn opd sc v =
     ZNCV_value (overflow_of opd rn (dp_operator opcode rn opd)) (dp_carry opcode rn opd sc)
       (dp_value opcode rn opd (bit v C_bit)) (of_bool (opcode \<in> dp_arith)) 1 v"

definition result_state :: "u32 \<Rightarrow> u8 \<Rightarrow> u32 \<Rightarrow> u32 \<Rightarrow> arm_core \<Rightarrow> arm_core" where
  "result_state s rd v fl p =
     (let q = set_reg rd v p in
      if s = 0 then q
      else if rd \<noteq> 15 then set_cpsr fl q
      else if core_mode p \<noteq> USR \<and> core_mode p \<noteq> SYS then set_cpsr (spsr_val p) q
      else q)"

definition dp_state :: "u32 \<Rightarrow> u32 \<Rightarrow> int \<Rightarrow> arm_core \<Rightarrow> arm_core" where
  "dp_state ins opd sc p =
     (let opcode = opcode_of ins; rn = seen p (rn_field ins);
          v = dp_value opcode rn opd (bit (cpsr p) C_bit);
          fl = dp_flags opcode rn opd sc (cpsr p)
      in if opcode \<in> dp_tests then set_cpsr fl p
         else result_state (get_bit ins 20) (rd_field ins) (if opcode = 15 then NOT v else v) fl p)"

lemma write_result_eq:
  assumes "ok_core p" "only_traced p q" "rd < 16"
  shows "returns (write_result s rd w ov c v oV cv q) (\<lambda>(r, q').
    r = 0 \<and> only_traced (result_state s rd w (ZNCV_value ov c v oV 1 cv) p) q')"
proof -
  note eq = only_tracedD [OF assms(2)]
  show ?thesis
    using assms eq only_traced_sets
    by (auto simp: write_result_def core_eqs arm_current_mode_has_spsr_eq ZNCV_update_def result_state_def Let_def)
qed

lemma opcode_cases:
  assumes "x < (16 :: u8)"
  obtains "x = 0" | "x = 1" | "x = 2" | "x = 3" | "x = 4" | "x = 5" | "x = 6" | "x = 7"
    | "x = 8" | "x = 9" | "x = 10" | "x = 11" | "x = 12" | "x = 13" | "x = 14" | "x = 15"
proof -
  have "{0..<16 :: nat} = {0, 1, 2, 3, 4, 5, 6, 7, 8, 9, 10, 11, 12, 13, 14, 15}" by code_simp
  moreover have "unat x \<in> {0..<16}" using assms by (simp add: word_less_nat_alt)
  ultimately have "unat x \<in> {0, 1, 2, 3, 4, 5, 6, 7, 8, 9, 10, 11, 12, 13, 14, 15}" by simp
  then show ?thesis using that by (elim insertE) (simp_all add: word_unat_eq_iff)
qed

lemma opcode_less: "opcode_of ins < 16"
  using get_bits_less [of 24 21 ins] by (simp add: opcode_of_def word_less_nat_alt unat_ucast_8)

lemma rd_less [simp]: "rd_field ins < 16" "rn_field ins < 16"
  by (simp_all add: rd_field_def rn_field_def)

text \<open>The same case analysis for any fact the operand function establishes.\<close>

lemma dp_effect_from_operand:
  assumes "ok_core p"
    "\<And>p' f ov cf. only_traced p p' \<Longrightarrow>
       returns (operand_function ins ins f (ov, of_bool (bit (cpsr p) C_bit), cf) p') (\<lambda>(v, fl, q). only_traced p q \<and>
         (\<exists>opd sc. P opd sc \<and> (v, fl) = operand_result opd (seen p (rn_field ins)) f sc))"
  shows "returns (arm_data_processing_shift junk ins p)
    (\<lambda>(r, q). r = 0 \<and> (\<exists>opd sc. P opd sc \<and> only_traced (dp_state ins opd sc p) q))"
proof -
  define p' where "p' = traced_reg READ CPSR 0 (cpsr p) p"
  define fl where "fl = (of_bool (bit (cpsr p) V_bit) :: int, of_bool (bit (cpsr p) C_bit) :: int, sint junk)"
  have p': "only_traced p p'" by (simp add: p'_def)
  have rd: "arm_read_cpsr p = Some (cpsr p, p')" by (simp add: arm_read_cpsr_eq p'_def)
  define rn where "rn = seen p (rn_field ins)"
  have "\<forall>f. \<exists>opd sc q. operand_function ins ins f fl p' =
      Some (f rn opd, (overflow_of opd rn (f rn opd), sc, carry_from opd rn (f rn opd)), q) \<and>
      P opd sc \<and> only_traced p q"
    using assms(2) [OF p'] by (fastforce simp: returns_iff fl_def operand_result_def rn_def)
  then obtain opd sc Q where op: "\<And>f. operand_function ins ins f fl p' = Some (f rn (opd f),
      (overflow_of (opd f) rn (f rn (opd f)), sc f, carry_from (opd f) rn (f rn (opd f))), Q f)"
    and P: "\<And>f. P (opd f) (sc f)" and Q: "\<And>f. only_traced p (Q f)"
    by metis
  have fl: "(uint (get_bit (cpsr p) V_bit), uint (get_bit (cpsr p) C_bit), sint junk) = fl"
    by (simp add: fl_def)
  have cp: "arm_read_cpsr (Q f) = Some (cpsr p, traced_reg READ CPSR 0 (cpsr p) (Q f))" for f
    by (simp add: arm_read_cpsr_eq only_tracedD [OF Q])
  define s where "s = get_bit ins 20"
  note result = returns_mono [OF write_result_eq [OF assms(1) _ rd_less(1)]]
  have res: "returns (write_result s (rd_field ins) w ov c v oV (cpsr p) q) 
      (\<lambda>(r, q). r = 0 \<and> (\<exists>opd sc. P opd sc \<and> only_traced (dp_state ins opd sc p) q))"
    if "q = Q g \<or> q = traced_reg READ CPSR 0 (cpsr p) (Q g)" "dp_state ins (opd g) (sc g) p =
      result_state s (rd_field ins) w (ZNCV_value ov c v oV 1 (cpsr p)) p"
    for w ov c v oV q g
    by (rule result) (use that P [of g] Q [of g] in \<open>auto intro!: exI [of _ "opd g"] exI [of _ "sc g"]\<close>)
  note res = res [OF disjI1 [OF refl]] res [OF disjI2 [OF refl]]
  have tst: "returns (ZNCV_update ov c v oV 1 (cpsr p) (Q g)) 
      (\<lambda>q. \<exists>opd sc. P opd sc \<and> only_traced (dp_state ins opd sc p) q)"
    if "dp_state ins (opd g) (sc g) p = set_cpsr (ZNCV_value ov c v oV 1 (cpsr p)) p" for ov c v oV g
    using that P [of g] only_traced_sets(2) [OF Q [of g]] assms(1)
    by (auto simp: ZNCV_update_def core_eqs only_tracedD [OF Q] intro!: exI [of _ "opd g"] exI [of _ "sc g"])
  note simps = arm_data_processing_shift_def Let_def rd opcode_of_def [symmetric] rd_field_def [symmetric]
    fl op cp s_def [symmetric]
  note state = dp_state_def dp_tests_def dp_sub_def dp_arith_def
    dp_value_def dp_carry_def dp_flags_def dp_operator_def Let_def rn_def [symmetric] s_def [symmetric]
  show ?thesis
    using opcode_less [of ins]
    by (cases rule: opcode_cases, simp_all add: simps del: get_bit_eq) (rule res tst; simp only: state; simp)+
qed

lemma dp_effect:
  assumes "ok_core p"
  shows "returns (arm_data_processing_shift junk ins p) (\<lambda>(r, q). r = 0 \<and>
    only_traced (dp_state ins (fst (dp_used p ins)) (of_bool (snd (dp_used p ins))) p) q)"
proof -
  have "returns (arm_data_processing_shift junk ins p) (\<lambda>(r, q). r = 0 \<and> (\<exists>opd sc.
      (opd = fst (dp_used p ins) \<and> sc = of_bool (snd (dp_used p ins))) \<and>
      only_traced (dp_state ins opd sc p) q))"
  proof (rule dp_effect_from_operand [OF assms], goal_cases)
    case (1 p' f ov cf)
    then have "ok_core p'" using assms by (simp_all add: only_tracedD)
    from operand_function_eq [OF this, of ins f ov cf] 1 show ?case
      by (auto simp: only_tracedD seen_only_traced elim!: returns_mono dest: only_traced_trans)
  qed
  then show ?thesis by (auto elim!: returns_mono)
qed

lemma dp_returns:
  assumes "ok_core p"
  shows "returns (arm_data_processing_shift junk ins p) (\<lambda>(r, q). r = 0 \<and>
    (\<exists>opd sc. only_traced (dp_state ins opd sc p) q))"
  by (rule returns_mono [OF dp_effect [OF assms]]) blast

lemma mode_of_ZNCV [simp]: "mode_of (ZNCV_value ov c v oV Ca cv) = mode_of cv"
  by (simp add: ZNCV_value_def Let_def)

section \<open>Results and flags\<close>

text \<open>The table of the operations of the architecture.\<close>

definition dp_arch :: "u8 \<Rightarrow> u32 \<Rightarrow> u32 \<Rightarrow> bool \<Rightarrow> u32" where
  "dp_arch opcode rn opd c =
     [rn AND opd, rn XOR opd, rn - opd, opd - rn, rn + opd, rn + opd + of_bool c,
      rn - opd - of_bool (\<not> c), opd - rn - of_bool (\<not> c),
      rn AND opd, rn XOR opd, rn - opd, rn + opd, rn OR opd, opd, rn AND NOT opd, NOT opd] ! unat opcode"

lemma operators:
  "logical_and x y = x AND y" "logical_eor x y = x XOR y" "sub x y = x - y" "rsb x y = y - x"
  "add x y = x + y" "logical_or x y = x OR y" "mov x y = y" "bic x y = x AND NOT y"
  by (simp_all add: logical_and_def logical_eor_def sub_def rsb_def add_def logical_or_def mov_def
      bic_def not_eq_complement)

lemma dp_value_arch:
  assumes "opcode < 16"
  shows "(if opcode = 15 then NOT (dp_value opcode rn opd c) else dp_value opcode rn opd c) =
    dp_arch opcode rn opd c + (if opcode \<in> {6, 7} then 2 else 0)"
  using assms
  by (cases rule: opcode_cases) (simp_all add: dp_value_def dp_arch_def dp_operator_def operators)

abbreviation dp_rn :: "arm_core \<Rightarrow> u32 \<Rightarrow> u32" where
  "dp_rn p ins \<equiv> seen p (rn_field ins)"

abbreviation dp_opd :: "arm_core \<Rightarrow> u32 \<Rightarrow> u32" where
  "dp_opd p ins \<equiv> fst (dp_used p ins)"

lemma dp_result_state:
  assumes "ok_core p" "opcode_of ins \<notin> dp_tests"
  shows "returns (arm_data_processing_shift junk ins p) (\<lambda>(r, q). r = 0 \<and> only_traced
    (result_state (get_bit ins 20) (rd_field ins)
      (dp_arch (opcode_of ins) (dp_rn p ins) (dp_opd p ins) (bit (cpsr p) C_bit) +
        (if opcode_of ins \<in> {6, 7} then 2 else 0))
      (dp_flags (opcode_of ins) (dp_rn p ins) (dp_opd p ins) (of_bool (snd (dp_used p ins))) (cpsr p)) p) q)"
  by (rule returns_mono [OF dp_effect [OF assms(1)]])
    (use dp_value_arch [OF opcode_less [of ins]] assms(2) in \<open>auto simp: dp_state_def Let_def\<close>)

lemma result_state_written:
  assumes "ok_core p" "only_traced (result_state (get_bit ins 20) rd w fl p) q" "rd < 16"
    "mode_of fl = mode_of (cpsr p)" "\<not> (bit ins 20 \<and> rd = 15)"
  shows "ok_core q" "mem q = mem p" "same_regs_but {rd} p q" "reg_val q rd = w" "\<not> bit ins 20 \<Longrightarrow> cpsr q = cpsr p"
  using only_tracedD [OF assms(2)] assms
  by (auto simp: result_state_def Let_def same_regs_but_def)

text \<open>
  C7. Every data-processing instruction with a destination, except with bit S and the program
  counter as destination (see return_from_exception), writes to Rd the value the architecture
  gives for its operator, two more for SBC and RSC, applied to Rn and the operand the code
  computes, which is stated for every encoding (a count is taken modulo 32, ROR by an immediate
  0 does not rotate) and proved equal to the shifter operand of the architecture for all
  immediates and for all shifts except LSR and ASR by an immediate 0 (that is #32), ROR by an
  immediate 0 (RRX), LSL and LSR by a register of 32 or more and ASR by a register whose low
  byte is 0 or at least 32; it changes no other register and no memory, and leaves the status
  register alone unless bit S is set.
\<close>

theorem data_processing_result:
  assumes "ok_core p" "opcode_of ins \<notin> dp_tests" "\<not> (bit ins 20 \<and> rd_field ins = 15)"
  shows "\<exists>q. arm_data_processing_shift junk ins p = Some (0, q) \<and> ok_core q \<and> mem q = mem p \<and>
    same_regs_but {rd_field ins} p q \<and>
    reg_val q (rd_field ins) =
      dp_arch (opcode_of ins) (dp_rn p ins) (fst (dp_used p ins)) (bit (cpsr p) C_bit) +
        (if opcode_of ins \<in> {6, 7} then 2 else 0) \<and>
    (dp_supported p ins \<longrightarrow> dp_used p ins = dp_operand p ins) \<and>
    (\<not> bit ins 20 \<longrightarrow> cpsr q = cpsr p)"
proof -
  obtain q where q: "arm_data_processing_shift junk ins p = Some (0, q)" "only_traced
    (result_state (get_bit ins 20) (rd_field ins)
      (dp_arch (opcode_of ins) (dp_rn p ins) (dp_opd p ins) (bit (cpsr p) C_bit) +
        (if opcode_of ins \<in> {6, 7} then 2 else 0))
      (dp_flags (opcode_of ins) (dp_rn p ins) (dp_opd p ins) (of_bool (snd (dp_used p ins))) (cpsr p)) p) q"
    using dp_result_state [OF assms(1,2), of junk] by (auto simp: returns_iff)
  show ?thesis
    using q(1) result_state_written [OF assms(1) q(2)] assms(3) dp_used_supported [of p ins]
    by (auto simp: dp_flags_def simp del: insert_iff)
qed

theorem data_processing_result_witness:
  "\<exists>q. arm_data_processing_shift 0 0xE0901101 example_core = Some (0, q) \<and>
    reg_val q 1 = 0x10 + 0x40"
proof -
  have h: "opcode_of 0xE0901101 \<notin> dp_tests" "\<not> (bit (0xE0901101 :: u32) 20 \<and> rd_field 0xE0901101 = 15)"
    by code_simp+
  have v: "rd_field 0xE0901101 = 1" "dp_arch (opcode_of 0xE0901101) (dp_rn example_core 0xE0901101)
      (fst (dp_used example_core 0xE0901101)) (bit (cpsr example_core) C_bit) +
      (if opcode_of 0xE0901101 \<in> {6, 7} then 2 else 0) = 0x10 + 0x40" by code_simp+
  show ?thesis using data_processing_result [OF ok_example_core h, of 0] by (auto simp only: v)
qed

lemma bit_ZNCV_value:
  assumes "i < 32"
  shows "bit (ZNCV_value ov c v oV Ca cv) i \<longleftrightarrow>
    (if i = Z_bit then v = 0 else if i = N_bit then bit v 31
     else if i = C_bit \<and> Ca \<noteq> 0 then c \<noteq> 0 else if i = V_bit \<and> oV \<noteq> 0 then ov \<noteq> 0 else bit cv i)"
  using assms by (auto simp: ZNCV_value_def Let_def bits)

lemma carry_from_add: "carry_from opd rn (rn + opd) = of_bool (2 ^ 32 \<le> unat rn + unat opd)"
proof -
  have "unat (rn + opd) = (if 2 ^ 32 \<le> unat rn + unat opd then unat rn + unat opd - 2 ^ 32 else unat rn + unat opd)"
    using unsigned_less [of rn, where 'a = nat] unsigned_less [of opd, where 'a = nat]
    by (simp add: unat_word_ariths le_mod_geq)
  then show ?thesis
    using unsigned_less [of rn, where 'a = nat] unsigned_less [of opd, where 'a = nat]
    by (auto simp: carry_from_def word_less_nat_alt)
qed

lemma overflow_of_add: "overflow_of opd rn (rn + opd) = of_bool (sint (rn + opd) \<noteq> sint rn + sint opd)"
proof -
  have "unat (rn + opd) = (if 2 ^ 32 \<le> unat rn + unat opd then unat rn + unat opd - 2 ^ 32 else unat rn + unat opd)"
    using unsigned_less [of rn, where 'a = nat] unsigned_less [of opd, where 'a = nat]
    by (simp add: unat_word_ariths le_mod_geq)
  then show ?thesis
    using unsigned_less [of rn, where 'a = nat] unsigned_less [of opd, where 'a = nat]
    by (auto simp: overflow_of_def sint_u32 bit_31_iff)
qed

text \<open>Instructions that set the flags from their result.\<close>

definition sets_flags :: "u32 \<Rightarrow> bool" where
  "sets_flags ins \<longleftrightarrow> opcode_of ins \<in> dp_tests \<or> bit ins 20 \<and> rd_field ins \<noteq> 15"

lemma dp_cpsr:
  assumes "ok_core p" "sets_flags ins"
  shows "returns (arm_data_processing_shift junk ins p) (\<lambda>(r, q). r = 0 \<and> ok_core q \<and> mem q = mem p \<and>
    cpsr q = dp_flags (opcode_of ins) (dp_rn p ins) (dp_opd p ins) (of_bool (snd (dp_used p ins))) (cpsr p) \<and>
    (opcode_of ins \<in> dp_tests \<longrightarrow> same_regs_but {} p q))"
proof (rule returns_mono [OF dp_effect [OF assms(1)]], clarify)
  fix q
  assume q: "only_traced (dp_state ins (dp_opd p ins) (of_bool (snd (dp_used p ins))) p) q"
  show "(0 :: int) = 0 \<and> ok_core q \<and> mem q = mem p \<and>
    cpsr q = dp_flags (opcode_of ins) (dp_rn p ins) (dp_opd p ins) (of_bool (snd (dp_used p ins))) (cpsr p) \<and>
    (opcode_of ins \<in> dp_tests \<longrightarrow> same_regs_but {} p q)"
    using only_tracedD [OF q] assms
    by (cases "opcode_of ins \<in> dp_tests")
      (simp_all add: dp_state_def result_state_def Let_def sets_flags_def same_regs_but_def dp_flags_def)
qed

theorem test_instructions_keep_registers:
  assumes "ok_core p" "opcode_of ins \<in> dp_tests"
  shows "\<exists>q. arm_data_processing_shift junk ins p = Some (0, q) \<and> ok_core q \<and> mem q = mem p \<and>
    same_regs_but {} p q \<and> (\<forall>i < V_bit. bit (cpsr q) i = bit (cpsr p) i)"
  using dp_cpsr [OF assms(1), of ins junk] assms(2)
  by (auto simp: sets_flags_def returns_iff dp_flags_def bit_ZNCV_value)

theorem test_instructions_keep_registers_witness:
  "\<exists>q. arm_data_processing_shift 0 0xE3500010 example_core = Some (0, q) \<and> ok_core q \<and>
    mem q = mem example_core \<and> same_regs_but {} example_core q \<and>
    (\<forall>i < V_bit. bit (cpsr q) i = bit (cpsr example_core) i)"
  by (rule test_instructions_keep_registers; code_simp)

text \<open>
  C33. A logical or move instruction that sets the flags (a test, or with S and a destination
  other than the program counter) sets N and Z from its result on the operand the code computes
  (that of the architecture for the immediates and for the shifts named under
  data_processing_result) and C from the shifter's carry, and keeps V and the rest of the
  status; MVN sets N and Z from its operand and not from the complement it writes.
\<close>

theorem logical_flags:
  assumes "ok_core p" "sets_flags ins" "opcode_of ins \<in> {0, 1, 8, 9, 12, 13, 14, 15}"
  shows "\<exists>q. arm_data_processing_shift junk ins p = Some (0, q) \<and>
    (let y = fst (dp_used p ins);
         r = (if opcode_of ins = 15 then y
              else dp_arch (opcode_of ins) (dp_rn p ins) y (bit (cpsr p) C_bit)) in
      (bit (cpsr q) Z_bit \<longleftrightarrow> r = 0) \<and> (bit (cpsr q) N_bit \<longleftrightarrow> bit r 31) \<and>
      (bit (cpsr q) C_bit \<longleftrightarrow> snd (dp_used p ins)) \<and>
      (\<forall>i < C_bit. bit (cpsr q) i = bit (cpsr p) i)) \<and>
    (dp_supported p ins \<longrightarrow> dp_used p ins = dp_operand p ins)"
proof -
  have v: "dp_value (opcode_of ins) (dp_rn p ins) (dp_opd p ins) (bit (cpsr p) C_bit) =
    (if opcode_of ins = 15 then dp_opd p ins
     else dp_arch (opcode_of ins) (dp_rn p ins) (dp_opd p ins) (bit (cpsr p) C_bit))"
    using dp_value_arch [OF opcode_less [of ins], of "dp_rn p ins" "dp_opd p ins" "bit (cpsr p) C_bit"] assms(3)
    by (auto simp: dp_value_def dp_operator_def operators)
  have "opcode_of ins \<notin> dp_arith" "opcode_of ins \<notin> dp_sub"
    using assms(3) by (auto simp: dp_arith_def dp_sub_def)
  with dp_cpsr [OF assms(1,2), of junk] dp_used_supported [of p ins] show ?thesis
    by (auto simp: returns_iff dp_flags_def bit_ZNCV_value dp_carry_def Let_def v)
qed

theorem logical_flags_witness:
  "\<exists>q. arm_data_processing_shift 0 0xE3B00000 example_core = Some (0, q) \<and> bit (cpsr q) Z_bit"
proof -
  have h: "sets_flags 0xE3B00000" "opcode_of 0xE3B00000 \<in> {0, 1, 8, 9, 12, 13, 14, 15}" by code_simp+
  have v: "(if opcode_of 0xE3B00000 = 15 then fst (dp_used example_core 0xE3B00000)
      else dp_arch (opcode_of 0xE3B00000) (dp_rn example_core 0xE3B00000)
        (fst (dp_used example_core 0xE3B00000)) (bit (cpsr example_core) C_bit)) = 0" by code_simp
  show ?thesis using logical_flags [OF ok_example_core h, of 0] by (auto simp only: v Let_def)
qed

text \<open>
  C32. ADD with S and a destination other than the program counter, and CMN, set N and Z from
  the sum of Rn and the operand the code computes (that of the architecture for the immediates
  and for the shifts named under data_processing_result), C when the unsigned sum does not fit
  32 bits, V when the signed sum does not fit, and keep the rest of the status.
\<close>

theorem addition_flags:
  assumes "ok_core p" "sets_flags ins" "opcode_of ins = 4 \<or> opcode_of ins = 11"
  shows "\<exists>q. arm_data_processing_shift junk ins p = Some (0, q) \<and>
    (let x = dp_rn p ins; y = fst (dp_used p ins) in
      (bit (cpsr q) Z_bit \<longleftrightarrow> x + y = 0) \<and> (bit (cpsr q) N_bit \<longleftrightarrow> bit (x + y) 31) \<and>
      (bit (cpsr q) C_bit \<longleftrightarrow> 2 ^ 32 \<le> unat x + unat y) \<and>
      (bit (cpsr q) V_bit \<longleftrightarrow> sint (x + y) \<noteq> sint x + sint y) \<and>
      (\<forall>i < V_bit. bit (cpsr q) i = bit (cpsr p) i)) \<and>
    (dp_supported p ins \<longrightarrow> dp_used p ins = dp_operand p ins)"
proof -
  have op: "dp_operator (opcode_of ins) (dp_rn p ins) (dp_opd p ins) = dp_rn p ins + dp_opd p ins"
    "opcode_of ins \<in> dp_arith" "opcode_of ins \<notin> dp_sub" "opcode_of ins \<notin> {5, 6, 7}"
    using assms(3) by (auto simp: dp_operator_def operators dp_arith_def dp_sub_def)
  with dp_cpsr [OF assms(1,2), of junk] dp_used_supported [of p ins] show ?thesis
    by (auto simp: returns_iff dp_flags_def bit_ZNCV_value dp_carry_def dp_value_def Let_def
        carry_from_add overflow_of_add)
qed

theorem addition_flags_witness:
  "\<exists>q. arm_data_processing_shift 0 0xE0900001 example_core = Some (0, q) \<and> \<not> bit (cpsr q) C_bit"
proof -
  have h: "sets_flags 0xE0900001" "opcode_of 0xE0900001 = 4 \<or> opcode_of 0xE0900001 = 11" by code_simp+
  have v: "\<not> 2 ^ 32 \<le> unat (dp_rn example_core 0xE0900001) + unat (fst (dp_used example_core 0xE0900001))"
  proof -
    have "dp_rn example_core 0xE0900001 = 0x10" "fst (dp_used example_core 0xE0900001) = 0x10" by code_simp+
    then show ?thesis by simp
  qed
  show ?thesis using addition_flags [OF ok_example_core h, of 0] v by (auto simp only: Let_def)
qed

text \<open>
  C40. Every subtraction or comparison that sets the flags (CMP, or SUB, RSB, SBC, RSC with S
  and a destination other than the program counter) sets C, whatever its operands: the
  complement of an int that is 0 or 1 is never zero.
\<close>

theorem subtraction_always_sets_carry:
  assumes "ok_core p" "sets_flags ins" "opcode_of ins \<in> dp_sub"
  shows "\<exists>q. arm_data_processing_shift junk ins p = Some (0, q) \<and> bit (cpsr q) C_bit"
proof -
  have "NOT (carry_from x y z) \<noteq> 0" for x y z by (simp add: carry_from_def)
  moreover have "opcode_of ins \<in> dp_arith" using assms(3) by (auto simp: dp_arith_def dp_sub_def)
  ultimately show ?thesis
    using dp_cpsr [OF assms(1,2), of junk] assms(3)
    by (auto simp: returns_iff dp_flags_def bit_ZNCV_value dp_carry_def Let_def)
qed

theorem subtraction_always_sets_carry_witness:
  "\<exists>q. arm_data_processing_shift 0 0xE35000FF example_core = Some (0, q) \<and> bit (cpsr q) C_bit"
  by (rule subtraction_always_sets_carry; code_simp)

theorem subtract_with_carry_result:
  assumes "ok_core p" "opcode_of ins = 6 \<or> opcode_of ins = 7" "\<not> (bit ins 20 \<and> rd_field ins = 15)"
  shows "\<exists>q. arm_data_processing_shift junk ins p = Some (0, q) \<and>
    reg_val q (rd_field ins) =
      dp_arch (opcode_of ins) (dp_rn p ins) (fst (dp_used p ins)) (bit (cpsr p) C_bit) + 2"
proof -
  have t: "opcode_of ins \<notin> dp_tests" "opcode_of ins \<in> {6, 7}" using assms(2) by (auto simp: dp_tests_def)
  obtain q where q: "arm_data_processing_shift junk ins p = Some (0, q)" "only_traced
    (result_state (get_bit ins 20) (rd_field ins)
      (dp_arch (opcode_of ins) (dp_rn p ins) (dp_opd p ins) (bit (cpsr p) C_bit) +
        (if opcode_of ins \<in> {6, 7} then 2 else 0))
      (dp_flags (opcode_of ins) (dp_rn p ins) (dp_opd p ins) (of_bool (snd (dp_used p ins))) (cpsr p)) p) q"
    using dp_result_state [OF assms(1) t(1), of junk] by (auto simp: returns_iff)
  show ?thesis
    using q(1) result_state_written(4) [OF assms(1) q(2)] assms(3) t(2)
    by (simp add: dp_flags_def del: insert_iff)
qed

theorem subtract_with_carry_result_witness:
  "\<exists>q. arm_data_processing_shift 0 0xE0C02001 example_core = Some (0, q) \<and>
    reg_val q (rd_field 0xE0C02001) = dp_arch (opcode_of 0xE0C02001) (dp_rn example_core 0xE0C02001)
      (fst (dp_used example_core 0xE0C02001)) (bit (cpsr example_core) C_bit) + 2"
  by (rule subtract_with_carry_result; code_simp)

text \<open>
  C29. A data-processing instruction with S and the program counter as destination (tests and
  comparisons have no destination) branches to the value of its operator, two more for SBC and
  RSC, applied to Rn and the operand the code computes (that of the architecture for the
  immediates and for the shifts named under data_processing_result), and restores the status
  from the saved status register of the mode, if that holds a valid mode; in user and system
  mode, which have none, the status is kept.
\<close>

theorem return_from_exception:
  assumes "ok_core p" "opcode_of ins \<notin> dp_tests" "bit ins 20" "rd_field ins = 15"
    "core_mode p \<notin> {USR, SYS} \<longrightarrow> valid_mode (mode_of (spsr_val p))"
  shows "\<exists>q. arm_data_processing_shift junk ins p = Some (0, q) \<and> ok_core q \<and> mem q = mem p \<and>
    cpsr q = (if core_mode p \<in> {USR, SYS} then cpsr p else spsr_val p) \<and>
    reg_val q 15 = dp_arch (opcode_of ins) (dp_rn p ins) (fst (dp_used p ins)) (bit (cpsr p) C_bit) +
      (if opcode_of ins \<in> {6, 7} then 2 else 0) \<and>
    (dp_supported p ins \<longrightarrow> dp_used p ins = dp_operand p ins)"
proof -
  obtain q where q: "arm_data_processing_shift junk ins p = Some (0, q)" "only_traced
    (result_state (get_bit ins 20) (rd_field ins)
      (dp_arch (opcode_of ins) (dp_rn p ins) (dp_opd p ins) (bit (cpsr p) C_bit) +
        (if opcode_of ins \<in> {6, 7} then 2 else 0))
      (dp_flags (opcode_of ins) (dp_rn p ins) (dp_opd p ins) (of_bool (snd (dp_used p ins))) (cpsr p)) p) q"
    using dp_result_state [OF assms(1,2), of junk] by (auto simp: returns_iff)
  show ?thesis
    using q(1) only_tracedD [OF q(2)] assms dp_used_supported [of p ins]
    by (cases "core_mode p \<in> {USR, SYS}") (auto simp: result_state_def Let_def)
qed

theorem return_from_exception_witness:
  "\<exists>q. arm_data_processing_shift 0 0xE1B0F00E example_core = Some (0, q) \<and> cpsr q = 0x10 \<and> reg_val q 15 = 0x10"
proof -
  have h: "opcode_of 0xE1B0F00E \<notin> dp_tests" "bit (0xE1B0F00E :: u32) 20" "rd_field 0xE1B0F00E = 15"
    "core_mode example_core \<notin> {USR, SYS} \<longrightarrow> valid_mode (mode_of (spsr_val example_core))" by code_simp+
  have v: "(if core_mode example_core \<in> {USR, SYS} then cpsr example_core else spsr_val example_core) = 0x10"
    "dp_arch (opcode_of 0xE1B0F00E) (dp_rn example_core 0xE1B0F00E)
      (fst (dp_used example_core 0xE1B0F00E)) (bit (cpsr example_core) C_bit) +
      (if opcode_of 0xE1B0F00E \<in> {6, 7} then 2 else 0) = 0x10" by code_simp+
  show ?thesis using return_from_exception [OF ok_example_core h, of 0] by (auto simp only: v)
qed

end
