(* ===== verification/Arm_Load_Store.thy ===== *)
theory Arm_Load_Store
  imports Arm_Condition Arm_Shifter
begin

text \<open>
  \<^verbatim>\<open>arm_load_store.h\<close> and \<^verbatim>\<open>arm_load_store.c\<close>: the addressing modes, the single and the multiple
  transfers. A C variable that is passed to a memory read before it has a value starts with an
  unknown value, a parameter of the model (\<open>junk\<close>).
\<close>

section \<open>Addressing modes\<close>

definition numberOfSetBits :: "u16 \<Rightarrow> int" where
  "numberOfSetBits champ =
     fold (\<lambda>i count. if get_bit (ucast champ) i = 1 then count + 1 else count) [0..<16] 0"

definition shift_index :: "u32 \<Rightarrow> u32 \<Rightarrow> arm_core \<Rightarrow> (u32 \<times> arm_core) option" where
  "shift_index ins valRm p =
     (let shift_type = get_bits ins 6 5; shift_value = (ucast (get_bits ins 11 7) :: u8) in
      if shift_type = 0 then Some (c_shl valRm (unat shift_value), p)
      else if shift_type = 1 then
        Some (if shift_value = 0 then 0 else c_shr valRm (unat shift_value), p)
      else if shift_type = 2 then
        Some (if shift_value = 0 then (if get_bit valRm 31 = 1 then 0xFFFFFFFF else 0)
              else asr valRm shift_value, p)
      else if shift_type = 3 then
        (if shift_value = 0 then do {
           (c, p) \<leftarrow> arm_read_cpsr p;
           Some (c_shl (get_bit c C_bit) 31 OR c_shr valRm 1, p)
         } else Some (ror valRm shift_value, p))
      else Some (- 1, p))"

text \<open>\<open>offset u base x\<close> is \<^verbatim>\<open>u == 1 ? base + x : base - x\<close>.\<close>

definition offset :: "u32 \<Rightarrow> u32 \<Rightarrow> u32 \<Rightarrow> u32" where
  "offset u base x = (if u = 1 then base + x else base - x)"

definition getAddressModeHalf :: "u32 \<Rightarrow> arm_core \<Rightarrow> (u32 \<times> arm_core) option" where
  "getAddressModeHalf ins p = do {
     let is_post = get_bit ins 24 = 0;
     let type = get_bits ins 22 21;
     let u = get_bit ins 23;
     let rn = ucast (get_bits ins 19 16);
     (valRn, p) \<leftarrow> arm_read_register rn p;
     let HOffset = (ucast (get_bits ins 11 8) :: u8);
     let LOffset = (ucast (get_bits ins 3 0) :: u8);
     let offset_8 = (ucast (push_bit 4 HOffset OR LOffset) :: u32);
     if is_post \<and> type = 0 then do {
       let address = valRn;
       (c, p) \<leftarrow> condition ins p;
       if c = 1 then do {
         (valRm, p) \<leftarrow> arm_read_register LOffset p;
         p \<leftarrow> arm_write_register rn (offset u valRn valRm) p;
         Some (address, p)
       } else Some (- 1, p) }
     else if is_post \<and> type = 2 then do {
       let address = valRn;
       (c, p) \<leftarrow> condition ins p;
       if c = 1 then do {
         p \<leftarrow> arm_write_register rn (offset u valRn offset_8) p;
         Some (address, p)
       } else Some (- 1, p) }
     else if \<not> is_post \<and> type = 0 then do {
       (valRm, p) \<leftarrow> arm_read_register LOffset p;
       Some (offset u valRn valRm, p) }
     else if \<not> is_post \<and> type = 1 then do {
       (valRm, p) \<leftarrow> arm_read_register LOffset p;
       let address = offset u valRn valRm;
       (c, p) \<leftarrow> condition ins p;
       if c = 1 then do {
         p \<leftarrow> arm_write_register rn address p;
         Some (address, p)
       } else Some (- 1, p) }
     else if \<not> is_post \<and> type = 2 then
       Some (offset u valRn offset_8, p)
     else if \<not> is_post \<and> type = 3 then do {
       let address = offset u valRn offset_8;
       (c, p) \<leftarrow> condition ins p;
       if c = 1 then do {
         p \<leftarrow> arm_write_register rn address p;
         Some (address, p)
       } else Some (- 1, p) }
     else Some (- 1, p) }"

definition getAddressModeBW :: "u32 \<Rightarrow> arm_core \<Rightarrow> (u32 \<times> arm_core) option" where
  "getAddressModeBW ins p = do {
     let u = get_bit ins 23;
     let rn = ucast (get_bits ins 19 16);
     (valRn, p) \<leftarrow> arm_read_register rn p;
     let is_imm = get_bit ins 25 = 0;
     if is_imm then do {
       let offset12 = get_bits ins 11 0;
       if get_bit ins 21 = 0 \<and> get_bit ins 24 = 1 then
         Some (offset u valRn offset12, p)
       else if get_bit ins 21 = 1 \<and> get_bit ins 24 = 1 then do {
         let address = offset u valRn offset12;
         (c, p) \<leftarrow> condition ins p;
         if c = 1 then do {
           p \<leftarrow> arm_write_register rn address p;
           Some (address, p)
         } else Some (- 1, p) }
       else if get_bit ins 21 = 0 \<and> get_bit ins 24 = 0 then do {
         (c, p) \<leftarrow> condition ins p;
         if c \<noteq> 0 then Some (offset u valRn offset12, p) else Some (- 1, p) }
       else Some (- 1, p) }
     else if get_bit ins 24 = 0 then do {
       (valRm, p) \<leftarrow> arm_read_register (ucast (get_bits ins 3 0)) p;
       (index, p) \<leftarrow> shift_index ins valRm p;
       (c, p) \<leftarrow> condition ins p;
       if c \<noteq> 0 then Some (offset u valRn index, p) else Some (- 1, p) }
     else if get_bit ins 21 = 1 then do {
       (valRm, p) \<leftarrow> arm_read_register (ucast (get_bits ins 3 0)) p;
       (index, p) \<leftarrow> shift_index ins valRm p;
       let address = offset u valRn index;
       (c, p) \<leftarrow> condition ins p;
       if c = 1 then do {
         p \<leftarrow> arm_write_register rn address p;
         Some (address, p)
       } else Some (- 1, p) }
     else if get_bit ins 21 = 0 then do {
       (valRm, p) \<leftarrow> arm_read_register (ucast (get_bits ins 3 0)) p;
       (index, p) \<leftarrow> shift_index ins valRm p;
       Some (offset u valRn index, p) }
     else Some (- 1, p) }"

text \<open>The array of two addresses is returned as a pair.\<close>

definition getAddressModeMulti :: "u32 \<Rightarrow> arm_core \<Rightarrow> (u32 \<times> u32 \<times> arm_core) option" where
  "getAddressModeMulti ins p = do {
     let rn = ucast (get_bits ins 19 16);
     (valRn, p) \<leftarrow> arm_read_register rn p;
     let after = get_bit ins 24 = 0;
     let inc = get_bit ins 23 = 1;
     let count = (of_int (numberOfSetBits (ucast (get_bits ins 15 0)) * 4) :: u32);
     let (start_address, end_address) =
       (if inc \<and> after then (valRn, valRn + count - 4)
        else if inc \<and> \<not> after then (valRn + 4, valRn + count)
        else if \<not> inc \<and> after then (valRn - count + 4, valRn)
        else (valRn - count, valRn - 4));
     (c, p) \<leftarrow> condition ins p;
     p \<leftarrow> (if c \<noteq> 0 \<and> get_bit ins 21 = 1
          then arm_write_register rn (if inc then valRn + count else valRn - count) p
          else Some p);
     Some (start_address, end_address, p) }"

section \<open>Transfers\<close>

definition arm_load_store :: "u32 \<Rightarrow> u32 \<Rightarrow> arm_core \<Rightarrow> (int \<times> arm_core) option" where
  "arm_load_store junk ins p = do {
     let is_load = get_bit ins 20 = 1;
     let is_H = get_bits ins 27 25 = 0 \<and> get_bits ins 7 4 = 0xB;
     let is_B = get_bit ins 22 = 1;
     let is_S = get_bits ins 27 25 = 0 \<and> get_bits ins 7 4 \<ge> 0xE;
     let reg_dest = ucast (get_bits ins 15 12);
     p \<leftarrow> (if is_load then
       (if is_H then do {
          (address, p) \<leftarrow> getAddressModeHalf ins p;
          if address \<noteq> - 1 then do {
            (st, value, p) \<leftarrow> arm_read_half address (ucast junk) p;
            let value_32 = (ucast value :: u32);
            let value_32 = (if is_S \<and> get_bit value_32 15 \<noteq> 0 then set_bits value_32 30 16 0xFFFF
                            else value_32);
            arm_write_register reg_dest value_32 p
          } else Some p }
        else if is_B then do {
          (address, p) \<leftarrow> getAddressModeBW ins p;
          if address \<noteq> - 1 then do {
            (st, value, p) \<leftarrow> arm_read_byte address (ucast junk) p;
            let value_32 = (ucast value :: u32);
            let value_32 = (if is_S \<and> get_bit value_32 7 \<noteq> 0 then set_bits value_32 30 8 0xFFFFFF
                            else value_32);
            arm_write_register reg_dest value_32 p
          } else Some p }
        else do {
          (address, p) \<leftarrow> getAddressModeBW ins p;
          if address \<noteq> - 1 then do {
            (st, value, p) \<leftarrow> arm_read_word address junk p;
            arm_write_register reg_dest value p
          } else Some p })
     else
       (if is_H then do {
          (address, p) \<leftarrow> getAddressModeHalf ins p;
          (value, p) \<leftarrow> arm_read_register reg_dest p;
          (st, p) \<leftarrow> arm_write_half address (ucast value) p;
          Some p }
        else if is_B then do {
          (address, p) \<leftarrow> getAddressModeBW ins p;
          (value, p) \<leftarrow> arm_read_register reg_dest p;
          (st, p) \<leftarrow> arm_write_byte address (ucast value) p;
          Some p }
        else do {
          (address, p) \<leftarrow> getAddressModeBW ins p;
          (value, p) \<leftarrow> arm_read_register reg_dest p;
          (st, p) \<leftarrow> arm_write_word address value p;
          Some p }));
     Some (0, p) }"

text \<open>The loops over the register list, from the register numbers left to visit.\<close>

fun load_registers :: "u32 \<Rightarrow> (nat \<Rightarrow> u32) \<Rightarrow> nat list \<Rightarrow> u32 \<Rightarrow> arm_core \<Rightarrow> (u32 \<times> arm_core) option" where
  "load_registers ins junk [] address p = Some (address, p)"
| "load_registers ins junk (i # is) address p =
     (if get_bit ins i = 1 then do {
        (st, value, p) \<leftarrow> arm_read_word address (junk i) p;
        p \<leftarrow> arm_write_register (of_nat i) value p;
        load_registers ins junk is (address + 4) p
      } else load_registers ins junk is address p)"

fun store_registers :: "u32 \<Rightarrow> nat list \<Rightarrow> u32 \<Rightarrow> arm_core \<Rightarrow> (u32 \<times> arm_core) option" where
  "store_registers ins [] address p = Some (address, p)"
| "store_registers ins (i # is) address p =
     (if get_bit ins i = 1 then do {
        (value, p) \<leftarrow> arm_read_register (of_nat i) p;
        (st, p) \<leftarrow> arm_write_word address value p;
        store_registers ins is (address + 4) p
      } else store_registers ins is address p)"

definition arm_load_store_multiple :: "(nat \<Rightarrow> u32) \<Rightarrow> u32 \<Rightarrow> arm_core \<Rightarrow> (int \<times> arm_core) option" where
  "arm_load_store_multiple junk ins p = do {
     let is_load = get_bit ins 20 = 1;
     (start_address, end_address, p) \<leftarrow> getAddressModeMulti ins p;
     if start_address = - 1 \<or> end_address = - 1 then Some (- 1, p)
     else if is_load then
       (if get_bit ins 22 = 0 then do {
          (c, p) \<leftarrow> condition ins p;
          if c \<noteq> 0 then do {
            (address, p) \<leftarrow> load_registers ins junk [0..<15] start_address p;
            (address, p) \<leftarrow> (if get_bit ins 15 = 1 then do {
                 (st, value, p) \<leftarrow> arm_read_word address (junk 15) p;
                 p \<leftarrow> arm_write_register 15 (value AND 0xFFFFFFFE) p;
                 Some (address + 4, p)
               } else Some (address, p));
            if end_address \<noteq> address - 4 then Some (- 1, p) else Some (0, p)
          } else Some (0, p)
        } else Some (0, p))
     else
       (if get_bit ins 22 = 0 then do {
          (c, p) \<leftarrow> condition ins p;
          if c \<noteq> 0 then do {
            (address, p) \<leftarrow> store_registers ins [0..<16] start_address p;
            if end_address \<noteq> address - 4 then Some (- 1, p) else Some (0, p)
          } else Some (0, p)
        } else Some (0, p)) }"

definition arm_coprocessor_load_store :: int where
  "arm_coprocessor_load_store = uint UNDEFINED_INSTRUCTION"

section \<open>Register lists\<close>

lemma numberOfSetBits_card: "numberOfSetBits w = int (card {i. i < 16 \<and> bit w i})"
proof -
  have "fold (\<lambda>i count. if get_bit (ucast w) i = 1 then count + 1 else count) [0..<n] k =
      k + int (card {i. i < n \<and> bit w i})" if "n \<le> 16" for n k
    using that
  proof (induction n)
    case (Suc n)
    have "{i. i < Suc n \<and> bit w i} = (if bit w n then insert n {i. i < n \<and> bit w i} else {i. i < n \<and> bit w i})"
      by (auto simp: less_Suc_eq)
    with Suc show ?case by (simp add: bit_ucast_iff)
  qed simp
  from this [of 16 0] show ?thesis by (simp add: numberOfSetBits_def)
qed

section \<open>Scaled offsets\<close>

lemma shift_kind_cases: "get_bits ins 6 5 = 0 \<or> get_bits ins 6 5 = 1 \<or> get_bits ins 6 5 = 2 \<or> get_bits ins 6 5 = 3"
  using get_bits_less [of 6 5 ins] less_4_cases [of "unat (get_bits ins 6 5)"]
  by (auto simp: word_unat_eq_iff)

text \<open>
  C34. The scaled offset of a word or byte transfer is the result of the architecture's barrel
  shifter by an immediate, RRX included.
\<close>

theorem shift_index_is_shifter:
  "\<exists>q. shift_index ins rm p =
      Some (fst (arm_shifter (unat (get_bits ins 6 5)) False (shift_amount ins) rm (bit (cpsr p) C_bit)), q) \<and>
    only_traced p q"
proof -
  define n where "n = shift_amount ins"
  define s where "s = (ucast (get_bits ins 11 7) :: u8)"
  have n: "n < 32" by (simp add: n_def shift_amount_less)
  have us: "unat s = n" by (simp add: n_def s_def flip: unat_shift_value)
  have s0: "s = 0 \<longleftrightarrow> n = 0" using us by (metis unat_eq_zero)
  have asr: "asr rm s = signed_drop_bit n rm" if "0 < n"
    using n us that asr_eq [of s rm] by (simp add: word_less_nat_alt word_neq_0_conv [symmetric] s0)
  have ror: "ror rm s = word_rotr n rm" by (simp add: ror_eq_word_rotr us)
  have lsr: "drop_bit 32 rm = 0" by (rule word32_eqI) (simp add: bit_simps)
  have sign: "signed_drop_bit 32 rm = (if bit rm 31 then - 1 else 0)"
    by (rule word32_eqI) (simp add: bit_signed_drop_bit_iff bit_simps)
  note simps = shift_index_def Let_def s_def [symmetric] us s0 arm_shifter_def n_def [symmetric]
    arm_read_cpsr_eq c_shl_eq c_shr_eq asr ror lsr sign
  show ?thesis
    using shift_kind_cases [of ins] n by (cases "n = 0") (elim disjE; simp add: simps)+
qed

section \<open>The address of a word or byte transfer\<close>

abbreviation rn_of :: "u32 \<Rightarrow> u8" where
  "rn_of ins \<equiv> ucast (get_bits ins 19 16)"

definition bw_offset :: "arm_core \<Rightarrow> u32 \<Rightarrow> u32" where
  "bw_offset p ins =
     (if bit ins 25 then
        fst (arm_shifter (unat (get_bits ins 6 5)) False (shift_amount ins)
          (seen p (ucast (get_bits ins 3 0))) (bit (cpsr p) C_bit))
      else take_bit 12 ins)"

definition bw_address :: "arm_core \<Rightarrow> u32 \<Rightarrow> u32" where
  "bw_address p ins =
     (if bit ins 23 then seen p (rn_of ins) + bw_offset p ins
      else seen p (rn_of ins) - bw_offset p ins)"

text \<open>
  The address and the state each form gives: bit 24 is the P bit, bit 21 the W bit. A form that
  fails or is refused gives \<open>-1\<close>.
\<close>

definition bw_result :: "arm_core \<Rightarrow> u32 \<Rightarrow> u32 \<times> arm_core" where
  "bw_result p ins =
     (if bit ins 24 \<and> \<not> bit ins 21 then (bw_address p ins, p)
      else if \<not> condition_holds ins (cpsr p) then (- 1, p)
      else if bit ins 24 then (bw_address p ins, set_reg (rn_of ins) (bw_address p ins) p)
      else if bit ins 21 \<and> \<not> bit ins 25 then (- 1, p)
      else (bw_address p ins, p))"

lemma seen_read_eq: "ok_core p \<Longrightarrow> rg < 16 \<Longrightarrow>
    arm_read_register rg p = Some (seen p rg, traced_reg READ rg (core_mode p) (seen p rg) p)"
  by (simp add: arm_read_register_eq seen_def)

lemma getAddressModeBW_eq:
  assumes "ok_core p"
  shows "\<exists>q. getAddressModeBW ins p = Some (fst (bw_result p ins), q) \<and> only_traced (snd (bw_result p ins)) q"
proof (cases "bit ins 25")
  case False
  have imm: "get_bits ins 11 0 = take_bit 12 ins" by (simp add: get_bits_eq)
  show ?thesis
    using assms False
    by (cases "bit ins 24"; cases "bit ins 21"; cases "condition_holds ins (cpsr p)")
      (simp_all add: getAddressModeBW_def seen_read_eq condition_eq arm_write_register_eq bw_result_def
        bw_address_def bw_offset_def offset_def imm only_traced_sets Let_def)
next
  case True
  let ?rm = "ucast (get_bits ins 3 0)"
  let ?p1 = "traced_reg READ (rn_of ins) (core_mode p) (seen p (rn_of ins)) p"
  let ?p2 = "traced_reg READ ?rm (core_mode p) (seen p ?rm) ?p1"
  have s1: "seen ?p1 = seen p" by (rule seen_only_traced) simp
  obtain q where q: "shift_index ins (seen p ?rm) ?p2 = Some (bw_offset p ins, q)" and pq: "only_traced ?p2 q"
    using shift_index_is_shifter [of ins "seen p ?rm" ?p2] True by (auto simp: bw_offset_def)
  have pq: "only_traced p q" using pq by (simp add: only_traced_def)
  note eqs = only_tracedD [OF pq]
  show ?thesis
    using assms True pq
    by (cases "bit ins 24"; cases "bit ins 21"; cases "condition_holds ins (cpsr p)")
      (simp_all add: getAddressModeBW_def seen_read_eq s1 condition_eq arm_write_register_eq bw_result_def
        bw_address_def offset_def q eqs only_traced_sets Let_def)
qed

text \<open>
  The addressing modes of the architecture: the address of the transfer and the base register
  afterwards. Bit 24 is the P bit and bit 21 the W bit; without P the transfer is at the base, which
  then moves (post-indexed).
\<close>

definition arch_word_address :: "arm_core \<Rightarrow> u32 \<Rightarrow> u32 \<times> u32" where
  "arch_word_address p ins =
     (let rn = seen p (rn_of ins);
          moved = (if bit ins 23 then rn + bw_offset p ins else rn - bw_offset p ins)
      in if bit ins 24 then (moved, if bit ins 21 then moved else reg_val p (rn_of ins))
         else (rn, moved))"

text \<open>
  C35. The addressing modes of word and byte transfers against those of the architecture (base
  plus or minus a 12-bit immediate or a shifted register; offset, pre-indexed, post-indexed), in
  every form and for every condition: the offset form, which does not look at the condition, and
  the pre-indexed form whose condition holds give the address and the base of the architecture;
  a post-indexed form whose condition holds gives, against the architecture, the moved base as
  its address and does not write it back; any other form whose condition fails, and the post-
  indexed immediate form with bit W, give the error address -1 and change no base. No memory,
  status or other register changes.
\<close>

theorem word_address_modes:
  assumes "ok_core p"
  shows "\<exists>a q. getAddressModeBW ins p = Some (a, q) \<and> ok_core q \<and> mem q = mem p \<and> cpsr q = cpsr p \<and>
    same_regs_but {rn_of ins} p q \<and>
    (let (address, base) = arch_word_address p ins; offset_form = (bit ins 24 \<and> \<not> bit ins 21);
         refused = (\<not> bit ins 24 \<and> bit ins 21 \<and> \<not> bit ins 25) in
      if \<not> offset_form \<and> (\<not> condition_holds ins (cpsr p) \<or> refused)
      then a = - 1 \<and> reg_val q (rn_of ins) = reg_val p (rn_of ins)
      else if bit ins 24 then a = address \<and> reg_val q (rn_of ins) = base
      else a = base \<and> reg_val q (rn_of ins) = reg_val p (rn_of ins))"
proof -
  obtain q where q: "getAddressModeBW ins p = Some (fst (bw_result p ins), q)" "only_traced (snd (bw_result p ins)) q"
    using getAddressModeBW_eq [OF assms, of ins] by blast
  have "ok_core (snd (bw_result p ins)) \<and> mem (snd (bw_result p ins)) = mem p \<and>
    cpsr (snd (bw_result p ins)) = cpsr p \<and> same_regs_but {rn_of ins} p (snd (bw_result p ins))"
    using assms by (simp add: bw_result_def same_regs_but_def)
  moreover have "reg_val q (rn_of ins) = reg_val (snd (bw_result p ins)) (rn_of ins)"
    using only_tracedD [OF q(2)] by simp
  ultimately show ?thesis
    using q(1) only_tracedD [OF q(2)] assms
    by (cases "bit ins 24"; cases "bit ins 21"; cases "condition_holds ins (cpsr p)")
      (simp_all add: same_regs_but_def arch_word_address_def bw_result_def bw_address_def Let_def)
qed

theorem word_address_modes_witness:
  "\<exists>q. getAddressModeBW 0xE5B01004 example_core = Some (0x14, q) \<and> reg_val q 0 = 0x14"
proof -
  have v: "arch_word_address example_core 0xE5B01004 = (0x14, 0x14)" "rn_of 0xE5B01004 = 0"
    "condition_holds 0xE5B01004 (cpsr example_core) = True" "bit (0xE5B01004 :: u32) 24 = True"
    "bit (0xE5B01004 :: u32) 21 = True"
    by code_simp+
  show ?thesis
    using word_address_modes [OF ok_example_core, of "0xE5B01004"]
    unfolding v Let_def prod.case by (simp only: simp_thms if_True if_False) blast
qed

section \<open>The address of a halfword transfer\<close>

definition half_offset :: "arm_core \<Rightarrow> u32 \<Rightarrow> u32" where
  "half_offset p ins =
     (if bit ins 22 then push_bit 4 (get_bits ins 11 8) OR get_bits ins 3 0
      else seen p (ucast (get_bits ins 3 0)))"

definition half_address :: "arm_core \<Rightarrow> u32 \<Rightarrow> u32" where
  "half_address p ins =
     (if bit ins 23 then seen p (rn_of ins) + half_offset p ins
      else seen p (rn_of ins) - half_offset p ins)"

definition half_result :: "arm_core \<Rightarrow> u32 \<Rightarrow> u32 \<times> arm_core" where
  "half_result p ins =
     (if bit ins 24 \<and> \<not> bit ins 21 then (half_address p ins, p)
      else if \<not> bit ins 24 \<and> bit ins 21 then (- 1, p)
      else if \<not> condition_holds ins (cpsr p) then (- 1, p)
      else (if bit ins 24 then half_address p ins else seen p (rn_of ins),
            set_reg (rn_of ins) (half_address p ins) p))"

lemma type_bits:
  "get_bits ins 22 21 = 0 \<longleftrightarrow> \<not> bit ins 22 \<and> \<not> bit ins 21"
  "get_bits ins 22 21 = 1 \<longleftrightarrow> \<not> bit ins 22 \<and> bit ins 21"
  "get_bits ins 22 21 = 2 \<longleftrightarrow> bit ins 22 \<and> \<not> bit ins 21"
  "get_bits ins 22 21 = 3 \<longleftrightarrow> bit ins 22 \<and> bit ins 21"
proof -
  have "get_bits ins 22 21 = of_bool (bit ins 21) + 2 * of_bool (bit ins 22)"
    by (rule word32_eqI) (auto simp: bits bit_simps bit_double_iff bit_1_iff of_bool_def even_bit_succ_iff le_Suc_eq intro!: gr0I)
  then show "get_bits ins 22 21 = 0 \<longleftrightarrow> \<not> bit ins 22 \<and> \<not> bit ins 21"
    "get_bits ins 22 21 = 1 \<longleftrightarrow> \<not> bit ins 22 \<and> bit ins 21"
    "get_bits ins 22 21 = 2 \<longleftrightarrow> bit ins 22 \<and> \<not> bit ins 21"
    "get_bits ins 22 21 = 3 \<longleftrightarrow> bit ins 22 \<and> bit ins 21"
    by (simp_all add: of_bool_def)
qed

lemma half_immediate:
  "(ucast (push_bit 4 (ucast (get_bits ins 11 8) :: u8) OR ucast (get_bits ins 3 0)) :: u32) =
     push_bit 4 (get_bits ins 11 8) OR get_bits ins 3 0"
  by (rule word32_eqI) (auto simp: bits bit_simps)

lemma getAddressModeHalf_eq:
  assumes "ok_core p"
  shows "\<exists>q. getAddressModeHalf ins p = Some (fst (half_result p ins), q) \<and> only_traced (snd (half_result p ins)) q"
proof -
  let ?p1 = "traced_reg READ (rn_of ins) (core_mode p) (seen p (rn_of ins)) p"
  have s1: "seen (traced_reg a b c d p) = seen p" for a b c d by (rule seen_only_traced) simp
  have s2: "seen (traced_reg a b c d (traced_reg a' b' c' d' p)) = seen p" for a b c d a' b' c' d'
    by (rule seen_only_traced) simp
  show ?thesis
    using assms
    by (cases "bit ins 24"; cases "bit ins 21"; cases "bit ins 22"; cases "condition_holds ins (cpsr p)")
      (simp_all add: getAddressModeHalf_def type_bits seen_read_eq s1 s2 condition_eq arm_write_register_eq
        half_result_def half_address_def half_offset_def half_immediate offset_def only_traced_sets Let_def)
qed

section \<open>Single transfers\<close>

definition half_form :: "u32 \<Rightarrow> bool" where
  "half_form ins \<longleftrightarrow> get_bits ins 27 25 = 0 \<and> get_bits ins 7 4 = 0xB"

definition signed_form :: "u32 \<Rightarrow> bool" where
  "signed_form ins \<longleftrightarrow> get_bits ins 27 25 = 0 \<and> get_bits ins 7 4 \<ge> 0xE"

definition rd_of :: "u32 \<Rightarrow> u8" where
  "rd_of ins = ucast (get_bits ins 15 12)"

lemma rd_of_less [simp]: "rd_of ins < 16"
  by (simp add: rd_of_def)

text \<open>What a load gives its register, and what a store makes of the memory.\<close>

definition load_value :: "u32 \<Rightarrow> u32 \<Rightarrow> u32 \<Rightarrow> memory \<Rightarrow> u32" where
  "load_value junk ins a m =
     (if half_form ins then
        (let v = (ucast (if ok_half m a then half_at m (unat a) else ucast junk) :: u32)
         in if signed_form ins \<and> bit v 15 then set_bits v 30 16 0xFFFF else v)
      else if bit ins 22 then
        (let v = (ucast (if in_memory m a then byte_at m (unat a) else ucast junk) :: u32)
         in if signed_form ins \<and> bit v 7 then set_bits v 30 8 0xFFFFFF else v)
      else if ok_word m a then word_at m (unat a) else junk)"

definition store_memory :: "u32 \<Rightarrow> u32 \<Rightarrow> u32 \<Rightarrow> memory \<Rightarrow> memory" where
  "store_memory ins a v m =
     (if half_form ins then (if ok_half m a then set_half m (unat a) (ucast v) else m)
      else if bit ins 22 then (if in_memory m a then set_byte m (unat a) (ucast v) else m)
      else if ok_word m a then set_word m (unat a) v else m)"

definition transfer_result :: "arm_core \<Rightarrow> u32 \<Rightarrow> u32 \<times> arm_core" where
  "transfer_result p ins = (if half_form ins then half_result p ins else bw_result p ins)"

definition transfer_state :: "u32 \<Rightarrow> u32 \<Rightarrow> arm_core \<Rightarrow> arm_core" where
  "transfer_state junk ins p =
     (let (a, s) = transfer_result p ins
      in if bit ins 20 then
           (if a = - 1 then s else set_reg (rd_of ins) (load_value junk ins a (mem s)) s)
         else s\<lparr>mem := store_memory ins a (seen s (rd_of ins)) (mem s)\<rparr>)"

lemma only_traced_mem:
  "only_traced p q \<Longrightarrow> only_traced (p\<lparr>mem := m\<rparr>) (q\<lparr>mem := m\<rparr>)"
  "only_traced p ((traced_reg ty rg md v q)\<lparr>mem := m\<rparr>) = only_traced p (q\<lparr>mem := m\<rparr>)"
  by (simp_all add: only_traced_def)

lemma transfer_result_ok:
  assumes "ok_core p"
  shows "ok_core (snd (transfer_result p ins)) \<and> mem (snd (transfer_result p ins)) = mem p \<and>
    cpsr (snd (transfer_result p ins)) = cpsr p \<and> core_mode (snd (transfer_result p ins)) = core_mode p \<and>
    spsr_val (snd (transfer_result p ins)) = spsr_val p \<and>
    same_regs_but {rn_of ins} p (snd (transfer_result p ins))"
  using assms by (simp add: transfer_result_def half_result_def bw_result_def same_regs_but_def)

lemma arm_load_store_eq:
  assumes "ok_core p"
  shows "\<exists>q. arm_load_store junk ins p = Some (0, q) \<and> only_traced (transfer_state junk ins p) q"
proof -
  obtain a s where as: "transfer_result p ins = (a, s)" by fastforce
  have s: "ok_core s" "mem s = mem p" using transfer_result_ok [OF assms, of ins] as by simp_all
  obtain q where q: "(if half_form ins then getAddressModeHalf ins p else getAddressModeBW ins p) = Some (a, q)"
    and sq: "only_traced s q"
    using getAddressModeHalf_eq [OF assms, of ins] getAddressModeBW_eq [OF assms, of ins] as
    by (cases "half_form ins") (auto simp: transfer_result_def)
  note eqs = only_tracedD [OF sq]
  note folds = half_form_def [symmetric] signed_form_def [symmetric] rd_of_def [symmetric]
  show ?thesis
    using assms as s sq q eqs
    by (cases "bit ins 20"; cases "half_form ins"; cases "bit ins 22"; cases "a = - 1")
      (simp_all add: arm_load_store_def folds Let_def transfer_state_def load_value_def store_memory_def
        core_eqs only_traced_sets only_traced_mem seen_def)
qed

lemma not_ok_minus_1: "ok_word m a \<Longrightarrow> a \<noteq> - 1" "ok_half m a \<Longrightarrow> a \<noteq> - 1"
proof -
  have "\<not> ok_word m (- 1)" "\<not> ok_half m (- 1)" unfolding ok_word_def ok_half_def unat_minus_1 by simp_all
  then show "ok_word m a \<Longrightarrow> a \<noteq> - 1" "ok_half m a \<Longrightarrow> a \<noteq> - 1" by blast+
qed

lemma narrow_widen:
  "(ucast (ucast v :: u16) :: u32) = take_bit 16 v" "(ucast (ucast v :: u8) :: u32) = take_bit 8 v"
  "take_bit 32 v = v"
  for v :: u32
  by (rule bit_word_eqI; auto simp: bit_simps)+

theorem load_word_offset:
  assumes "ok_core p" "bit ins 20" "\<not> half_form ins" "\<not> bit ins 22" "bit ins 24" "\<not> bit ins 21"
    "ok_word (mem p) (bw_address p ins)"
  shows "\<exists>q. arm_load_store junk ins p = Some (0, q) \<and> ok_core q \<and> mem q = mem p \<and> cpsr q = cpsr p \<and>
    same_regs_but {rd_of ins} p q \<and>
    reg_val q (rd_of ins) = word_at (mem p) (unat (bw_address p ins))"
proof -
  obtain q where q: "arm_load_store junk ins p = Some (0, q)" "only_traced (transfer_state junk ins p) q"
    using arm_load_store_eq [OF assms(1)] by blast
  have "bw_address p ins \<noteq> - 1" using assms(7) by (rule not_ok_minus_1)
  then show ?thesis
    using q(1) only_tracedD [OF q(2)] assms
    by (simp add: transfer_state_def transfer_result_def bw_result_def load_value_def same_regs_but_def)
qed

theorem load_word_offset_witness:
  "\<exists>q. arm_load_store 9 0xE5901004 example_core = Some (0, q) \<and> reg_val q 1 = 0"
proof -
  have h: "bit (0xE5901004 :: u32) 20" "\<not> half_form 0xE5901004" "\<not> bit (0xE5901004 :: u32) 22"
    "bit (0xE5901004 :: u32) 24" "\<not> bit (0xE5901004 :: u32) 21"
    "ok_word (mem example_core) (bw_address example_core 0xE5901004)" by code_simp+
  have v: "rd_of 0xE5901004 = 1"
    "word_at (mem example_core) (unat (bw_address example_core 0xE5901004)) = 0" by code_simp+
  show ?thesis using load_word_offset [OF ok_example_core h, of 9] by (auto simp only: v)
qed

text \<open>The bits of the register a transfer moves.\<close>

definition transfer_width :: "u32 \<Rightarrow> nat" where
  "transfer_width ins = (if half_form ins then 16 else if bit ins 22 then 8 else 32)"

definition transfer_ok :: "u32 \<Rightarrow> memory \<Rightarrow> u32 \<Rightarrow> bool" where
  "transfer_ok ins m a =
     (if half_form ins then ok_half m a else if bit ins 22 then in_memory m a else ok_word m a)"

definition transfer_address :: "arm_core \<Rightarrow> u32 \<Rightarrow> u32" where
  "transfer_address p ins = (if half_form ins then half_address p ins else bw_address p ins)"

lemma load_store_value:
  assumes "half_form ins = half_form ins'" "bit ins 22 = bit ins' 22" "\<not> signed_form ins'"
    "wf_memory m" "transfer_ok ins m a"
  shows "load_value junk ins' a (store_memory ins a v m) = take_bit (transfer_width ins) v"
proof -
  have i: "in_memory m a" "unat a div 4 < length (mem_data m)"
    using assms(4,5) by (auto simp: transfer_ok_def ok_half_def ok_word_def index_in_data split: if_splits)
  show ?thesis
    using assms i
    by (cases "half_form ins"; cases "bit ins 22")
      (auto simp: load_value_def store_memory_def transfer_ok_def ok_half_def ok_word_def transfer_width_def
        word_at_set_word half_at_set_half byte_at_set_byte narrow_widen)
qed

lemma transfer_ok_store: "transfer_ok ins (store_memory ins' a v m) b = transfer_ok ins m b"
  by (simp add: transfer_ok_def store_memory_def ok_half_def ok_word_def)

lemma offset_transfer_state:
  assumes "bit ins 24" "\<not> bit ins 21"
  shows "transfer_result p ins = (transfer_address p ins, p)"
  using assms by (simp add: transfer_result_def transfer_address_def half_result_def bw_result_def)

text \<open>
  C8. A load that follows a store of the same width at the same address (offset addressing,
  byte, half word or word, either endianness) returns the low bits of the stored register, zero
  extended, and changes no other register.
\<close>

theorem store_then_load:
  assumes "ok_core p" "\<not> bit st 20" "bit ld 20" "bit st 24" "\<not> bit st 21" "bit ld 24" "\<not> bit ld 21"
    "half_form st = half_form ld" "bit st 22 = bit ld 22" "\<not> signed_form ld"
    "transfer_address p ld = transfer_address p st" "transfer_ok st (mem p) (transfer_address p st)"
    "transfer_address p st \<noteq> - 1"
  shows "\<exists>q r. arm_load_store junk st p = Some (0, q) \<and> arm_load_store junk' ld q = Some (0, r) \<and>
    mem r = mem q \<and> same_regs_but {rd_of ld} p r \<and>
    reg_val r (rd_of ld) = take_bit (transfer_width st) (seen p (rd_of st))"
proof -
  let ?a = "transfer_address p st"
  obtain q where q: "arm_load_store junk st p = Some (0, q)" "only_traced (transfer_state junk st p) q"
    using arm_load_store_eq [OF assms(1)] by blast
  have ts: "transfer_state junk st p = p\<lparr>mem := store_memory st ?a (seen p (rd_of st)) (mem p)\<rparr>"
    using assms by (simp add: transfer_state_def offset_transfer_state)
  have okm: "ok_core (transfer_state junk st p)"
    unfolding ts using assms(1)
    by (intro ok_core_mem_update) (simp_all add: store_memory_def wf_core_mem)
  note eqs = only_tracedD [OF q(2)]
  have okq: "ok_core q" using eqs okm by simp
  have seen: "seen q = seen p" using eqs by (simp add: ts seen_def fun_eq_iff)
  have "cpsr q = cpsr p" using eqs by (simp add: ts)
  then have "transfer_address q ld = transfer_address p ld"
    by (simp only: transfer_address_def half_address_def half_offset_def bw_address_def bw_offset_def seen)
  then have addr: "transfer_address q ld = ?a" using assms(11) by simp
  obtain r where r: "arm_load_store junk' ld q = Some (0, r)" "only_traced (transfer_state junk' ld q) r"
    using arm_load_store_eq [OF okq] by blast
  have "load_value junk' ld ?a (mem q) = take_bit (transfer_width st) (seen p (rd_of st))"
    using load_store_value [OF assms(8,9,10) _ assms(12)] assms(1) eqs by (simp add: ts wf_core_mem)
  then have tl: "transfer_state junk' ld q = set_reg (rd_of ld) (take_bit (transfer_width st) (seen p (rd_of st))) q"
    using assms addr by (simp add: transfer_state_def offset_transfer_state)
  show ?thesis
    using q(1) r(1) only_tracedD [OF r(2)] okq eqs
    by (simp add: tl same_regs_but_def) (simp add: ts)
qed

theorem store_then_load_witness:
  "\<exists>q r. arm_load_store 0 0xE580D004 example_core = Some (0, q) \<and>
    arm_load_store 0 0xE5902004 q = Some (0, r) \<and> mem r = mem q \<and>
    same_regs_but {rd_of 0xE5902004} example_core r \<and>
    reg_val r (rd_of 0xE5902004) = take_bit (transfer_width 0xE580D004) (seen example_core (rd_of 0xE580D004))"
  by (rule store_then_load; code_simp)

section \<open>Multiple transfers\<close>

text \<open>
  The loops, as functions of the list of the registers they move: the words stored in sequence
  from an address, and the registers loaded from it.
\<close>

fun store_words :: "memory \<Rightarrow> u32 \<Rightarrow> u32 list \<Rightarrow> memory" where
  "store_words m a [] = m"
| "store_words m a (v # vs) =
     store_words (if ok_word m a then set_word m (unat a) v else m) (a + 4) vs"

fun load_into :: "(nat \<Rightarrow> u32) \<Rightarrow> u32 \<Rightarrow> nat list \<Rightarrow> arm_core \<Rightarrow> arm_core" where
  "load_into junk a [] p = p"
| "load_into junk a (i # is) p =
     load_into junk (a + 4) is
       (set_reg (of_nat i) (if ok_word (mem p) a then word_at (mem p) (unat a) else junk i) p)"

lemma wf_store_words [simp]: "wf_memory (store_words m a vs) = wf_memory m"
  by (induction vs arbitrary: m a) simp_all

lemma small_reg [simp]: "i < 16 \<Longrightarrow> (of_nat i :: u8) < 16"
  by (simp add: word_less_nat_alt unat_of_nat)

lemma store_registers_eq:
  assumes "ok_core p" "\<forall>i \<in> set is. i < 16"
  shows "\<exists>q. store_registers ins is a p = Some (a + 4 * of_nat (length (filter (bit ins) is)), q) \<and>
    only_traced (p\<lparr>mem := store_words (mem p) a (map (\<lambda>i. seen p (of_nat i)) (filter (bit ins) is))\<rparr>) q"
  using assms
proof (induction "is" arbitrary: a p)
  case (Cons i "is")
  show ?case
  proof (cases "bit ins i")
    case False
    then show ?thesis using Cons by simp
  next
    case True
    let ?p1 = "traced_reg READ (of_nat i) (core_mode p) (seen p (of_nat i)) p"
    define m where "m = (if ok_word (mem p) a then set_word (mem p) (unat a) (seen p (of_nat i)) else mem p)"
    define p2 where "p2 = traced_mem WRITE 4 OTHER_ACCESS a (seen p (of_nat i)) (?p1\<lparr>mem := m\<rparr>)"
    have i: "i < 16" "bit ins i" using Cons.prems True by simp_all
    have wf: "wf_memory m" using Cons.prems(1) by (simp add: m_def wf_core_mem)
    have p2: "only_traced (p\<lparr>mem := m\<rparr>) p2" by (simp add: p2_def only_traced_def)
    have ok2: "ok_core p2" using only_tracedD(7) [OF p2] ok_core_mem_update [OF Cons.prems(1) wf] by simp
    have seen2: "seen p2 = seen p" using only_tracedD [OF p2] by (simp add: seen_def fun_eq_iff)
    have mem2: "mem p2 = m" using only_tracedD [OF p2] by simp
    have "arm_read_register (of_nat i) p = Some (seen p (of_nat i), ?p1)"
      using Cons.prems(1) i by (simp add: seen_read_eq)
    moreover have "\<exists>st. arm_write_word a (seen p (of_nat i)) ?p1 = Some (st, p2)"
      using Cons.prems(1) by (simp add: arm_write_word_eq p2_def m_def)
    moreover obtain q where q: "store_registers ins is (a + 4) p2 =
        Some (a + 4 + 4 * of_nat (length (filter (bit ins) is)), q)"
      "only_traced (p2\<lparr>mem := store_words m (a + 4) (map (\<lambda>i. seen p (of_nat i)) (filter (bit ins) is))\<rparr>) q"
      using Cons.IH [OF ok2, of "a + 4"] Cons.prems(2) by (auto simp: seen2 mem2)
    ultimately have "store_registers ins (i # is) a p =
        Some (a + 4 + 4 * of_nat (length (filter (bit ins) is)), q)"
      using i by auto
    moreover have "only_traced (p\<lparr>mem := store_words m (a + 4) (map (\<lambda>i. seen p (of_nat i)) (filter (bit ins) is))\<rparr>) q"
      using q(2) p2 by (simp add: only_traced_def)
    ultimately show ?thesis using i by (simp add: m_def algebra_simps)
  qed
qed simp

lemma load_registers_eq:
  assumes "ok_core p" "\<forall>i \<in> set is. i < 16"
  shows "\<exists>q. load_registers ins junk is a p = Some (a + 4 * of_nat (length (filter (bit ins) is)), q) \<and>
    only_traced (load_into junk a (filter (bit ins) is) p) q"
proof -
  have "\<exists>q. load_registers ins junk is a p' = Some (a + 4 * of_nat (length (filter (bit ins) is)), q) \<and>
    only_traced (load_into junk a (filter (bit ins) is) p) q" if "only_traced p p'" for p'
    using assms that
  proof (induction "is" arbitrary: a p p')
    case (Cons i "is")
    show ?case
    proof (cases "bit ins i")
      case False
      then show ?thesis using Cons by simp
    next
      case True
      note eqs = only_tracedD [OF Cons.prems(3)]
      define w where "w = (if ok_word (mem p) a then word_at (mem p) (unat a) else junk i)"
      define p2 where "p2 = traced_mem READ 4 OTHER_ACCESS a w p'"
      define p3 where "p3 = traced_reg WRITE (of_nat i) (core_mode p) w (set_reg (of_nat i) w p2)"
      have i: "i < 16" "bit ins i" using Cons.prems True by simp_all
      have "only_traced p p2" using Cons.prems(3) by (simp add: p2_def)
      then have p3: "only_traced (set_reg (of_nat i) w p) p3" by (simp add: p3_def only_traced_sets)
      have "\<exists>st. arm_read_word a (junk i) p' = Some (st, w, p2)"
        using Cons.prems(1) eqs by (simp add: arm_read_word_eq p2_def w_def)
      moreover have "arm_write_register (of_nat i) w p2 = Some p3"
        using Cons.prems(1) eqs i by (simp add: arm_write_register_eq p2_def p3_def)
      moreover obtain q where "load_registers ins junk is (a + 4) p3 =
          Some (a + 4 + 4 * of_nat (length (filter (bit ins) is)), q)"
        and q: "only_traced (load_into junk (a + 4) (filter (bit ins) is) (set_reg (of_nat i) w p)) q"
        using Cons.IH [OF _ _ p3, of "a + 4"] Cons.prems i by auto
      ultimately have "load_registers ins junk (i # is) a p' =
          Some (a + 4 + 4 * of_nat (length (filter (bit ins) is)), q)"
        using i by auto
      with q i show ?thesis by (simp add: w_def algebra_simps)
    qed
  qed simp
  then show ?thesis using only_traced_refl by blast
qed

text \<open>The register list of an instruction, the first address and the new base.\<close>

definition reg_list :: "u32 \<Rightarrow> nat list" where
  "reg_list ins = filter (bit ins) [0..<16]"

definition list_size :: "u32 \<Rightarrow> u32" where
  "list_size ins = of_nat (length (reg_list ins)) * 4"

definition multi_start :: "arm_core \<Rightarrow> u32 \<Rightarrow> u32" where
  "multi_start p ins =
     (let b = seen p (rn_of ins); n = list_size ins in
      if bit ins 23 then (if bit ins 24 then b + 4 else b)
      else (if bit ins 24 then b - n else b - n + 4))"

definition multi_base :: "arm_core \<Rightarrow> u32 \<Rightarrow> u32" where
  "multi_base p ins =
     (if bit ins 23 then seen p (rn_of ins) + list_size ins else seen p (rn_of ins) - list_size ins)"

definition multi_updated :: "arm_core \<Rightarrow> u32 \<Rightarrow> arm_core" where
  "multi_updated p ins =
     (if condition_holds ins (cpsr p) \<and> bit ins 21 then set_reg (rn_of ins) (multi_base p ins) p else p)"

lemma count_list: "numberOfSetBits (ucast (get_bits ins 15 0)) = int (length (reg_list ins))"
proof -
  have "{i. i < 16 \<and> bit (ucast (get_bits ins 15 0) :: u16) i} = set (reg_list ins)"
    by (auto simp: reg_list_def get_bits_eq bit_simps)
  moreover have "card (set (reg_list ins)) = length (reg_list ins)"
    by (rule distinct_card) (simp add: reg_list_def)
  ultimately show ?thesis by (simp add: numberOfSetBits_card)
qed

lemma getAddressModeMulti_eq:
  assumes "ok_core p"
  shows "\<exists>q. getAddressModeMulti ins p =
      Some (multi_start p ins, multi_start p ins + list_size ins - 4, q) \<and>
    only_traced (multi_updated p ins) q"
  using assms
  by (cases "bit ins 23"; cases "bit ins 24"; cases "condition_holds ins (cpsr p)"; cases "bit ins 21")
    (simp_all add: getAddressModeMulti_def count_list list_size_def seen_read_eq condition_eq
      arm_write_register_eq multi_start_def multi_base_def multi_updated_def only_traced_sets Let_def)

definition multi_state :: "(nat \<Rightarrow> u32) \<Rightarrow> u32 \<Rightarrow> arm_core \<Rightarrow> arm_core" where
  "multi_state junk ins p =
     (let s = multi_updated p ins; a = multi_start p ins in
      if bit ins 20 then
        (let q = load_into junk a (filter (bit ins) [0..<15]) s; b = a + list_size ins - 4 in
         if bit ins 15 then
           set_reg 15 ((if ok_word (mem p) b then word_at (mem p) (unat b) else junk 15) AND 0xFFFFFFFE) q
         else q)
      else s\<lparr>mem := store_words (mem p) a (map (\<lambda>i. seen s (of_nat i)) (reg_list ins))\<rparr>)"

lemma multi_updated_ok:
  assumes "ok_core p"
  shows "ok_core (multi_updated p ins) \<and> mem (multi_updated p ins) = mem p \<and>
    cpsr (multi_updated p ins) = cpsr p \<and> core_mode (multi_updated p ins) = core_mode p \<and>
    spsr_val (multi_updated p ins) = spsr_val p"
  using assms by (simp add: multi_updated_def)

lemma load_into_ok:
  assumes "ok_core p" "\<forall>i \<in> set is. i < 16"
  shows "ok_core (load_into junk a is p) \<and> mem (load_into junk a is p) = mem p \<and>
    cpsr (load_into junk a is p) = cpsr p \<and> core_mode (load_into junk a is p) = core_mode p \<and>
    spsr_val (load_into junk a is p) = spsr_val p"
  using assms by (induction "is" arbitrary: p a) simp_all

lemma reg_list_split: "reg_list ins = filter (bit ins) [0..<15] @ (if bit ins 15 then [15] else [])"
proof -
  have "[0..<16] = [0..<15] @ [15 :: nat]" by (simp add: upt_rec)
  then show ?thesis by (simp add: reg_list_def)
qed

lemma set_reg_list: "j \<in> set (reg_list ins) \<longleftrightarrow> j < 16 \<and> bit ins j"
  by (auto simp: reg_list_def)

lemma reg_list_less: "\<forall>i \<in> set (reg_list ins). i < 16"
  by (simp add: reg_list_def)

lemma list_size_split:
  "list_size ins = 4 * of_nat (length (filter (bit ins) [0..<15])) + (if bit ins 15 then 4 else 0)"
  by (simp add: list_size_def reg_list_split algebra_simps)

lemma load_into_only_traced:
  "only_traced p q \<Longrightarrow> only_traced (load_into junk a is p) (load_into junk a is q)"
  by (induction "is" arbitrary: p q a) (simp_all add: only_traced_sets only_tracedD)

text \<open>The two transfers, from a state that differs from the updated one by trace events only.\<close>

lemma load_transfer:
  fixes ins :: u32
  assumes s: "ok_core s" "only_traced s q" and b: "b = a + list_size ins - 4"
  shows "\<exists>r t. load_registers ins junk [0..<15] a q = Some (a + 4 * of_nat (length (filter (bit ins) [0..<15])), r) \<and>
    t = load_into junk a (filter (bit ins) [0..<15]) s \<and> only_traced t r \<and> ok_core t \<and> mem t = mem s \<and>
    b = a + 4 * of_nat (length (filter (bit ins) [0..<15])) - (if bit ins 15 then 0 else 4)"
proof -
  let ?l = "filter (bit ins) [0..<15]"
  have "ok_core q" using only_tracedD [OF s(2)] s(1) by simp
  then obtain r where r: "load_registers ins junk [0..<15] a q = Some (a + 4 * of_nat (length ?l), r)"
    and lr: "only_traced (load_into junk a ?l q) r"
    using load_registers_eq [of q "[0..<15]" ins junk a] by auto
  have "only_traced (load_into junk a ?l s) r"
    using lr load_into_only_traced [OF s(2)] by (rule only_traced_trans [rotated])
  then show ?thesis using r load_into_ok [OF s(1), of ?l junk a] by (simp add: b list_size_split)
qed

lemma store_transfer:
  fixes ins :: u32
  assumes s: "ok_core s" "only_traced s q"
  shows "\<exists>r. store_registers ins [0..<16] a q = Some (a + list_size ins, r) \<and>
    only_traced (s\<lparr>mem := store_words (mem s) a (map (\<lambda>i. seen s (of_nat i)) (reg_list ins))\<rparr>) r"
proof -
  have "ok_core q" using only_tracedD [OF s(2)] s(1) by simp
  then obtain r where r: "store_registers ins [0..<16] a q = Some (a + list_size ins, r)"
    and lr: "only_traced (q\<lparr>mem := store_words (mem q) a (map (\<lambda>i. seen q (of_nat i)) (reg_list ins))\<rparr>) r"
    using store_registers_eq [of q "[0..<16]" ins a] by (auto simp: reg_list_def list_size_def)
  show ?thesis
    using r lr s(2) seen_only_traced [OF s(2)] only_traced_mem(1) [OF s(2)] only_tracedD [OF s(2)]
    by (auto intro: only_traced_trans)
qed

lemma arm_load_store_multiple_eq:
  fixes ins :: u32
  assumes "ok_core p"
  defines "a \<equiv> multi_start p ins"
  defines "b \<equiv> a + list_size ins - 4"
  shows "\<exists>q. arm_load_store_multiple junk ins p = Some (if a = - 1 \<or> b = - 1 then - 1 else 0, q) \<and>
    only_traced (if a = - 1 \<or> b = - 1 \<or> bit ins 22 \<or> \<not> condition_holds ins (cpsr p) then multi_updated p ins
                 else multi_state junk ins p) q"
proof -
  let ?s = "multi_updated p ins"
  have s: "ok_core ?s" "mem ?s = mem p" "cpsr ?s = cpsr p" using multi_updated_ok [OF assms(1)] by simp_all
  obtain q where q: "getAddressModeMulti ins p = Some (a, b, q)" and sq: "only_traced ?s q"
    using getAddressModeMulti_eq [OF assms(1), of ins] by (auto simp: a_def b_def)
  let ?q1 = "traced_reg READ CPSR 0 (cpsr p) q"
  have c: "condition ins q = Some (of_bool (condition_holds ins (cpsr p)), ?q1)"
    using only_tracedD [OF sq] s by (simp add: condition_eq)
  have sq1: "only_traced ?s ?q1" using sq by simp
  note start = arm_load_store_multiple_def q c Let_def
  consider "a = - 1 \<or> b = - 1 \<or> bit ins 22 \<or> \<not> condition_holds ins (cpsr p)"
    | "a \<noteq> - 1" "b \<noteq> - 1" "\<not> bit ins 22" "condition_holds ins (cpsr p)" "bit ins 20"
    | "a \<noteq> - 1" "b \<noteq> - 1" "\<not> bit ins 22" "condition_holds ins (cpsr p)" "\<not> bit ins 20"
    by blast
  then show ?thesis
  proof cases
    case 1
    then show ?thesis using sq sq1 by (auto simp: start)
  next
    case 2
    obtain r where r: "load_registers ins junk [0..<15] a ?q1 = Some (a + 4 * of_nat (length (filter (bit ins) [0..<15])), r)"
      and tr: "only_traced (load_into junk a (filter (bit ins) [0..<15]) ?s) r"
      and t: "ok_core (load_into junk a (filter (bit ins) [0..<15]) ?s)"
        "mem (load_into junk a (filter (bit ins) [0..<15]) ?s) = mem p"
      and b: "b = a + 4 * of_nat (length (filter (bit ins) [0..<15])) - (if bit ins 15 then 0 else 4)"
      using load_transfer [OF s(1) sq1, of b a ins junk] s(2) by (auto simp: b_def)
    show ?thesis using 2 t r tr b only_tracedD [OF tr]
      by (cases "bit ins 15") (simp_all add: start arm_read_word_eq arm_write_register_eq multi_state_def
        a_def [symmetric] only_traced_sets flip: b_def)
  next
    case 3
    from store_transfer [OF s(1) sq1, of ins a] s(2) 3 show ?thesis
      by (auto simp: start multi_state_def a_def [symmetric] b_def)
  qed
qed

theorem multiple_transfer_end_check:
  assumes "ok_core p" "multi_start p ins \<noteq> - 1" "multi_start p ins + list_size ins - 4 \<noteq> - 1"
  shows "returns (arm_load_store_multiple junk ins p) (\<lambda>(r, q). r = 0 \<and> cpsr q = cpsr p \<and>
    (bit ins 20 \<or> \<not> condition_holds ins (cpsr p) \<longrightarrow> mem q = mem p))"
proof -
  obtain q where q: "arm_load_store_multiple junk ins p = Some (0, q)"
    "only_traced (if bit ins 22 \<or> \<not> condition_holds ins (cpsr p) then multi_updated p ins
                 else multi_state junk ins p) q"
    using arm_load_store_multiple_eq [OF assms(1), of junk ins] assms(2,3) by auto
  note s = multi_updated_ok [OF assms(1), of ins]
  have l: "ok_core (load_into junk (multi_start p ins) (filter (bit ins) [0..<15]) (multi_updated p ins))"
    "mem (load_into junk (multi_start p ins) (filter (bit ins) [0..<15]) (multi_updated p ins)) = mem p"
    "cpsr (load_into junk (multi_start p ins) (filter (bit ins) [0..<15]) (multi_updated p ins)) = cpsr p"
    using load_into_ok [of "multi_updated p ins" "filter (bit ins) [0..<15]" junk "multi_start p ins"] s by simp_all
  show ?thesis
    using q(1) only_tracedD(2,5) [OF q(2)] s l by (simp add: multi_state_def Let_def)
qed

theorem multiple_transfer_end_check_witness:
  "returns (arm_load_store_multiple (\<lambda>_. 0) 0xE92D0003 example_core) (\<lambda>(r, q). r = 0)"
proof -
  have "multi_start example_core 0xE92D0003 \<noteq> - 1"
    "multi_start example_core 0xE92D0003 + list_size 0xE92D0003 - 4 \<noteq> - 1" by code_simp+
  from multiple_transfer_end_check [OF ok_example_core this, of "\<lambda>_. 0"]
  show ?thesis by (auto elim!: returns_mono)
qed

section \<open>Pushing and popping registers\<close>

fun addresses :: "u32 \<Rightarrow> nat \<Rightarrow> u32 list" where
  "addresses a 0 = []"
| "addresses a (Suc n) = a # addresses (a + 4) n"

lemma length_addresses [simp]: "length (addresses a n) = n"
  by (induction n arbitrary: a) simp_all

lemma nth_addresses: "k < n \<Longrightarrow> addresses a n ! k = a + 4 * of_nat k"
proof (induction n arbitrary: a k)
  case (Suc n)
  then show ?case by (cases k) simp_all
qed simp

lemma in_addresses: "b \<in> set (addresses a n) \<Longrightarrow> \<exists>k < n. b = a + 4 * of_nat k"
  by (metis in_set_conv_nth length_addresses nth_addresses)

lemma unat_addresses:
  fixes a :: u32
  assumes "unat a + 4 * n \<le> 2 ^ 32" "k < n"
  shows "unat (a + 4 * of_nat k) = unat a + 4 * k"
proof -
  have "unat (4 * of_nat k :: u32) = 4 * k"
    using assms by (simp add: unat_word_ariths unat_of_nat)
  then show ?thesis using assms by (simp add: unat_word_ariths)
qed

lemma addresses_apart:
  assumes "unat a + 4 * n \<le> 2 ^ 32"
  shows "all_apart (apart_by 4) (addresses a n)"
  using assms
proof (induction n arbitrary: a)
  case (Suc n)
  have "apart_by 4 a b" if b: "b \<in> set (addresses (a + 4) n)" for b
  proof -
    obtain k where k: "k < n" "b = a + 4 + 4 * of_nat k" using in_addresses [OF b] by blast
    then have "b = a + 4 * of_nat (Suc k)" by (simp add: algebra_simps)
    then have "unat b = unat a + 4 * Suc k" using unat_addresses [OF Suc.prems, of "Suc k"] k(1) by (simp only: Suc_less_eq)
    then show ?thesis by (simp add: apart_by_def)
  qed
  moreover have "all_apart (apart_by 4) (addresses (a + 4) n)"
  proof (cases n)
    case (Suc m)
    then have "unat (a + 4) = unat a + 4" using unat_addresses [OF Suc.prems, of 1] by simp
    then show ?thesis using Suc.prems by (intro Suc.IH) simp
  qed simp
  ultimately show ?case by simp
qed simp

abbreviation put_word :: "memory \<Rightarrow> u32 \<Rightarrow> u32 \<Rightarrow> memory option" where
  "put_word \<equiv> \<lambda>m a v. map_option snd (memory_write_word m a v)"

abbreviation fetch_word :: "memory \<Rightarrow> u32 \<Rightarrow> u32 option" where
  "fetch_word \<equiv> \<lambda>m a. map_option snd (memory_read_word m a 0)"

lemma put_all_store_words:
  "wf_memory m \<Longrightarrow> put_all put_word m (zip (addresses a (length vs)) vs) = Some (store_words m a vs)"
  by (induction vs arbitrary: m a) (simp_all add: memory_write_word_eq ok_word_def)

lemma get_all_nth:
  "get_all get m as = Some vs \<Longrightarrow> k < length as \<Longrightarrow> get m (as ! k) = Some (vs ! k)"
proof (induction "as" arbitrary: vs k)
  case (Cons a "as")
  then show ?case by (cases k) (auto simp: bind_eq_Some_conv)
qed simp

text \<open>A block of aligned words inside the memory reads back as it was stored.\<close>

lemma word_at_store_words:
  assumes "wf_memory m" "unat a + 4 * length vs \<le> unat (mem_size m)" "unat a + 4 * length vs \<le> 2 ^ 32"
    "unat a mod 4 = 0" "k < length vs"
  shows "ok_word (store_words m a vs) (a + 4 * of_nat k) \<and>
    word_at (store_words m a vs) (unat (a + 4 * of_nat k)) = vs ! k"
proof -
  have ok: "ok_word m b" if b: "b \<in> set (addresses a (length vs))" for b
  proof -
    obtain k where k: "k < length vs" "b = a + 4 * of_nat k" using in_addresses [OF b] by blast
    then have "unat b = unat a + 4 * k" using unat_addresses [OF assms(3)] by simp
    then show ?thesis using assms k by (simp add: ok_word_def in_memory_def mod_add_eq [symmetric])
  qed
  have put: "put_all put_word m (zip (addresses a (length vs)) vs) = Some (store_words m a vs)"
    by (rule put_all_store_words [OF assms(1)])
  have "get_all fetch_word (store_words m a vs) (addresses a (length vs)) = Some vs"
    using word_access.plain.get_all_put_all [OF assms(1) _ addresses_apart [OF assms(3)] _ put] ok by simp
  from get_all_nth [OF this, of k] assms(5)
  have "fetch_word (store_words m a vs) (a + 4 * of_nat k) = Some (vs ! k)" by (simp add: nth_addresses)
  moreover have "ok_word (store_words m a vs) (a + 4 * of_nat k)"
  proof -
    have "ok_word (store_words m a vs) b = ok_word m b" for b
      by (induction vs arbitrary: m a) (simp_all add: ok_word_def)
    then show ?thesis using ok assms(5) by (metis in_set_conv_nth length_addresses nth_addresses)
  qed
  ultimately show ?thesis using assms(1) by (simp add: memory_read_word_eq ok_word_def)
qed

lemma of_nat_reg_eq: "i < 16 \<Longrightarrow> j < 16 \<Longrightarrow> (of_nat i :: u8) = of_nat j \<longleftrightarrow> i = j"
  by (simp add: word_unat_eq_iff unat_of_nat)

lemma reg_val_load_into_other:
  "ok_core p \<Longrightarrow> \<forall>i \<in> set is. i < 16 \<Longrightarrow> j < 16 \<Longrightarrow> j \<notin> set is \<Longrightarrow>
     reg_val (load_into junk a is p) (of_nat j) = reg_val p (of_nat j)"
  by (induction "is" arbitrary: p a) (simp_all add: of_nat_reg_eq)

lemma reg_val_load_into:
  "ok_core p \<Longrightarrow> \<forall>i \<in> set is. i < 16 \<Longrightarrow> distinct is \<Longrightarrow> k < length is \<Longrightarrow>
     ok_word (mem p) (a + 4 * of_nat k) \<Longrightarrow>
     reg_val (load_into junk a is p) (of_nat (is ! k)) = word_at (mem p) (unat (a + 4 * of_nat k))"
proof (induction "is" arbitrary: p a k)
  case (Cons i "is")
  show ?case
  proof (cases k)
    case 0
    with Cons.prems show ?thesis by (simp add: reg_val_load_into_other)
  next
    case (Suc l)
    have eq: "a + 4 + 4 * of_nat l = a + 4 * of_nat k" by (simp add: Suc algebra_simps)
    have "reg_val (load_into junk (a + 4) is q) (of_nat (is ! l)) = word_at (mem q) (unat (a + 4 + 4 * of_nat l))"
      if "ok_core q" "mem q = mem p" for q
      using Cons.IH [of q l "a + 4"] Cons.prems that Suc by (simp add: eq)
    with Cons.prems Suc show ?thesis by (simp add: eq)
  qed
qed simp

text \<open>
  A full descending push (STMDB with write-back) and the pop that undoes it (LDMIA with
  write-back), of the same registers from the same base.
\<close>

definition is_push :: "u32 \<Rightarrow> bool" where
  "is_push ins \<longleftrightarrow> bit ins 24 \<and> \<not> bit ins 23 \<and> \<not> bit ins 22 \<and> bit ins 21 \<and> \<not> bit ins 20"

definition is_pop :: "u32 \<Rightarrow> bool" where
  "is_pop ins \<longleftrightarrow> \<not> bit ins 24 \<and> bit ins 23 \<and> \<not> bit ins 22 \<and> bit ins 21 \<and> bit ins 20"

text \<open>The base is aligned and the words below it are in the memory; the base is not in the list.\<close>

definition stack_ok :: "arm_core \<Rightarrow> u32 \<Rightarrow> bool" where
  "stack_ok p ins \<longleftrightarrow> (let b = reg_val p (rn_of ins); n = length (reg_list ins) in
     0 < n \<and> unat b mod 4 = 0 \<and> 4 * n \<le> unat b \<and> unat b \<le> unat (mem_size (mem p)) \<and>
     rn_of ins \<noteq> 15 \<and> \<not> bit ins 15 \<and> \<not> bit ins (unat (rn_of ins)))"

lemma length_reg_list: "length (reg_list ins) \<le> 16"
  using length_filter_le [of "bit ins" "[0..<16]"] by (simp add: reg_list_def)

lemma unat_list_size: "unat (list_size ins) = 4 * length (reg_list ins)"
  using length_reg_list [of ins] by (simp add: list_size_def unat_word_ariths unat_of_nat)

lemma stack_addresses:
  assumes "stack_ok p ins"
  defines "b \<equiv> reg_val p (rn_of ins)"
  defines "a \<equiv> b - list_size ins"
  shows "unat a + 4 * length (reg_list ins) = unat b" "unat a mod 4 = 0" "a \<noteq> - 1" "b - 4 \<noteq> - 1"
proof -
  have s: "0 < length (reg_list ins)" "unat b mod 4 = 0" "4 * length (reg_list ins) \<le> unat b"
    using assms(1) by (simp_all add: stack_ok_def Let_def b_def)
  have "list_size ins \<le> b" using s by (simp add: word_le_nat_alt unat_list_size)
  then have a: "unat a = unat b - 4 * length (reg_list ins)" by (simp add: a_def unat_sub unat_list_size)
  have "4 \<le> unat b" using s by linarith
  then have b4': "(4 :: u32) \<le> b" by (simp add: word_le_nat_alt)
  then have b4: "unat (b - 4) = unat b - 4" by (simp add: unat_sub)
  show "unat a + 4 * length (reg_list ins) = unat b" using a s by simp
  then have "unat a mod 4 = unat b mod 4" by (metis mod_mult_self2)
  with s show am: "unat a mod 4 = 0" by simp
  have "unat (b - 4) + 4 = unat b" using b4 b4' by (simp add: word_le_nat_alt)
  then have "unat (b - 4) mod 4 = unat b mod 4" by (metis mod_add_self2)
  with s have "unat (b - 4) mod 4 = 0" by simp
  then show "b - 4 \<noteq> - 1" by (rule aligned_not_minus_1)
  show "a \<noteq> - 1" using am by (rule aligned_not_minus_1)
qed

lemma seen_not_pc: "rg \<noteq> 15 \<Longrightarrow> seen p rg = reg_val p rg"
  by (simp add: seen_def pc_adjust_def)

lemma listed_register:
  assumes "stack_ok p ins" "i \<in> set (reg_list ins)"
  shows "i < 16" "i < 15" "(of_nat i :: u8) \<noteq> rn_of ins" "(of_nat i :: u8) \<noteq> 15"
proof -
  have i: "i < 16" "bit ins i" "i \<noteq> 15" "i \<noteq> unat (rn_of ins)"
    using assms by (auto simp: stack_ok_def Let_def reg_list_def)
  then show "i < 16" "i < 15" by simp_all
  show "(of_nat i :: u8) \<noteq> rn_of ins" "(of_nat i :: u8) \<noteq> 15"
    using i by (auto simp: word_unat_eq_iff unat_of_nat)
qed

lemma push_effect:
  fixes ins :: u32
  assumes "ok_core p" "is_push ins" "condition_holds ins (cpsr p)" "stack_ok p ins"
  defines "a \<equiv> reg_val p (rn_of ins) - list_size ins"
  shows "\<exists>q. arm_load_store_multiple junk ins p = Some (0, q) \<and> ok_core q \<and> cpsr q = cpsr p \<and>
    same_regs_but {rn_of ins} p q \<and> reg_val q (rn_of ins) = a \<and>
    mem q = store_words (mem p) a (map (\<lambda>i. reg_val p (of_nat i)) (reg_list ins))"
proof -
  have rn: "rn_of ins \<noteq> 15" using assms(4) by (simp add: stack_ok_def Let_def)
  have start: "multi_start p ins = a" "multi_start p ins + list_size ins - 4 = reg_val p (rn_of ins) - 4"
    using assms(2) rn by (simp_all add: multi_start_def is_push_def seen_not_pc a_def)
  have s: "multi_updated p ins = set_reg (rn_of ins) a p"
    using assms(2,3) rn by (simp add: multi_updated_def multi_base_def is_push_def seen_not_pc a_def)
  have vals: "map (\<lambda>i. seen (multi_updated p ins) (of_nat i)) (reg_list ins) =
      map (\<lambda>i. reg_val p (of_nat i)) (reg_list ins)"
    using listed_register [OF assms(4)] assms(1) by (intro map_cong) (simp_all add: s seen_not_pc)
  have ms: "multi_state junk ins p = (set_reg (rn_of ins) a p)
      \<lparr>mem := store_words (mem p) a (map (\<lambda>i. reg_val p (of_nat i)) (reg_list ins))\<rparr>"
    using assms(2) by (simp add: multi_state_def is_push_def vals start) (simp add: s)
  obtain q where q: "arm_load_store_multiple junk ins p = Some (0, q)" "only_traced (multi_state junk ins p) q"
    using arm_load_store_multiple_eq [OF assms(1), of junk ins] stack_addresses(3,4) [OF assms(4)] assms(2,3)
    by (auto simp: start a_def is_push_def)
  have "ok_core (multi_state junk ins p)"
    unfolding ms using assms(1) by (intro ok_core_mem_update) (simp_all add: wf_core_mem)
  then show ?thesis
    using q(1) only_tracedD [OF q(2)] assms(1) by (simp add: ms same_regs_but_def)
qed

text \<open>The pop half: it loads the words that stand in ascending order from the base register and
  moves the base past them.\<close>

lemma pop_effect:
  fixes ins :: u32
  assumes q: "ok_core q" "is_pop ins" "condition_holds ins (cpsr q)"
    and rn: "rn_of ins \<noteq> 15" "\<not> bit ins 15" "unat (rn_of ins) \<notin> set (reg_list ins)"
    and a: "reg_val q (rn_of ins) = a" "a \<noteq> - 1" "a + list_size ins - 4 \<noteq> - 1"
    and word: "\<And>k. k < length (reg_list ins) \<Longrightarrow> ok_word (mem q) (a + 4 * of_nat k) \<and>
      word_at (mem q) (unat (a + 4 * of_nat k)) = vs ! k"
  shows "\<exists>r. arm_load_store_multiple junk ins q = Some (0, r) \<and> mem r = mem q \<and>
    reg_val r (rn_of ins) = a + list_size ins \<and>
    (\<forall>k < length (reg_list ins). reg_val r (of_nat (reg_list ins ! k)) = vs ! k)"
proof -
  let ?l = "reg_list ins"
  define s where "s = set_reg (rn_of ins) (a + list_size ins) q"
  have s: "ok_core s" "mem s = mem q" using q(1) by (simp_all add: s_def)
  have start: "multi_start q ins = a" "multi_updated q ins = s"
    using q(2,3) rn a(1) by (simp_all add: multi_start_def multi_updated_def multi_base_def is_pop_def seen_not_pc s_def)
  have "filter (bit ins) [0..<15] = ?l" using rn(2) reg_list_split [of ins] by simp
  then have ms: "multi_state junk ins q = load_into junk a ?l s"
    using q(2) rn(2) by (simp add: multi_state_def start is_pop_def)
  obtain r where r: "arm_load_store_multiple junk ins q = Some (0, r)" "only_traced (load_into junk a ?l s) r"
    using arm_load_store_multiple_eq [OF q(1), of junk ins, unfolded start(1) ms] a(2,3) q(2,3)
    by (auto simp: is_pop_def)
  have "reg_val r (of_nat (?l ! k)) = vs ! k" if k: "k < length ?l" for k
  proof -
    have "reg_val (load_into junk a ?l s) (of_nat (?l ! k)) = word_at (mem s) (unat (a + 4 * of_nat k))"
      using word [OF k] by (intro reg_val_load_into s(1) reg_list_less k) (simp_all add: reg_list_def s(2))
    then show ?thesis using word [OF k] only_tracedD(1) [OF r(2)] s(2) by simp
  qed
  moreover have "reg_val r (rn_of ins) = a + list_size ins"
  proof -
    have "reg_val (load_into junk a ?l s) (of_nat (unat (rn_of ins))) = reg_val s (of_nat (unat (rn_of ins)))"
      using rn(3) field_less(4) [of ins] by (intro reg_val_load_into_other s(1) reg_list_less) (simp_all add: word_less_nat_alt)
    then show ?thesis using q(1) only_tracedD(1) [OF r(2)] by (simp add: s_def)
  qed
  moreover have "mem r = mem q"
    using load_into_ok [OF s(1) reg_list_less] only_tracedD(5) [OF r(2)] s(2) by simp
  ultimately show ?thesis using r(1) by blast
qed

text \<open>
  C9. STMDB with write-back followed by LDMIA with write-back of the same base and list restores
  the base register and every register of the list, whatever happens between them that keeps the
  memory and the base: for a non-empty list without the base and the program counter, a word-
  aligned base register other than the program counter whose area below it is in memory, and
  conditions that both pass.
\<close>

theorem push_then_pop:
  assumes "ok_core p" "is_push st" "condition_holds st (cpsr p)" "stack_ok p st"
    "is_pop ld" "rn_of ld = rn_of st" "reg_list ld = reg_list st"
  shows "\<exists>q. arm_load_store_multiple junk st p = Some (0, q) \<and>
    (\<forall>q'. ok_core q' \<and> mem q' = mem q \<and> reg_val q' (rn_of st) = reg_val q (rn_of st) \<and>
          condition_holds ld (cpsr q') \<longrightarrow>
       (\<exists>r. arm_load_store_multiple junk' ld q' = Some (0, r) \<and> mem r = mem q \<and>
          reg_val r (rn_of st) = reg_val p (rn_of st) \<and>
          (\<forall>i \<in> set (reg_list st). reg_val r (of_nat i) = reg_val p (of_nat i))))"
proof -
  let ?l = "reg_list st" and ?b = "reg_val p (rn_of st)"
  define a where "a = ?b - list_size st"
  define vs where "vs = map (\<lambda>i. reg_val p (of_nat i)) ?l"
  note stack = stack_addresses [OF assms(4), folded a_def]
  obtain q where q: "arm_load_store_multiple junk st p = Some (0, q)" "reg_val q (rn_of st) = a"
    "mem q = store_words (mem p) a vs"
    using push_effect [OF assms(1-4)] by (auto simp: a_def vs_def)
  have rn: "rn_of ld \<noteq> 15" "unat (rn_of ld) \<notin> set (reg_list ld)" "\<not> bit ld 15"
    using assms(4,6,7) set_reg_list [of 15 ld] by (simp_all add: stack_ok_def Let_def set_reg_list)
  have size: "list_size ld = list_size st" by (simp add: list_size_def assms(7))
  have word: "ok_word (mem q) (a + 4 * of_nat k) \<and> word_at (mem q) (unat (a + 4 * of_nat k)) = vs ! k"
    if "k < length vs" for k
    unfolding q(3)
  proof (rule word_at_store_words)
    show "unat a + 4 * length vs \<le> unat (mem_size (mem p))" "unat a + 4 * length vs \<le> 2 ^ 32"
      using stack(1) assms(4) unsigned_less [of ?b, where 'a = nat] by (simp_all add: vs_def stack_ok_def Let_def)
  qed (use assms(1) stack(2) that in \<open>simp_all add: vs_def wf_core_mem\<close>)
  show ?thesis
  proof (rule exI [of _ q], intro conjI allI impI q(1), elim conjE)
    fix q'
    assume q': "ok_core q'" "mem q' = mem q" "reg_val q' (rn_of st) = reg_val q (rn_of st)"
      "condition_holds ld (cpsr q')"
    obtain r where r: "arm_load_store_multiple junk' ld q' = Some (0, r)" "mem r = mem q" "reg_val r (rn_of st) = ?b"
      "\<forall>k < length ?l. reg_val r (of_nat (?l ! k)) = vs ! k"
      using pop_effect [OF q'(1) assms(5) q'(4) rn(1,3,2), of a vs junk'] stack(3,4) word q' q(2)
      by (auto simp: assms(6,7) size a_def vs_def)
    then show "\<exists>r. arm_load_store_multiple junk' ld q' = Some (0, r) \<and> mem r = mem q \<and>
        reg_val r (rn_of st) = ?b \<and> (\<forall>i \<in> set ?l. reg_val r (of_nat i) = reg_val p (of_nat i))"
      by (auto simp: in_set_conv_nth vs_def)
  qed
qed

theorem push_then_pop_witness:
  "\<exists>q. arm_load_store_multiple (\<lambda>_. 0) 0xE92D0003 example_core = Some (0, q)"
proof -
  have "is_push 0xE92D0003" "condition_holds 0xE92D0003 (cpsr example_core)" "stack_ok example_core 0xE92D0003"
    "is_pop 0xE8BD0003" "rn_of 0xE8BD0003 = rn_of 0xE92D0003" "reg_list 0xE8BD0003 = reg_list 0xE92D0003"
    by code_simp+
  from push_then_pop [OF ok_example_core this, of "\<lambda>_. 0" "\<lambda>_. 0"] show ?thesis by blast
qed

end
