(* ===== verification/Arm_Exception.thy ===== *)
theory Arm_Exception
  imports Arm_Core
begin

text \<open>
  \<^verbatim>\<open>arm_exception.h\<close> and \<^verbatim>\<open>arm_exception.c\<close>: entry into an exception. \<open>exception_entry\<close> is the
  \<^verbatim>\<open>switch\<close>, \<open>arm_exception\<close> the whole function.
\<close>

section \<open>Operations\<close>

definition exception_entry :: "u8 \<Rightarrow> u32 \<Rightarrow> u32 \<times> u8 \<times> u8" where
  "exception_entry exception cpsr_value =
     (let pc_offset = 0; pc_value = 0;
          cpsr_value = clr_bit cpsr_value 5;
          cpsr_value = set_bit_c cpsr_value 7;
          cpsr_value = clr_bit cpsr_value 9
      in
      if exception = RESET then
        (let cpsr_value = set_bits cpsr_value 4 0 (ucast SVC);
             cpsr_value = set_bit_c cpsr_value 6;
             cpsr_value = set_bit_c cpsr_value 8
         in (cpsr_value, pc_offset, pc_value))
      else if exception = UNDEFINED_INSTRUCTION then
        (let cpsr_value = set_bits cpsr_value 4 0 (ucast UND)
         in (cpsr_value, pc_offset, 4))
      else if exception = SOFTWARE_INTERRUPT then
        (let cpsr_value = set_bits cpsr_value 4 0 (ucast SVC)
         in (cpsr_value, pc_offset, 8))
      else if exception = PREFETCH_ABORT then
        (let cpsr_value = set_bits cpsr_value 4 0 (ucast ABT);
             cpsr_value = set_bit_c cpsr_value 8
         in (cpsr_value, 4, 12))
      else if exception = DATA_ABORT then
        (let cpsr_value = set_bits cpsr_value 4 0 (ucast ABT);
             cpsr_value = set_bit_c cpsr_value 8
         in (cpsr_value, 8, 16))
      else if exception = INTERRUPT then
        (let cpsr_value = set_bits cpsr_value 4 0 (ucast IRQ);
             cpsr_value = set_bit_c cpsr_value 8
         in (cpsr_value, 4, 24))
      else if exception = FAST_INTERRUPT then
        (let cpsr_value = set_bits cpsr_value 4 0 (ucast FIQ);
             cpsr_value = set_bit_c cpsr_value 6;
             cpsr_value = set_bit_c cpsr_value 8
         in (cpsr_value, 4, 28))
      else (cpsr_value, pc_offset, pc_value))"

definition arm_exception :: "u8 \<Rightarrow> arm_core \<Rightarrow> arm_core option" where
  "arm_exception exception p = do {
     (cpsr_value, p) \<leftarrow> arm_read_cpsr p;
     let spsr = cpsr_value;
     let (cpsr_value, pc_offset, pc_value) = exception_entry exception cpsr_value;
     p \<leftarrow> arm_write_cpsr cpsr_value p;
     p \<leftarrow> (if exception \<noteq> RESET then do {
            p \<leftarrow> arm_write_spsr spsr p;
            (pc, p) \<leftarrow> arm_read_register 15 p;
            arm_write_register 14 (pc + ucast pc_offset) p
          } else Some p);
     arm_write_usr_register 15 (ucast pc_value) p }"

text \<open>\<^verbatim>\<open>arm_create\<close> of \<^verbatim>\<open>arm_core.c\<close>: null registers, then a reset, then the cycle count.\<close>

definition arm_create :: "memory \<Rightarrow> trace \<Rightarrow> u32 \<Rightarrow> arm_core option" where
  "arm_create m t junk = do {
     p \<leftarrow> arm_exception RESET \<lparr>cycle_count = junk, regs = registers_create, mem = m, tr = t\<rparr>;
     Some (p\<lparr>cycle_count := 0\<rparr>) }"

section \<open>The status register on entry\<close>

definition exception_mode :: "u8 \<Rightarrow> u8 option" where
  "exception_mode e =
     map_of [(RESET, SVC), (UNDEFINED_INSTRUCTION, UND), (SOFTWARE_INTERRUPT, SVC),
       (PREFETCH_ABORT, ABT), (DATA_ABORT, ABT), (INTERRUPT, IRQ), (FAST_INTERRUPT, FIQ)] e"

lemma mode_of_set_mode:
  assumes "m < 32"
  shows "mode_of (set_bits x 4 0 (ucast m)) = m"
proof -
  have "take_bit 5 m = m"
    using assms by (intro take_bit_self) (simp add: word_less_nat_alt)
  then have "5 \<le> i \<Longrightarrow> \<not> bit m i" for i by (metis bit_take_bit_iff not_le)
  then show ?thesis by (intro bit_word_eqI) (auto simp: bit_mode_of bits bit_simps)
qed

lemma exception_cases:
  assumes "exception_mode e = Some m"
  obtains "e = RESET" "m = SVC" | "e = UNDEFINED_INSTRUCTION" "m = UND"
    | "e = SOFTWARE_INTERRUPT" "m = SVC" | "e = PREFETCH_ABORT" "m = ABT" | "e = DATA_ABORT" "m = ABT"
    | "e = INTERRUPT" "m = IRQ" | "e = FAST_INTERRUPT" "m = FIQ"
  using assms by (simp add: exception_mode_def split: if_splits)

lemma entry_bits:
  assumes "exception_mode e = Some m"
  shows "\<exists>x. mode_of (fst (exception_entry e v)) = mode_of (set_bits x 4 0 (ucast m)) \<and>
    (\<forall>i > 9. bit (fst (exception_entry e v)) i = bit (set_bits x 4 0 (ucast m)) i \<and> bit x i = bit v i)"
  using assms
  by (cases rule: exception_cases)
    (rule exI [of _ "clr_bit (set_bit_c (clr_bit v 5) 7) 9"],
      simp add: exception_entry_def Let_def exception_defs bits)+

lemma mode_of_entry:
  assumes "exception_mode e = Some m"
  shows "mode_of (fst (exception_entry e v)) = m"
proof -
  have "m < 32" using assms by (cases rule: exception_cases) (simp_all add: mode_defs)
  with entry_bits [OF assms, of v] mode_of_set_mode show ?thesis by metis
qed

lemma bit_entry_flags:
  assumes "exception_mode e = Some m" "9 < i"
  shows "bit (fst (exception_entry e v)) i = bit v i"
proof -
  have "bit (set_bits x 4 0 (ucast m)) i = bit x i" for x
    using assms(2) bit_imp_le_length [of m i] by (auto simp: bits bit_simps)
  with entry_bits [OF assms(1), of v] assms(2) show ?thesis by metis
qed

lemma valid_exception_mode:
  assumes "exception_mode e = Some m"
  shows "valid_mode m \<and> m \<noteq> USR \<and> m \<noteq> SYS"
  using assms by (cases rule: exception_cases) (simp_all add: valid_mode_def mode_defs)

section \<open>Entry\<close>

text \<open>What is added to the program counter read during the entry to give the return address.\<close>

definition return_offset :: "u8 \<Rightarrow> u32" where
  "return_offset e =
     (if e \<in> {PREFETCH_ABORT, INTERRUPT, FAST_INTERRUPT} then 4 else if e = DATA_ABORT then 8 else 0)"

lemma entry_offset:
  assumes "exception_mode e = Some m"
  shows "ucast (fst (snd (exception_entry e v))) = return_offset e"
  using assms
  by (cases rule: exception_cases) (simp_all add: exception_entry_def Let_def exception_defs return_offset_def)

text \<open>
  C28. Entry into an exception other than reset: the mode becomes that of the exception, the
  saved status register is the old status, the link register is the program counter as read plus
  the offset of the exception, bits above 9 of the status are kept, and the program counter is
  left unchanged.
\<close>

theorem arm_exception_entry:
  assumes "wf_core p" "exception_mode e = Some m" "e \<noteq> RESET"
  shows "\<exists>q. arm_exception e p = Some q \<and> ok_core q \<and> core_mode q = m \<and> spsr_val q = cpsr p \<and>
    reg_val q 14 = pc_adjust 15 (reg_val p 15) + return_offset e \<and> reg_val q 15 = reg_val p 15 \<and>
    mem q = mem p \<and> cycle_count q = cycle_count p \<and>
    (\<forall>i > 9. bit (cpsr q) i = bit (cpsr p) i)"
proof -
  obtain v off pcv where v: "exception_entry e (cpsr p) = (v, off, pcv)" by (metis prod_cases3)
  have m: "valid_mode m" "m \<noteq> USR" "m \<noteq> SYS" using valid_exception_mode [OF assms(2)] by auto
  have mv: "mode_of v = m" using mode_of_entry [OF assms(2), of "cpsr p"] v by simp
  have hi: "\<forall>i > 9. bit v i = bit (cpsr p) i" using bit_entry_flags [OF assms(2), of _ "cpsr p"] v by simp
  have off: "ucast off = return_offset e" using entry_offset [OF assms(2), of "cpsr p"] v by simp
  show ?thesis
    using assms(1,3) m mv hi off
    by (simp add: arm_exception_def core_eqs v)
qed

theorem arm_exception_entry_witness:
  "\<exists>q. arm_exception INTERRUPT example_core = Some q \<and> core_mode q = IRQ \<and> spsr_val q = 0x1D3 \<and>
    reg_val q 14 = pc_adjust 15 0 + 4 \<and> reg_val q 15 = 0"
proof -
  have "wf_core example_core" "exception_mode INTERRUPT = Some IRQ" "INTERRUPT \<noteq> RESET" "return_offset INTERRUPT = 4"
    by code_simp+
  then show ?thesis using arm_exception_entry [of example_core INTERRUPT IRQ] by auto
qed

lemma bit_entry_masks:
  assumes "exception_mode e = Some m"
  shows "bit (fst (exception_entry e v)) 7" "\<not> bit (fst (exception_entry e v)) 5"
    "\<not> bit (fst (exception_entry e v)) 9"
    "bit (fst (exception_entry e v)) 6 \<longleftrightarrow> e \<in> {RESET, FAST_INTERRUPT} \<or> bit v 6"
    "bit (fst (exception_entry e v)) 8 \<longleftrightarrow> e \<notin> {UNDEFINED_INSTRUCTION, SOFTWARE_INTERRUPT} \<or> bit v 8"
proof -
  have m5: "\<not> bit m i" if "5 \<le> i" for i
    using exception_cases [OF assms] that bit_mode_of [of v i]
    by (metis assms bit_mode_of mode_of_entry not_less)
  show "bit (fst (exception_entry e v)) 7" "\<not> bit (fst (exception_entry e v)) 5"
    "\<not> bit (fst (exception_entry e v)) 9"
    "bit (fst (exception_entry e v)) 6 \<longleftrightarrow> e \<in> {RESET, FAST_INTERRUPT} \<or> bit v 6"
    "bit (fst (exception_entry e v)) 8 \<longleftrightarrow> e \<notin> {UNDEFINED_INSTRUCTION, SOFTWARE_INTERRUPT} \<or> bit v 8"
    using assms by (cases rule: exception_cases;
      insert m5, simp add: exception_entry_def Let_def exception_defs bits bit_simps)+
qed

theorem arm_exception_masks:
  assumes "wf_core p" "exception_mode e = Some m"
  shows "returns (arm_exception e p) (\<lambda>q. ok_core q \<and> core_mode q = m \<and>
    bit (cpsr q) 7 \<and> \<not> bit (cpsr q) 5 \<and> \<not> bit (cpsr q) 9 \<and>
    (bit (cpsr q) 6 \<longleftrightarrow> e \<in> {RESET, FAST_INTERRUPT} \<or> bit (cpsr p) 6) \<and>
    (bit (cpsr q) 8 \<longleftrightarrow> e \<notin> {UNDEFINED_INSTRUCTION, SOFTWARE_INTERRUPT} \<or> bit (cpsr p) 8))"
proof -
  obtain v off pcv where v: "exception_entry e (cpsr p) = (v, off, pcv)" by (metis prod_cases3)
  have m: "valid_mode m" "m \<noteq> USR" "m \<noteq> SYS" using valid_exception_mode [OF assms(2)] by auto
  have mv: "mode_of v = m" using mode_of_entry [OF assms(2), of "cpsr p"] v by simp
  note b = bit_entry_masks [OF assms(2), of "cpsr p", unfolded v fst_conv]
  show ?thesis
    using assms(1) m mv b by (simp add: arm_exception_def core_eqs v)
qed

theorem arm_exception_masks_witness:
  "returns (arm_exception FAST_INTERRUPT example_core) (\<lambda>q. ok_core q \<and> core_mode q = FIQ \<and>
    bit (cpsr q) 7 \<and> \<not> bit (cpsr q) 5 \<and> \<not> bit (cpsr q) 9 \<and>
    (bit (cpsr q) 6 \<longleftrightarrow> FAST_INTERRUPT \<in> {RESET, FAST_INTERRUPT} \<or> bit (cpsr example_core) 6) \<and>
    (bit (cpsr q) 8 \<longleftrightarrow> FAST_INTERRUPT \<notin> {UNDEFINED_INSTRUCTION, SOFTWARE_INTERRUPT} \<or> bit (cpsr example_core) 8))"
  by (rule arm_exception_masks; code_simp)

lemma wf_core_create:
  "wf_memory m \<Longrightarrow> wf_core \<lparr>cycle_count = c, regs = registers_create, mem = m, tr = t\<rparr>"
  by (simp add: wf_core_def wf_registers_create)

theorem arm_create_supervisor:
  assumes "wf_memory m"
  shows "returns (arm_create m t junk) (\<lambda>p. ok_core p \<and> cpsr p = 0x1D3 \<and> core_mode p = SVC \<and>
    mem p = m \<and> cycle_count p = 0 \<and> (\<forall>rg < 16. reg_val p rg = 0))"
proof -
  let ?p = "\<lparr>cycle_count = junk, regs = registers_create, mem = m, tr = t\<rparr>"
  have v: "exception_entry RESET 0 = (0x1D3, 0, 0)" by code_simp
  have c: "cpsr ?p = 0" by (simp add: cpsr_def read_cpsr_def registers_create_def)
  have svc: "mode_of 0x1D3 = SVC" "valid_mode SVC" "SVC \<noteq> USR" by code_simp+
  have regs: "reg_val (set_cpsr 0x1D3 (traced_reg ty i md v ?p)) rg = 0" (is "reg_val ?q rg = 0")
    if "rg < 16" for rg ty i md v
  proof -
    have "core_mode ?q = SVC" using wf_core_create [OF assms] svc by simp
    then have "getRegister (regs ?q) rg = getRegister_in SVC rg"
      by (simp add: getRegister_def core_mode_def)
    then show ?thesis
      using getRegister_in_range [OF svc(2) that]
      by (simp add: reg_val_def) (simp add: set_cpsr_def set_physical_def registers_create_def)
  qed
  show ?thesis
    using wf_core_create [OF assms, of junk t] svc regs
    by (simp add: arm_create_def arm_exception_def core_eqs v c)
qed

theorem arm_create_supervisor_witness:
  "returns (arm_create example_memory trace_init 7) (\<lambda>p. ok_core p \<and> cpsr p = 0x1D3 \<and> core_mode p = SVC \<and>
    mem p = example_memory \<and> cycle_count p = 0 \<and> (\<forall>rg < 16. reg_val p rg = 0))"
  by (rule arm_create_supervisor [OF wf_example_memory])

lemma arm_create_ok: "wf_memory m \<Longrightarrow> returns (arm_create m t junk) ok_core"
  by (rule returns_mono [OF arm_create_supervisor]) simp_all

lemma registers_keep_memory:
  "arm_read_register rg p = Some (v, q) \<Longrightarrow> mem q = mem p" "arm_read_cpsr p = Some (v, q) \<Longrightarrow> mem q = mem p"
  "arm_write_register rg v p = Some q \<Longrightarrow> mem q = mem p" "arm_write_usr_register rg v p = Some q \<Longrightarrow> mem q = mem p"
  "arm_write_cpsr v p = Some q \<Longrightarrow> mem q = mem p" "arm_write_spsr v p = Some q \<Longrightarrow> mem q = mem p"
  by (auto simp: arm_read_cpsr_def arm_write_cpsr_def arm_write_spsr_def arm_read_register_def
      arm_write_register_def arm_write_usr_register_def bind_eq_Some_conv Let_def)

lemma exception_keeps_memory:
  assumes "arm_exception e p = Some q"
  shows "mem q = mem p"
proof -
  obtain c p' where c: "arm_read_cpsr p = Some (c, p')" using assms by (auto simp: arm_exception_def bind_eq_Some_conv)
  obtain v off pcv where "exception_entry e c = (v, off, pcv)" by (metis prod_cases3)
  with assms c show ?thesis
    by (auto simp: arm_exception_def bind_eq_Some_conv split: if_splits dest!: registers_keep_memory)
qed

end
