(* ===== verification/Machine.thy ===== *)
theory Machine
  imports Prelude
begin

text \<open>
  The interface between an operation that may be undefined and its repetition: what a single
  step promises, a run of any length keeps. \<open>machine\<close> asks for an invariant under which the step
  is defined; \<open>framed_machine\<close> adds a relation between the state before and after. Steps take an
  input, so that what the program does not determine (the content of uninitialised variables,
  the next packet) can differ from one step to the next.
\<close>

fun run :: "('j \<Rightarrow> 's \<Rightarrow> ('r \<times> 's) option) \<Rightarrow> ('r \<Rightarrow> bool) \<Rightarrow> 'j list \<Rightarrow> 's \<Rightarrow> 's option" where
  "run step stop [] s = Some s"
| "run step stop (j # js) s = do { (r, t) \<leftarrow> step j s; if stop r then Some t else run step stop js t }"

inductive reaches :: "('j \<Rightarrow> 's \<Rightarrow> ('r \<times> 's) option) \<Rightarrow> 's \<Rightarrow> 's \<Rightarrow> bool" for step where
  here: "reaches step s s"
| next_step: "step j s = Some (r, t) \<Longrightarrow> reaches step t u \<Longrightarrow> reaches step s u"

inductive_cases reaches_cases: "reaches step s u"

lemma reaches_trans: "reaches step s t \<Longrightarrow> reaches step t u \<Longrightarrow> reaches step s u"
  by (induction rule: reaches.induct) (auto intro: reaches.intros)

lemma run_reaches: "run step stop js s = Some t \<Longrightarrow> reaches step s t"
  by (induction js arbitrary: s) (auto simp: bind_eq_Some_conv split: if_splits intro: reaches.intros)

locale machine =
  fixes step :: "'j \<Rightarrow> 's \<Rightarrow> ('r \<times> 's) option" and inv :: "'s \<Rightarrow> bool"
  assumes step_inv: "inv s \<Longrightarrow> returns (step j s) (\<lambda>(r, t). inv t)"
begin

lemma run_defined: "inv s \<Longrightarrow> returns (run step stop js s) inv"
proof (induction js arbitrary: s)
  case (Cons j js)
  obtain r t where "step j s = Some (r, t)" "inv t"
    using step_inv [OF Cons.prems, of j] by (auto simp: returns_iff)
  with Cons.IH [of t] show ?case by simp
qed simp

lemma reaches_inv: "reaches step s t \<Longrightarrow> inv s \<Longrightarrow> inv t"
proof (induction rule: reaches.induct)
  case (next_step j s r t u)
  with step_inv [OF next_step.prems, of j] show ?case by simp
qed

lemma never_stuck: "reaches step s t \<Longrightarrow> inv s \<Longrightarrow> \<exists>r u. step j t = Some (r, u)"
  using reaches_inv step_inv [of t j] by (auto simp: returns_iff)

end

locale framed_machine = machine +
  fixes rel :: "'s \<Rightarrow> 's \<Rightarrow> bool"
  assumes rel_refl: "rel s s"
    and rel_trans: "rel s t \<Longrightarrow> rel t u \<Longrightarrow> rel s u"
    and step_rel: "step j s = Some (r, t) \<Longrightarrow> rel s t"
begin

lemma reaches_rel: "reaches step s t \<Longrightarrow> rel s t"
  by (induction rule: reaches.induct) (auto intro: rel_refl rel_trans step_rel)

lemma run_rel: "run step stop js s = Some t \<Longrightarrow> rel s t"
  by (rule reaches_rel, rule run_reaches)

end

end
