(* ===== verification/Arm_Instruction.thy ===== *)
theory Arm_Instruction
  imports Arm_Branch Arm_Data_Processing Arm_Load_Store Arm_Exception Machine
begin

text \<open>
  \<^verbatim>\<open>arm_instruction.h\<close> and \<^verbatim>\<open>arm_instruction.c\<close>: decoding, one step of the processor and runs of
  steps. \<open>junk\<close> gives the unknown contents of the uninitialised locals: \<open>junk k\<close> for the value
  of register \<open>k < 16\<close> in a multiple load, 16 for the value of a single load, 17 for the
  instruction word, 18 for the carry of the addition.
\<close>

section \<open>Decoding\<close>

definition arm_execute_instruction :: "(nat \<Rightarrow> u32) \<Rightarrow> arm_core \<Rightarrow> (outcome \<times> arm_core) option" where
  "arm_execute_instruction junk p = do {
     (st, val, p) \<leftarrow> arm_fetch (junk 17) p;
     if c_shr (val AND 0xF0000000) 28 = 0xF then Some (Return (- 1), p)
     else do {
       let champ = (ucast (c_shr (val AND 0x0E000000) 25) :: u8);
       if champ = 0 then
         (if get_bit val 4 = 1 \<and> get_bit val 7 = 1 then do {
            (r, p) \<leftarrow> arm_load_store (junk 16) val p; Some (Return r, p) }
          else if (get_bits val 24 23 = 2 \<and> get_bit val 20 = 0) \<and>
                  (get_bit val 4 = 0 \<or> (get_bit val 7 = 0 \<and> get_bit val 4 = 1)) then do {
            (r, p) \<leftarrow> arm_miscellaneous val p; Some (Return r, p) }
          else do {
            (c, p) \<leftarrow> condition val p;
            if c \<noteq> 0 then do {
              (r, p) \<leftarrow> arm_data_processing_shift (junk 18) val p; Some (Return r, p) }
            else Some (Return 0, p) })
       else if champ = 1 then do {
         (c, p) \<leftarrow> condition val p;
         if c \<noteq> 0 then do {
           (r, p) \<leftarrow> arm_data_processing_shift (junk 18) val p; Some (Return r, p) }
         else Some (Return 0, p) }
       else if champ = 2 \<or> champ = 3 then do {
         (r, p) \<leftarrow> arm_load_store (junk 16) val p; Some (Return r, p) }
       else if champ = 4 then do {
         (r, p) \<leftarrow> arm_load_store_multiple junk val p; Some (Return r, p) }
       else if champ = 5 then do {
         (r, p) \<leftarrow> arm_branch val p; Some (Return r, p) }
       else if champ = 6 then Some (Return arm_coprocessor_load_store, p)
       else if champ = 7 then Some (arm_coprocessor_others_swi val, p)
       else Some (Return (- 1), p) } }"

text \<open>The status is passed on as the number of an exception, a \<^verbatim>\<open>uint8_t\<close>; an exit ends the process.\<close>

definition arm_step :: "(nat \<Rightarrow> u32) \<Rightarrow> arm_core \<Rightarrow> (outcome \<times> arm_core) option" where
  "arm_step junk p = do {
     (result, p) \<leftarrow> arm_execute_instruction junk p;
     case result of
       Exit n \<Rightarrow> Some (Exit n, p)
     | Return r \<Rightarrow>
         (if r \<noteq> 0 then do { p \<leftarrow> arm_exception (word_of_int r) p; Some (Return r, p) }
          else Some (Return 0, p)) }"

section \<open>States in which every step is defined\<close>

text \<open>
  The saved status registers are restored without a check, so what keeps the machine inside its
  arrays is that each of them holds a valid mode, like the current one.
\<close>

definition banked_ok :: "arm_core \<Rightarrow> bool" where
  "banked_ok p \<longleftrightarrow> (\<forall>i \<in> {33..37}. valid_mode (mode_of (reg_data (regs p) ! i)))"

definition safe_core :: "arm_core \<Rightarrow> bool" where
  "safe_core p \<longleftrightarrow> ok_core p \<and> banked_ok p"

lemma safe_coreD: "safe_core p \<Longrightarrow> ok_core p" "safe_core p \<Longrightarrow> banked_ok p"
  by (simp_all add: safe_core_def)

lemma banked_ok_regs: "regs q = regs p \<Longrightarrow> banked_ok q = banked_ok p"
  by (simp add: banked_ok_def)

lemma banked_ok_traced [simp]:
  "banked_ok (traced_reg ty rg md v p) = banked_ok p" "banked_ok (traced_mem ty sz ca a v p) = banked_ok p"
  "banked_ok (p\<lparr>mem := m\<rparr>) = banked_ok p" "banked_ok (p\<lparr>cycle_count := c\<rparr>) = banked_ok p"
  by (simp_all add: banked_ok_def)

lemma banked_ok_set_physical:
  "unat i < 33 \<Longrightarrow> banked_ok (set_physical i v p) = banked_ok p"
  by (auto simp: banked_ok_def set_physical_def)

lemma banked_ok_set [simp]:
  "ok_core p \<Longrightarrow> rg < 16 \<Longrightarrow> banked_ok (set_reg rg v p) = banked_ok p"
  "banked_ok (set_cpsr v p) = banked_ok p"
  using getRegister_in_range [of "core_mode p" rg]
  by (simp_all add: set_reg_def set_cpsr_def banked_ok_set_physical)

lemma banked_ok_set_spsr:
  "banked_ok p \<Longrightarrow> valid_mode (mode_of v) \<Longrightarrow> banked_ok (set_spsr v p)"
  by (cases "unat (getRegister_in (core_mode p) SPSR) < length (reg_data (regs p))")
    (auto simp: banked_ok_def set_spsr_def set_physical_def nth_list_update list_update_beyond)

lemma banked_ok_spsr:
  assumes "safe_core p" "core_mode p \<noteq> USR" "core_mode p \<noteq> SYS"
  shows "valid_mode (mode_of (spsr_val p))"
  using assms getRegister_in_SPSR_range [of "core_mode p"]
  by (auto simp: safe_core_def banked_ok_def spsr_val_def)

lemma safe_only_traced: "only_traced p q \<Longrightarrow> safe_core q = safe_core p"
  by (simp add: safe_core_def only_tracedD banked_ok_regs [of q p])

section \<open>Each handler keeps safe states safe\<close>

lemma safe_fetch:
  assumes "safe_core p"
  shows "returns (arm_fetch v p) (\<lambda>(st, w, q). safe_core q)"
  using assms by (simp add: arm_fetch_eq safe_core_def fetch_result_def Let_def split: prod.split)

lemma safe_branch:
  assumes "safe_core p"
  shows "returns (arm_branch ins p) (\<lambda>(r, q). r = 0 \<and> safe_core q)"
  using assms
  by (cases "bit ins 24"; cases "condition_holds ins (cpsr p)")
    (simp_all add: arm_branch_def core_eqs condition_eq safe_core_def)

lemma safe_miscellaneous:
  assumes "safe_core p"
  shows "returns (arm_miscellaneous ins p) (\<lambda>(r, q). safe_core q)"
  using assms
  by (cases "bit ins 22"; cases "condition_holds ins (cpsr p)")
    (simp_all add: arm_miscellaneous_def core_eqs condition_eq safe_core_def)

lemma safe_result_state:
  assumes "safe_core p" "rd < 16" "mode_of fl = core_mode p"
  shows "safe_core (result_state s rd v fl p)"
  using assms banked_ok_spsr [OF assms(1)] by (auto simp: safe_core_def result_state_def Let_def)

lemma safe_dp_state:
  assumes "safe_core p"
  shows "safe_core (dp_state ins opd sc p)"
  using assms
  by (auto simp: dp_state_def Let_def dp_flags_def intro!: safe_result_state) (auto simp: safe_core_def)

lemma safe_data_processing:
  assumes "safe_core p"
  shows "returns (arm_data_processing_shift junk ins p) (\<lambda>(r, q). r = 0 \<and> safe_core q)"
  by (rule returns_mono [OF dp_returns [OF safe_coreD(1) [OF assms]]])
    (use safe_dp_state [OF assms] in \<open>auto simp: safe_only_traced\<close>)

lemma safe_set_reg [simp]: "safe_core p \<Longrightarrow> rg < 16 \<Longrightarrow> safe_core (set_reg rg v p)"
  by (simp add: safe_core_def)

lemma safe_mem: "safe_core p \<Longrightarrow> wf_memory m \<Longrightarrow> safe_core (p\<lparr>mem := m\<rparr>)"
  by (simp add: safe_core_def ok_core_mem_update)

lemma wf_store_memory: "wf_memory m \<Longrightarrow> wf_memory (store_memory ins a v m)"
  by (simp add: store_memory_def)

lemma safe_load_store:
  assumes "safe_core p"
  shows "returns (arm_load_store junk ins p) (\<lambda>(r, q). r = 0 \<and> safe_core q)"
proof -
  have s: "safe_core (snd (transfer_result p ins))"
    using assms by (simp add: transfer_result_def half_result_def bw_result_def)
  moreover have "wf_memory (mem (snd (transfer_result p ins)))"
    using s by (simp add: safe_core_def wf_core_mem)
  ultimately have "safe_core (transfer_state junk ins p)"
    by (cases "transfer_result p ins") (auto simp: transfer_state_def intro!: safe_mem wf_store_memory)
  then show ?thesis
    using arm_load_store_eq [OF safe_coreD(1) [OF assms], of junk ins] by (auto simp: safe_only_traced)
qed

lemma safe_load_into:
  "safe_core p \<Longrightarrow> \<forall>i \<in> set is. i < 16 \<Longrightarrow> safe_core (load_into junk a is p)"
  by (induction "is" arbitrary: p a) simp_all

lemma safe_load_store_multiple:
  assumes "safe_core p"
  shows "returns (arm_load_store_multiple junk ins p) (\<lambda>(r, q). (r = 0 \<or> r = - 1) \<and> safe_core q)"
proof -
  have s: "safe_core (multi_updated p ins)" using assms by (simp add: multi_updated_def)
  have "wf_memory (mem p)" using assms by (simp add: safe_core_def wf_core_mem)
  then have "safe_core (multi_state junk ins p)"
    using s by (auto simp: multi_state_def Let_def intro!: safe_mem safe_load_into safe_set_reg)
  then show ?thesis
    using arm_load_store_multiple_eq [OF safe_coreD(1) [OF assms], of junk ins] s
    by (auto simp: safe_only_traced split: if_splits)
qed

lemma exception_mode_None:
  assumes "exception_mode e = None"
  shows "mode_of (fst (exception_entry e v)) = mode_of v" "snd (exception_entry e v) = (0, 0)"
  using assms by (auto simp: exception_entry_def exception_mode_def Let_def split: if_splits)

lemma mode_of_entry_valid:
  "valid_mode (mode_of v) \<Longrightarrow> valid_mode (mode_of (fst (exception_entry e v)))"
  using mode_of_entry valid_exception_mode exception_mode_None(1) by (cases "exception_mode e") force+

lemma safe_exception:
  assumes "safe_core p"
  shows "returns (arm_exception e p) safe_core"
proof -
  obtain v off pcv where v: "exception_entry e (cpsr p) = (v, off, pcv)" by (metis prod_cases3)
  have "valid_mode (core_mode p)" using assms by (simp add: safe_core_def)
  then have m: "valid_mode (mode_of v)" using mode_of_entry_valid [of "cpsr p" e] v by simp
  have "banked_ok (set_spsr (cpsr p) q)" if "banked_ok q" for q
    using that assms by (intro banked_ok_set_spsr) (simp_all add: safe_core_def)
  moreover have "set_physical 15 x q = set_reg 15 x q" for x q
    by (simp add: set_reg_def)
  moreover have "valid_mode USR" by code_simp
  ultimately show ?thesis
    using assms m by (simp add: arm_exception_def core_eqs v safe_core_def)
qed

text \<open>
  A reset leaves the saved status registers null, which is no mode. From any state with a valid
  mode each exception fills the one of the mode it enters and invalidates none.
\<close>

definition saved_ok :: "nat \<Rightarrow> arm_core \<Rightarrow> bool" where
  "saved_ok i p \<longleftrightarrow> valid_mode (mode_of (reg_data (regs p) ! i))"

abbreviation saved_slot :: "u8 \<Rightarrow> nat" where
  "saved_slot m \<equiv> unat (getRegister_in m SPSR)"

lemma saved_ok_sets [simp]:
  "saved_ok i (traced_reg ty rg md v p) = saved_ok i p"
  "33 \<le> i \<Longrightarrow> ok_core p \<Longrightarrow> rg < 16 \<Longrightarrow> saved_ok i (set_reg rg v p) = saved_ok i p"
  "33 \<le> i \<Longrightarrow> saved_ok i (set_cpsr v p) = saved_ok i p"
  using getRegister_in_range [of "core_mode p" rg]
  by (auto simp: saved_ok_def set_reg_def set_cpsr_def set_physical_def CPSR_def)

lemma saved_ok_set_spsr:
  assumes "ok_core p" "valid_mode (mode_of v)"
  shows "saved_ok i p \<Longrightarrow> saved_ok i (set_spsr v p)"
    "core_mode p \<noteq> USR \<Longrightarrow> core_mode p \<noteq> SYS \<Longrightarrow> saved_ok (saved_slot (core_mode p)) (set_spsr v p)"
  using assms getRegister_in_SPSR_range [of "core_mode p"] ok_coreD(1) [OF assms(1)]
  by (auto simp: saved_ok_def set_spsr_def set_physical_def nth_list_update list_update_beyond wf_core_def wf_registers_def)

lemma exception_from_ok:
  assumes "ok_core p"
  shows "returns (arm_exception e p) (\<lambda>q. ok_core q \<and> (\<forall>i \<ge> 33. saved_ok i p \<longrightarrow> saved_ok i q) \<and>
    (\<forall>m. exception_mode e = Some m \<and> e \<noteq> RESET \<longrightarrow> saved_ok (saved_slot m) q))"
proof -
  obtain v off pcv where v: "exception_entry e (cpsr p) = (v, off, pcv)" by (metis prod_cases3)
  have vm: "valid_mode (mode_of (cpsr p))" using assms by simp
  then have m: "valid_mode (mode_of v)" using mode_of_entry_valid [of "cpsr p" e] v by simp
  have slot: "33 \<le> saved_slot n" "n \<noteq> USR" "n \<noteq> SYS" "mode_of v = n" if "exception_mode e = Some n" for n
    using mode_of_entry [OF that, of "cpsr p"] v valid_exception_mode [OF that] getRegister_in_SPSR_range [of n] by auto
  have own: "saved_ok (saved_slot n) (set_spsr (cpsr p) q)"
    if "exception_mode e = Some n" "core_mode q = mode_of v" "ok_core q" for n q
    using saved_ok_set_spsr(2) [OF that(3) vm] slot [OF that(1)] that(2) by simp
  have keep: "saved_ok i q \<Longrightarrow> saved_ok i (set_spsr (cpsr p) q)" if "ok_core q" for i q
    using saved_ok_set_spsr(1) [OF that vm] .
  have phys: "set_physical 15 x q = set_reg 15 x q" for x q
    by (simp add: set_reg_def)
  moreover have "valid_mode USR" by code_simp
  ultimately show ?thesis
    using assms m own keep slot(1) by (simp add: arm_exception_def core_eqs v)
qed

section \<open>A step\<close>

lemma safe_execute:
  assumes "safe_core p"
  shows "returns (arm_execute_instruction junk p) (\<lambda>(r, q). safe_core q)"
proof -
  obtain st val q where q: "arm_fetch (junk 17) p = Some (st, val, q)" "safe_core q"
    using safe_fetch [OF assms, of "junk 17"] by (auto simp: returns_iff)
  let ?q = "traced_reg READ CPSR 0 (cpsr q) q"
  have q': "safe_core ?q" using q(2) by (simp add: safe_core_def)
  note wrap = returns_mono [where Q = "\<lambda>x. returns (case x of (r, p) \<Rightarrow> Some (Return r, p)) (\<lambda>(r, q). safe_core q)"]
  have handlers:
    "returns (arm_load_store (junk 16) val q) (\<lambda>x. returns (case x of (r, p) \<Rightarrow> Some (Return r, p)) (\<lambda>(r, q). safe_core q))"
    "returns (arm_miscellaneous val q) (\<lambda>x. returns (case x of (r, p) \<Rightarrow> Some (Return r, p)) (\<lambda>(r, q). safe_core q))"
    "returns (arm_data_processing_shift (junk 18) val ?q) (\<lambda>x. returns (case x of (r, p) \<Rightarrow> Some (Return r, p)) (\<lambda>(r, q). safe_core q))"
    "returns (arm_load_store_multiple junk val q) (\<lambda>x. returns (case x of (r, p) \<Rightarrow> Some (Return r, p)) (\<lambda>(r, q). safe_core q))"
    "returns (arm_branch val q) (\<lambda>x. returns (case x of (r, p) \<Rightarrow> Some (Return r, p)) (\<lambda>(r, q). safe_core q))"
    subgoal by (rule wrap [OF safe_load_store [OF q(2)]]) auto
    subgoal by (rule wrap [OF safe_miscellaneous [OF q(2)]]) auto
    subgoal by (rule wrap [OF safe_data_processing [OF q']]) auto
    subgoal by (rule wrap [OF safe_load_store_multiple [OF q(2)]]) auto
    subgoal by (rule wrap [OF safe_branch [OF q(2)]]) auto
    done
  show ?thesis
    using q q' handlers by (simp add: arm_execute_instruction_def Let_def condition_eq)
qed

lemma safe_step:
  assumes "safe_core p"
  shows "returns (arm_step junk p) (\<lambda>(r, q). safe_core q)"
proof -
  obtain r q where q: "arm_execute_instruction junk p = Some (r, q)" "safe_core q"
    using safe_execute [OF assms, of junk] by (auto simp: returns_iff)
  then show ?thesis
    by (cases r) (auto simp: arm_step_def intro: returns_mono [OF safe_exception])
qed

text \<open>
  C2. One step of the processor, whatever the word at the program counter and whatever the
  uninitialised locals contain, is defined from a safe core and leaves a safe core.
\<close>

theorem arm_step_defined:
  assumes "safe_core p"
  shows "\<exists>r q. arm_step junk p = Some (r, q) \<and> safe_core q"
  using safe_step [OF assms] by (auto simp: returns_iff)

theorem arm_step_defined_witness:
  "\<exists>r q. arm_step (\<lambda>_. 0) example_core = Some (r, q) \<and> safe_core q"
  by (rule arm_step_defined) code_simp

section \<open>What no instruction changes\<close>

text \<open>
  Whatever the state, a step that is defined keeps the number of registers, the shape of the
  memory and the setup of the trace.
\<close>

lemmas evolves_steps = evolves_accesses evolves_fetch

lemma evolves_traced: "evolves p (traced_reg READ CPSR 0 (cpsr p) p)"
  by (rule evolves_accesses(3)) (rule arm_read_cpsr_eq)

lemma evolves_condition: "condition ins p = Some (c, q) \<Longrightarrow> evolves p q"
  by (auto simp: condition_def bind_eq_Some_conv dest: evolves_steps)

lemma evolves_branch: "arm_branch ins p = Some (r, q) \<Longrightarrow> evolves p q"
  by (auto simp: arm_branch_def bind_eq_Some_conv split: if_splits
      dest!: evolves_steps evolves_condition intro: evolves_trans)

lemma evolves_miscellaneous: "arm_miscellaneous ins p = Some (r, q) \<Longrightarrow> evolves p q"
  by (auto simp: arm_miscellaneous_def Let_def bind_eq_Some_conv split: if_splits
      dest!: evolves_steps evolves_condition intro: evolves_trans)

lemma evolves_exception: "arm_exception e p = Some q \<Longrightarrow> evolves p q"
proof -
  assume a: "arm_exception e p = Some q"
  obtain v off pcv where "exception_entry e (cpsr p) = (v, off, pcv)" by (metis prod_cases3)
  with a show ?thesis
    by (auto simp: arm_exception_def arm_read_cpsr_eq bind_eq_Some_conv split: if_splits
        dest!: evolves_steps intro: evolves_trans evolves_traced) (meson evolves_trans evolves_traced)+
qed

lemma evolves_carry_in: "carry_in p = Some (c, q) \<Longrightarrow> evolves p q"
  by (auto simp: carry_in_def bind_eq_Some_conv dest: evolves_steps)

lemma evolves_shift_operand: "shift_operand champ ins rm c p = Some (v, c', q) \<Longrightarrow> evolves p q"
  by (auto simp: shift_operand_def Let_def bind_eq_Some_conv split: if_splits
      dest!: evolves_steps evolves_carry_in intro: evolves_trans)

lemma evolves_operand: "operand_function ins ins f fl p = Some (v, fl', q) \<Longrightarrow> evolves p q"
  by (cases fl) (auto simp: operand_function_def data_processing_operand_def data_processing_immediate_operand_def
      Let_def bind_eq_Some_conv split: if_splits
      dest!: evolves_steps evolves_carry_in evolves_shift_operand intro: evolves_trans)

lemma evolves_write_result: "write_result s rd w ov c v oV cv p = Some (r, q) \<Longrightarrow> evolves p q"
  by (auto simp: write_result_def ZNCV_update_def bind_eq_Some_conv split: if_splits
      dest!: evolves_steps intro: evolves_trans)

lemma evolves_data_processing: "arm_data_processing_shift junk ins p = Some (r, q) \<Longrightarrow> evolves p q"
  unfolding arm_data_processing_shift_def
  by (auto simp: Let_def ZNCV_update_def bind_eq_Some_conv simp del: get_bit_eq split: if_split_asm
      dest!: evolves_steps evolves_operand evolves_write_result intro: evolves_trans)

lemma evolves_shift_index: "shift_index ins rm p = Some (v, q) \<Longrightarrow> evolves p q"
  by (auto simp: shift_index_def Let_def bind_eq_Some_conv split: if_splits dest!: evolves_steps)

lemma evolves_address:
  "getAddressModeHalf ins p = Some (a, q) \<Longrightarrow> evolves p q"
  "getAddressModeBW ins p = Some (a, q) \<Longrightarrow> evolves p q"
  "getAddressModeMulti ins p = Some (a, b, q) \<Longrightarrow> evolves p q"
  by (auto simp: getAddressModeHalf_def getAddressModeBW_def getAddressModeMulti_def Let_def
      bind_eq_Some_conv split: if_split_asm
      dest!: evolves_steps evolves_condition evolves_shift_index intro: evolves_trans)
    (meson evolves_trans)+

lemma evolves_load_store: "arm_load_store junk ins p = Some (r, q) \<Longrightarrow> evolves p q"
  by (auto simp: arm_load_store_def Let_def bind_eq_Some_conv split: if_split_asm
      dest!: evolves_steps evolves_address intro: evolves_trans)

lemma evolves_loops:
  "load_registers ins junk is a p = Some (b, q) \<Longrightarrow> evolves p q"
  "store_registers ins is a p = Some (b, q) \<Longrightarrow> evolves p q"
  by (induction "is" arbitrary: a p)
    (auto simp: bind_eq_Some_conv split: if_split_asm dest!: evolves_steps intro: evolves_trans)

lemma evolves_load_store_multiple: "arm_load_store_multiple junk ins p = Some (r, q) \<Longrightarrow> evolves p q"
  by (auto simp: arm_load_store_multiple_def Let_def bind_eq_Some_conv simp del: get_bit_eq split: if_split_asm
      dest!: evolves_steps evolves_condition evolves_address evolves_loops intro: evolves_trans)
    (meson evolves_trans)+

lemma evolves_execute: "arm_execute_instruction junk p = Some (r, q) \<Longrightarrow> evolves p q"
  by (auto simp: arm_execute_instruction_def Let_def bind_eq_Some_conv simp del: get_bit_eq split: if_split_asm
      dest!: evolves_steps evolves_condition evolves_branch evolves_miscellaneous evolves_data_processing
        evolves_load_store evolves_load_store_multiple intro: evolves_trans)

lemma evolves_step: "arm_step junk p = Some (r, q) \<Longrightarrow> evolves p q"
proof -
  assume a: "arm_step junk p = Some (r, q)"
  then obtain r' q' where e: "arm_execute_instruction junk p = Some (r', q')"
    by (auto simp: arm_step_def bind_eq_Some_conv)
  with a show ?thesis
    by (cases r') (auto simp: arm_step_def bind_eq_Some_conv split: if_splits
        dest!: evolves_execute evolves_exception intro: evolves_trans)
qed

interpretation arm_machine: framed_machine arm_step safe_core evolves
  by unfold_locales (auto intro: safe_step evolves_trans evolves_step)

text \<open>
  C1. From a safe core (well-formed memory and registers, a valid current mode, valid modes in
  the saved status registers) no run of any number of steps reaches undefined behaviour: every
  reachable state is safe, has the same memory shape, and can step again.
\<close>

theorem arm_runs_never_stuck:
  assumes "safe_core p" "reaches arm_step p q"
  shows "safe_core q \<and> evolves p q \<and> (\<exists>r s. arm_step junk q = Some (r, s))"
  using arm_machine.reaches_inv arm_machine.reaches_rel arm_machine.never_stuck assms by blast

theorem arm_runs_never_stuck_witness:
  "safe_core example_core \<and> evolves example_core example_core \<and>
    (\<exists>r s. arm_step (\<lambda>_. 0) example_core = Some (r, s))"
  by (rule arm_runs_never_stuck) (code_simp, rule reaches.here)

theorem step_keeps_shape:
  assumes "arm_step junk p = Some (r, q)"
  shows "(wf_registers (regs q) \<longleftrightarrow> wf_registers (regs p)) \<and> same_shape (mem p) (mem q) \<and> same_setup (tr p) (tr q)"
  using evolves_step [OF assms] by (simp add: evolves_def)

theorem step_keeps_shape_witness:
  "case arm_step (\<lambda>_. 0) example_core of None \<Rightarrow> False | Some (r, q) \<Rightarrow>
     wf_registers (regs q) \<and> same_shape example_memory (mem q)"
proof -
  have "safe_core example_core" "wf_registers (regs example_core)" by code_simp+
  moreover obtain r q where "arm_step (\<lambda>_. 0) example_core = Some (r, q)"
    using safe_step [OF calculation(1), of "\<lambda>_. 0"] by (auto simp: returns_iff)
  ultimately show ?thesis using step_keeps_shape [of "\<lambda>_. 0" example_core r q] by simp
qed

end
