(* ===== verification/Loops.thy ===== *)
theory Loops
  imports Prelude
begin

text \<open>
  The \<^verbatim>\<open>for\<close> loops whose body may be undefined: a fold over the values of the counter, with the
  variables the loop assigns as the state. The rule is that of a loop invariant.
\<close>

fun for_each :: "('i \<Rightarrow> 's \<Rightarrow> 's option) \<Rightarrow> 'i list \<Rightarrow> 's \<Rightarrow> 's option" where
  "for_each f [] s = Some s"
| "for_each f (i # is) s = f i s \<bind> for_each f is"

lemma for_each_append: "for_each f (is @ js) s = for_each f is s \<bind> for_each f js"
  by (induction "is" arbitrary: s) (auto split: bind_splits)

lemma for_each_upt:
  assumes "a \<le> b" "I a s"
    "\<And>i s. a \<le> i \<Longrightarrow> i < b \<Longrightarrow> I i s \<Longrightarrow> returns (f i s) (I (Suc i))"
  shows "returns (for_each f [a..<b] s) (I b)"
  using assms
proof (induction b)
  case (Suc b)
  show ?case
  proof (cases "a = Suc b")
    case False
    with Suc.prems(1) have "a \<le> b" by simp
    with Suc have "returns (for_each f [a..<b] s) (I b)" by simp
    with \<open>a \<le> b\<close> Suc.prems(3) show ?thesis
      by (auto simp: for_each_append intro: returns_mono)
  qed (use Suc.prems in simp)
qed simp

lemma for_each_invariant:
  assumes "I s" "\<And>i s. i \<in> set is \<Longrightarrow> I s \<Longrightarrow> returns (f i s) I"
  shows "returns (for_each f is s) I"
  using assms
proof (induction "is" arbitrary: s)
  case (Cons i "is")
  have "returns (f i s) I" using Cons.prems by simp
  then show ?case using Cons by (auto intro!: returns_mono [OF _ Cons.IH])
qed simp

end
