(* ===== verification/Arm_State.thy ===== *)
theory Arm_State
  imports Arm_Core Loops
begin

text \<open>
  \<^verbatim>\<open>arm_print_state\<close> of \<^verbatim>\<open>arm_core.c\<close> and \<^verbatim>\<open>trace_arm_state\<close> of \<^verbatim>\<open>trace.c\<close>: the dump of all registers,
  written to the stream of the trace. Its reads are accesses like any other: with the registers
  traced, their lines are interleaved with the dump.
\<close>

section \<open>Operations\<close>

definition emit :: "string \<Rightarrow> arm_core \<Rightarrow> arm_core" where
  "emit s p = p\<lparr>tr := (tr p)\<lparr>tr_output := Text s # tr_output (tr p)\<rparr>\<rparr>"

text \<open>The body of the loop over the registers; the loop assigns \<open>count\<close> and the state.\<close>

definition print_register :: "nat \<Rightarrow> nat \<Rightarrow> nat \<times> arm_core \<Rightarrow> (nat \<times> arm_core) option" where
  "print_register mode reg s =
     (let (count, p) = s in
      if of_nat mode = USR then do {
        let p = (if reg > 0 \<and> reg mod 5 = 0 then emit (CHR 0x0A # ''    '') p else p);
        (v, p) \<leftarrow> arm_read_usr_register (of_nat reg) p;
        name \<leftarrow> arm_get_register_name (of_nat reg);
        Some (count, emit (''   '' @ fmt_3s name @ ''='' @ fmt_08X v) p)
      } else do {
        let p = (if count > 0 \<and> count mod 5 = 0 then emit (CHR 0x0A # ''    '') p else p);
        let count = count + 1;
        (v, p) \<leftarrow> arm_read_register (of_nat reg) p;
        name \<leftarrow> arm_get_register_name (of_nat reg);
        Some (count, emit (''   '' @ fmt_3s name @ ''='' @ fmt_08X v) p)
      })"

definition mode_end :: "nat \<Rightarrow> string" where
  "mode_end mode =
     (if of_nat mode \<in> {USR, FIQ, SVC, UND} then [CHR 0x0A]
      else if of_nat mode \<in> {IRQ, ABT} then ''          ''
      else '''')"

definition print_mode :: "nat \<Rightarrow> arm_core \<Rightarrow> arm_core option" where
  "print_mode mode p = do {
     name \<leftarrow> arm_get_mode_name (of_nat mode);
     case name of
       None \<Rightarrow> Some p
     | Some name \<Rightarrow> do {
         let p = (if of_nat mode \<noteq> SYS then emit (name @ '':'') p else p);
         (count, p) \<leftarrow> for_each (print_register mode) [0..<16] (0, p);
         p \<leftarrow> (if of_nat mode = USR then do {
                (v, p) \<leftarrow> arm_read_cpsr p;
                Some (emit (''  CPSR='' @ fmt_08X v) p)
              } else Some p);
         Some (if mode_end mode = '''' then p else emit (mode_end mode) p)
       } }"

definition arm_print_state :: "arm_core \<Rightarrow> arm_core option" where
  "arm_print_state p = for_each print_mode [0..<32] p"

definition trace_arm_state :: "arm_core \<Rightarrow> arm_core option" where
  "trace_arm_state p =
     (if tr_enabled (tr p) \<and> trace_flags (tr p) AND STATE \<noteq> 0 then arm_print_state p else Some p)"

section \<open>The dump as a text\<close>

text \<open>
  The text of the dump: in user mode the physical registers 0 to 15, in every other mode the
  registers of the current mode, whatever the label says.
\<close>

definition shown :: "arm_core \<Rightarrow> nat \<Rightarrow> nat \<Rightarrow> u32" where
  "shown p mode reg =
     (if of_nat mode = USR then pc_adjust (of_nat reg) (reg_data (regs p) ! reg) else seen p (of_nat reg))"

definition register_text :: "arm_core \<Rightarrow> nat \<Rightarrow> nat \<Rightarrow> string" where
  "register_text p mode reg =
     (if reg > 0 \<and> reg mod 5 = 0 then CHR 0x0A # ''    '' else '''') @
     ''   '' @ fmt_3s (arm_register_names ! reg) @ ''='' @ fmt_08X (shown p mode reg)"

definition mode_text :: "arm_core \<Rightarrow> nat \<Rightarrow> string" where
  "mode_text p mode =
     (case arm_mode_names ! mode of None \<Rightarrow> ''''
      | Some name \<Rightarrow>
         (if of_nat mode = SYS then '''' else name @ '':'') @
         concat (map (register_text p mode) [0..<16]) @
         (if of_nat mode = USR then ''  CPSR='' @ fmt_08X (cpsr p) else '''') @ mode_end mode)"

definition state_text :: "arm_core \<Rightarrow> string" where
  "state_text p = concat (map (mode_text p) [0..<32])"

text \<open>No line is traced for an access to a register.\<close>

definition quiet :: "arm_core \<Rightarrow> bool" where
  "quiet p \<longleftrightarrow> \<not> (tr_enabled (tr p) \<and> trace_flags (tr p) AND REGISTERS \<noteq> 0)"

text \<open>From one state to another only the trace changes, by the text \<open>s\<close> when accesses are not traced.\<close>

definition prints :: "string \<Rightarrow> arm_core \<Rightarrow> arm_core \<Rightarrow> bool" where
  "prints s p q \<longleftrightarrow> only_traced p q \<and> same_setup (tr p) (tr q) \<and>
     (quiet p \<longrightarrow> printed (tr q) = printed (tr p) @ s)"

lemma prints_refl [simp]: "prints '''' p p"
  by (simp add: prints_def)

lemma prints_quiet: "prints s p q \<Longrightarrow> quiet q = quiet p"
  by (auto simp: prints_def quiet_def same_setup_def)

lemma prints_trans: "prints s p q \<Longrightarrow> prints t q r \<Longrightarrow> prints (s @ t) p r"
  using prints_quiet [of s p q]
  by (auto simp: prints_def intro: only_traced_trans same_setup_trans)

lemma prints_more: "prints s p q \<Longrightarrow> prints '''' q r \<Longrightarrow> prints s p r"
  using prints_trans [of s p q "''''" r] by simp

lemma prints_emit [simp]: "prints s p (emit s p)"
  by (simp add: prints_def emit_def only_traced_def same_setup_def printed_def)

lemma prints_views:
  assumes "prints s p q"
  shows "ok_core q = ok_core p" "core_mode q = core_mode p" "shown q = shown p" "cpsr q = cpsr p"
proof -
  have o: "only_traced p q" using assms by (simp add: prints_def)
  from only_tracedD [OF o] seen_only_traced [OF o]
  show "ok_core q = ok_core p" "core_mode q = core_mode p" "shown q = shown p" "cpsr q = cpsr p"
    by (simp_all add: shown_def fun_eq_iff)
qed

lemma prints_access:
  assumes "type = READ \<or> type = WRITE" "rg \<le> 17" "mode < 32"
  shows "prints '''' p (traced_reg type rg mode v p)"
proof -
  obtain t where t: "trace_register (cycle_count p) type rg mode v (tr p) = Some t"
    using trace_register_defined [OF assms, of "cycle_count p" v "tr p"] by blast
  moreover have "t = tr p" if "quiet p"
    using t that by (simp add: trace_register_def quiet_def split: if_splits)
  ultimately show ?thesis
    by (simp add: prints_def traced_reg_def log_reg_def only_traced_def trace_register_setup)
qed

section \<open>The dump prints the text\<close>

lemma unat_of_nat_16: "reg < 16 \<Longrightarrow> unat (of_nat reg :: u8) = reg"
  by (simp add: unat_of_nat)

lemma read_usr_eq:
  assumes "ok_core p" "reg < 16"
  shows "arm_read_usr_register (of_nat reg) p =
    Some (pc_adjust (of_nat reg) (reg_data (regs p) ! reg),
      traced_reg READ (of_nat reg) USR (pc_adjust (of_nat reg) (reg_data (regs p) ! reg)) p)"
proof -
  have r: "(of_nat reg :: u8) \<le> 17" using assms(2) by (simp add: word_le_nat_alt unat_of_nat_16)
  have "length (reg_data (regs p)) = 38"
    using ok_coreD(1) [OF assms(1)] by (simp add: wf_core_def wf_registers_def)
  then have "read_usr_register (regs p) (of_nat reg) = Some (reg_data (regs p) ! reg)"
    using assms(2) by (simp add: read_usr_register_def unat_of_nat_16)
  then show ?thesis
    using r by (simp add: arm_read_usr_register_def trace_register_log traced_reg_def USR_def Let_def)
qed

lemma name_of: "reg < 16 \<Longrightarrow> arm_get_register_name (of_nat reg) = Some (arm_register_names ! reg)"
  by (simp add: arm_get_register_name_def unat_of_nat_16)

lemma prints_value:
  assumes "ok_core p" "reg < 16"
  shows "returns (if of_nat mode = USR then arm_read_usr_register (of_nat reg) p
      else arm_read_register (of_nat reg) p)
    (\<lambda>(v, q). v = shown p mode reg \<and> prints '''' p q)"
proof -
  have r: "(of_nat reg :: u8) < 16" using assms(2) by (simp add: word_less_nat_alt unat_of_nat_16)
  then show ?thesis
    using assms by (auto simp: read_usr_eq arm_read_register_eq shown_def seen_def USR_def intro!: prints_access)
qed

lemma print_register_text:
  assumes "ok_core p" "reg < 16" "of_nat mode \<noteq> USR \<longrightarrow> count = reg"
  shows "returns (print_register mode reg (count, p))
    (\<lambda>(c, q). c = (if of_nat mode = USR then count else Suc reg) \<and> prints (register_text p mode reg) p q)"
proof -
  define b where "b = (reg > 0 \<and> reg mod 5 = 0)"
  define s where "s = (if b then CHR 0x0A # ''    '' else '''')"
  define q where "q = (if b then emit (CHR 0x0A # ''    '') p else p)"
  have q: "prints s p q" by (simp add: s_def q_def)
  have ok: "ok_core q" using assms(1) prints_views [OF q] by simp
  have v: "returns (if of_nat mode = USR then arm_read_usr_register (of_nat reg) q
        else arm_read_register (of_nat reg) q) (\<lambda>(v, r). v = shown p mode reg \<and> prints s p r)"
    using prints_value [OF ok assms(2), of mode] prints_views [OF q] prints_more [OF q]
    by (auto elim!: returns_mono)
  have "prints (register_text p mode reg) p
      (emit (''   '' @ fmt_3s (arm_register_names ! reg) @ ''='' @ fmt_08X (shown p mode reg)) r)" if "prints s p r" for r
    using prints_trans [OF that prints_emit] by (simp add: register_text_def s_def b_def)
  with v assms(2,3) show ?thesis
    by (auto simp: print_register_def name_of q_def b_def Let_def elim!: returns_mono split: if_splits)
qed

lemma print_registers_text:
  assumes "ok_core p"
  shows "returns (for_each (print_register mode) [0..<16] (0, p))
    (\<lambda>(c, q). prints (concat (map (register_text p mode) [0..<16])) p q)"
proof -
  define I where "I i = (\<lambda>(c :: nat, q). (of_nat mode \<noteq> USR \<longrightarrow> c = i) \<and>
    prints (concat (map (register_text p mode) [0..<i])) p q)" for i
  have "returns (for_each (print_register mode) [0..<16] (0, p)) (I 16)"
  proof (rule for_each_upt)
    show "I 0 (0, p)" by (simp add: I_def)
    fix i s
    assume i: "i < (16 :: nat)" and s: "I i s"
    obtain c q where sq: "s = (c, q)" by (cases s)
    with s have q: "of_nat mode \<noteq> USR \<longrightarrow> c = i" "prints (concat (map (register_text p mode) [0..<i])) p q"
      by (auto simp: I_def)
    have t: "register_text q mode i = register_text p mode i" using prints_views [OF q(2)] by (simp add: register_text_def)
    have "ok_core q" using assms prints_views [OF q(2)] by simp
    from print_register_text [OF this i q(1)] prints_trans [OF q(2)]
    show "returns (print_register mode i s) (I (Suc i))"
      by (auto simp: sq I_def t elim!: returns_mono split: if_splits)
  qed simp
  then show ?thesis by (auto simp: I_def elim!: returns_mono)
qed

lemma prints_cpsr:
  "returns (if b then do { (v, p) \<leftarrow> arm_read_cpsr p; Some (emit (''  CPSR='' @ fmt_08X v) p) } else Some p)
    (prints (if b then ''  CPSR='' @ fmt_08X (cpsr p) else '''') p)"
  using prints_trans [OF prints_access [of READ CPSR 0 p "cpsr p"] prints_emit]
  by (simp add: arm_read_cpsr_eq CPSR_def)

lemma print_mode_text:
  assumes "ok_core p" "mode < 32"
  shows "returns (print_mode mode p) (prints (mode_text p mode) p)"
proof -
  have n: "arm_get_mode_name (of_nat mode) = Some (arm_mode_names ! mode)"
    using assms(2) by (simp add: arm_get_mode_name_def unat_of_nat)
  show ?thesis
  proof (cases "arm_mode_names ! mode")
    case None
    then show ?thesis by (simp add: print_mode_def n mode_text_def)
  next
    case (Some name)
    define l where "l = (if of_nat mode = SYS then '''' else name @ '':'')"
    define q where "q = (if of_nat mode \<noteq> SYS then emit (name @ '':'') p else p)"
    have q: "prints l p q" by (simp add: l_def q_def)
    define rs where "rs = concat (map (register_text p mode) [0..<16])"
    define c where "c = (if of_nat mode = USR then ''  CPSR='' @ fmt_08X (cpsr p) else '''')"
    have "concat (map (register_text q mode) [0..<16]) = rs"
      using prints_views [OF q] by (simp add: rs_def register_text_def [abs_def])
    with print_registers_text [of q mode] assms prints_views [OF q] prints_trans [OF q]
    have 1: "returns (for_each (print_register mode) [0..<16] (0, q)) (\<lambda>(k, r). prints (l @ rs) p r)"
      by (auto elim!: returns_mono)
    have 2: "returns (if of_nat mode = USR then do { (v, p) \<leftarrow> arm_read_cpsr r; Some (emit (''  CPSR='' @ fmt_08X v) p) }
        else Some r) (prints ((l @ rs) @ c) p)" if "prints (l @ rs) p r" for r
      using prints_cpsr [of "of_nat mode = USR" r] prints_trans [OF that] prints_views [OF that]
      by (cases "of_nat mode = USR") (simp_all add: c_def arm_read_cpsr_eq that)
    have 3: "prints (mode_text p mode) p (if mode_end mode = '''' then r else emit (mode_end mode) r)"
      if "prints ((l @ rs) @ c) p r" for r
      using prints_trans [OF that prints_emit] that by (simp add: mode_text_def Some l_def rs_def c_def)
    show ?thesis
      using 1 returns_mono [OF 2 3]
      by (auto simp: print_mode_def n Some q_def Let_def elim!: returns_mono split del: if_split)
  qed
qed

lemma print_state_text:
  assumes "ok_core p"
  shows "returns (arm_print_state p) (prints (state_text p) p)"
proof -
  define I where "I i = prints (concat (map (mode_text p) [0..<i])) p" for i
  have "returns (for_each print_mode [0..<32] p) (I 32)"
  proof (rule for_each_upt)
    show "I 0 p" by (simp add: I_def)
    fix i q
    assume i: "i < (32 :: nat)" and "I i q"
    then have q: "prints (concat (map (mode_text p) [0..<i])) p q" by (simp add: I_def)
    have t: "mode_text q i = mode_text p i"
      using prints_views [OF q] by (simp add: mode_text_def register_text_def [abs_def] cong: option.case_cong)
    have "ok_core q" using assms prints_views [OF q] by simp
    from print_mode_text [OF this i] prints_trans [OF q] show "returns (print_mode i q) (I (Suc i))"
      by (auto simp: I_def t elim!: returns_mono)
  qed simp
  then show ?thesis by (simp add: arm_print_state_def state_text_def I_def)
qed

section \<open>Properties\<close>

theorem state_dump:
  assumes "ok_core p" "quiet p"
  shows "\<exists>q. arm_print_state p = Some q \<and> only_traced p q \<and> printed (tr q) = printed (tr p) @ state_text p"
  using print_state_text [OF assms(1)] assms(2) by (auto simp: returns_iff prints_def)

theorem state_dump_witness:
  "\<exists>q. arm_print_state example_core = Some q \<and> only_traced example_core q \<and>
    printed (tr q) = printed (tr example_core) @ state_text example_core"
proof -
  have "quiet example_core" by code_simp
  then show ?thesis by (intro state_dump) simp_all
qed

lemma trace_arm_state_safe:
  assumes "ok_core p"
  shows "returns (trace_arm_state p) (\<lambda>q. only_traced p q \<and> same_setup (tr p) (tr q))"
  using print_state_text [OF assms] by (auto simp: trace_arm_state_def prints_def elim!: returns_mono)

end
