(* ===== verification/Gdb_Packet.thy ===== *)
theory Gdb_Packet
  imports Memory Printf
begin

text \<open>
  The text of the remote protocol of \<^verbatim>\<open>gdb_protocol.c\<close>: numbers read by \<^verbatim>\<open>sscanf\<close> and \<^verbatim>\<open>atoi\<close>, words
  as strings of hexadecimal bytes, checksums and packets. A \<open>char\<close> is a byte. What the program
  reads from is a buffer: a list of characters with null characters inside and at its end; a read
  behind the end is \<open>None\<close>.
\<close>

section \<open>The conversions of the C library\<close>

definition NUL :: char where "NUL = CHR 0x00"

text \<open>The string at the start of a buffer; no null character is left where the buffer ends.\<close>

definition c_str :: "string \<Rightarrow> string" where
  "c_str d = takeWhile (\<lambda>c. c \<noteq> NUL) d"

definition isspace :: "char \<Rightarrow> bool" where
  "isspace c \<longleftrightarrow> c = CHR '' '' \<or> (9 \<le> (of_char c :: nat) \<and> (of_char c :: nat) \<le> 13)"

definition hex_value :: "char \<Rightarrow> nat option" where
  "hex_value c =
     (let n = (of_char c :: nat) in
      if 48 \<le> n \<and> n \<le> 57 then Some (n - 48)
      else if 97 \<le> n \<and> n \<le> 102 then Some (n - 87)
      else if 65 \<le> n \<and> n \<le> 70 then Some (n - 55)
      else None)"

definition isxdigit :: "char \<Rightarrow> bool" where
  "isxdigit c \<longleftrightarrow> hex_value c \<noteq> None"

definition isdigit :: "char \<Rightarrow> bool" where
  "isdigit c \<longleftrightarrow> 48 \<le> (of_char c :: nat) \<and> (of_char c :: nat) \<le> 57"

definition number :: "nat \<Rightarrow> string \<Rightarrow> nat" where
  "number base s = foldl (\<lambda>n c. base * n + the (hex_value c)) 0 s"

text \<open>An optional sign, if the field still has room for it.\<close>

definition sign :: "nat \<Rightarrow> string \<Rightarrow> bool \<times> nat \<times> string" where
  "sign w s = (case s of [] \<Rightarrow> (False, w, s)
     | c # t \<Rightarrow> if 0 < w \<and> c = CHR ''-'' then (True, w - 1, t)
               else if 0 < w \<and> c = CHR ''+'' then (False, w - 1, t) else (False, w, s))"

text \<open>
  \<^verbatim>\<open>%x\<close> with at most \<open>w\<close> characters, into an unsigned int: white space, a sign, an optional \<^verbatim>\<open>0x\<close>, the
  digits. The value is that of \<^verbatim>\<open>strtoul\<close>, which saturates at 64 bits, cut to 32 bits. \<open>None\<close>: no
  conversion, the variable is not assigned.
\<close>

definition scan_x :: "nat \<Rightarrow> string \<Rightarrow> (u32 \<times> string) option" where
  "scan_x w s =
     (let (neg, w, s) = sign w (dropWhile isspace s);
          prefixed = (1 < w \<and> take 1 s = ''0'' \<and> (take 2 s = ''0x'' \<or> take 2 s = ''0X''));
          (w, s) = (if prefixed then (w - 2, drop 2 s) else (w, s));
          ds = takeWhile isxdigit (take w s);
          n = number 16 ds;
          v = (if 2 ^ 64 \<le> n then - 1 else if neg then - of_nat n else of_nat n :: u64)
      in if ds = '''' \<and> \<not> prefixed then None else Some (ucast v, drop (length ds) s))"

text \<open>\<^verbatim>\<open>sscanf(data, "%x,%x", &a, &b)\<close>, from the values of the two variables before.\<close>

definition scan_pair :: "string \<Rightarrow> u32 \<times> u32 \<Rightarrow> u32 \<times> u32" where
  "scan_pair s ab =
     (case scan_x (length s) s of None \<Rightarrow> ab
      | Some (a, r) \<Rightarrow>
          (case r of [] \<Rightarrow> (a, snd ab)
           | c # r \<Rightarrow> if c = CHR '','' then
               (case scan_x (length r) r of None \<Rightarrow> (a, snd ab) | Some (b, r) \<Rightarrow> (a, b))
             else (a, snd ab)))"

text \<open>\<^verbatim>\<open>atoi\<close>: \<^verbatim>\<open>strtol\<close> in base ten, which saturates at 64 bits, cut to an int.\<close>

definition atoi :: "string \<Rightarrow> int" where
  "atoi s =
     (let (neg, w, s) = sign 1 (dropWhile isspace s);
          n = number 10 (takeWhile isdigit s);
          v = (if neg then max (- (2 ^ 63)) (- int n) else min (2 ^ 63 - 1) (int n))
      in sint (word_of_int v :: u32))"

section \<open>Words as hexadecimal bytes\<close>

text \<open>
  The order in which the bytes of the union are visited: from the least significant when the
  simulated machine has the byte order of the host, from the most significant otherwise. The simulator is built with \<^verbatim>\<open>BIG_ENDIAN_SIMULATOR\<close>.
\<close>

definition target_big_endian :: int where "target_big_endian = 1"

definition union_order :: "nat list" where
  "union_order = (if is_big_endian = target_big_endian then [0, 1, 2, 3] else [3, 2, 1, 0])"

definition set_byte_of :: "nat \<Rightarrow> u8 \<Rightarrow> u32 \<Rightarrow> u32" where
  "set_byte_of i b v = (v AND NOT (push_bit (8 * i) (mask 8))) OR push_bit (8 * i) (ucast b)"

text \<open>The loop of \<^verbatim>\<open>read_uint32\<close>; \<open>value\<close> keeps its content when \<^verbatim>\<open>sscanf\<close> converts nothing.\<close>

fun read_bytes :: "nat list \<Rightarrow> u32 \<Rightarrow> u32 \<Rightarrow> string \<Rightarrow> u32 option" where
  "read_bytes [] val integer data = Some integer"
| "read_bytes (i # is) val integer data =
     (if NUL \<notin> set data then None
      else let val = (case scan_x 2 (c_str data) of None \<Rightarrow> val | Some (v, r) \<Rightarrow> v)
           in read_bytes is val (set_byte_of i (ucast val) integer) (drop 2 data))"

definition read_uint32 :: "u32 \<Rightarrow> string \<Rightarrow> u32 option" where
  "read_uint32 junk data = read_bytes union_order junk 0 data"

definition write_uint32 :: "u32 \<Rightarrow> string" where
  "write_uint32 val = concat (map (\<lambda>i. fmt_02x (byte_of val i)) union_order)"

section \<open>Packets\<close>

definition MAX_PACKET_SIZE :: nat where "MAX_PACKET_SIZE = 1024"

definition checksum :: "string \<Rightarrow> u8" where
  "checksum s = foldl (\<lambda>check c. check + of_char c) 0 s"

text \<open>The characters \<^verbatim>\<open>gdb_send_buffer\<close> puts into \<^verbatim>\<open>packet\<close> around the string in the buffer.\<close>

definition packet_of :: "string \<Rightarrow> string" where
  "packet_of s = ''$'' @ s @ ''#'' @ fmt_02x (checksum s)"

text \<open>\<^verbatim>\<open>gdb_packet_analysis\<close>: the payload, whether the given checksum is its own, on \<open>$payload#hh\<close>.\<close>

definition payload :: "string \<Rightarrow> string" where
  "payload p = take (length p - 4) (drop 1 p)"

definition checksum_ok :: "string \<Rightarrow> bool" where
  "checksum_ok p =
     (case scan_x 2 (drop (length p - 2) p) of None \<Rightarrow> False
      | Some (given, r) \<Rightarrow> ucast (checksum (payload p)) = given)"

section \<open>Fields\<close>

text \<open>
  A field of fixed width: what is written can be read back whatever follows it. A list of fields
  is then read back field by field.
\<close>

locale field =
  fixes put :: "'v \<Rightarrow> string" and get :: "string \<Rightarrow> 'v option" and width :: nat
  assumes put_width: "length (put v) = width"
    and get_put: "NUL \<in> set rest \<Longrightarrow> get (put v @ rest) = Some v"
begin

lemma put_all_width: "length (concat (map put vs)) = width * length vs"
  by (induction vs) (simp_all add: put_width)

lemma get_nth:
  assumes "i < length vs" "NUL \<in> set rest"
  shows "get (drop (width * i) (concat (map put vs) @ rest)) = Some (vs ! i)"
proof -
  have "concat (map put vs) = concat (map put (take i vs)) @ put (vs ! i) @ concat (map put (drop (Suc i) vs))"
    using assms(1) by (metis append_take_drop_id Cons_nth_drop_Suc concat.simps(2) concat_append list.simps(9) map_append)
  moreover have "length (concat (map put (take i vs))) = width * i"
    using assms(1) put_all_width [of "take i vs"] by simp
  ultimately show ?thesis using assms(2) by (simp add: get_put)
qed

end

section \<open>Hexadecimal digits\<close>

lemma hex_value_digit [simp]: "n < 16 \<Longrightarrow> hex_value (hex_digit 97 n) = Some n"
  by (simp add: hex_value_def hex_digit_def Let_def of_char_of)

lemma isxdigit_digit [simp]: "n < 16 \<Longrightarrow> isxdigit (hex_digit 97 n)"
  by (simp add: isxdigit_def)

lemma hex_digit_not:
  assumes "n < 16"
  shows "\<not> isspace (hex_digit 97 n)" "hex_digit 97 n \<noteq> NUL" "hex_digit 97 n \<noteq> CHR ''-''" "hex_digit 97 n \<noteq> CHR ''+''"
    "hex_digit 97 n \<noteq> CHR ''x''" "hex_digit 97 n \<noteq> CHR ''X''" "hex_digit 97 n \<noteq> CHR ''$''" "hex_digit 97 n \<noteq> CHR ''#''"
proof -
  have "\<forall>n \<in> set [0..<16]. let c = hex_digit 97 n in \<not> isspace c \<and> c \<noteq> NUL \<and> c \<notin> set ''-+xX$#''"
    by code_simp
  with assms have "let c = hex_digit 97 n in \<not> isspace c \<and> c \<noteq> NUL \<and> c \<notin> set ''-+xX$#''" by simp
  then show "\<not> isspace (hex_digit 97 n)" "hex_digit 97 n \<noteq> NUL" "hex_digit 97 n \<noteq> CHR ''-''" "hex_digit 97 n \<noteq> CHR ''+''"
    "hex_digit 97 n \<noteq> CHR ''x''" "hex_digit 97 n \<noteq> CHR ''X''" "hex_digit 97 n \<noteq> CHR ''$''" "hex_digit 97 n \<noteq> CHR ''#''"
    by (simp_all add: Let_def)
qed

lemma nibbles_less [simp]: "unat (b :: u8) div 16 < 16" "unat (b :: u8) mod 16 < 16"
  using unsigned_less [of b, where 'a = nat] by simp_all

lemma NUL_fmt [simp]: "NUL \<notin> set (fmt_02x b)"
  using hex_digit_not(2) [OF nibbles_less(1) [of b]] hex_digit_not(2) [OF nibbles_less(2) [of b]]
  by (auto simp: fmt_02x_def)

lemma c_str_fmt [simp]: "c_str (fmt_02x b @ s) = fmt_02x b @ c_str s"
  using NUL_fmt [of b] by (auto simp: c_str_def takeWhile_append)

lemma scan_x_fmt [simp]: "scan_x 2 (fmt_02x b @ s) = Some (ucast b, s)"
proof -
  let ?h = "hex_digit 97 (unat b div 16)" and ?l = "hex_digit 97 (unat b mod 16)"
  note h = hex_digit_not [OF nibbles_less(1) [of b]] and l = hex_digit_not [OF nibbles_less(2) [of b]]
  have "number 16 [?h, ?l] = unat b" by (simp add: number_def)
  moreover have "unat b < 2 ^ 64" using unsigned_less [of b, where 'a = nat] by simp
  moreover have "ucast (of_nat (unat b) :: u64) = (ucast b :: u32)"
    by (rule bit_word_eqI) (auto simp: bit_simps dest: bit_imp_le_length)
  ultimately show ?thesis
    using h l by (simp add: scan_x_def fmt_02x_def sign_def Let_def)
qed

section \<open>Words and bytes are fields\<close>

lemma ucast_byte [simp]: "ucast (ucast b :: u32) = b" for b :: u8
  by (rule bit_word_eqI) (simp add: bit_simps)

lemma bit_set_byte_of:
  assumes "m < 32"
  shows "bit (set_byte_of i b v) m \<longleftrightarrow> (if 8 * i \<le> m \<and> m < 8 * i + 8 then bit b (m - 8 * i) else bit v m)"
  using assms bit_imp_le_length [of b "m - 8 * i"]
  unfolding set_byte_of_def bit_or_iff bit_and_iff bit_not_iff bit_push_bit_iff bit_mask_iff bit_unsigned_iff
  by (auto simp: exp_eq_zero_iff)

lemma byte_of_set_byte_of:
  assumes "i < 4" "j < 4"
  shows "byte_of (set_byte_of i b v) j = (if j = i then b else byte_of v j)"
proof (rule bit_word_eqI)
  fix n
  assume "n < LENGTH(8)"
  then have "n < 8" by simp
  moreover from this assms have "8 * j + n < 32" by simp
  ultimately show "bit (byte_of (set_byte_of i b v) j) n = bit (if j = i then b else byte_of v j) n"
    using assms by (auto simp: bit_byte_of bit_set_byte_of)
qed

lemma union_order_eq: "union_order = [3, 2, 1, 0]"
  by (simp add: union_order_def is_big_endian_def target_big_endian_def)

lemma NUL_drop2 [simp]: "NUL \<in> set (fmt_02x b @ s) \<longleftrightarrow> NUL \<in> set s"
  by simp

lemma drop_fmt [simp]: "drop 2 (fmt_02x b @ s) = s"
  by simp

lemma read_write_uint32:
  assumes "NUL \<in> set rest"
  shows "read_uint32 junk (write_uint32 v @ rest) = Some v"
proof -
  have "read_uint32 junk (write_uint32 v @ rest) = Some (set_byte_of 0 (byte_of v 0)
      (set_byte_of 1 (byte_of v 1) (set_byte_of 2 (byte_of v 2) (set_byte_of 3 (byte_of v 3) 0))))"
    using assms by (simp add: read_uint32_def write_uint32_def union_order_eq)
  also have "\<dots> = Some v"
    by (rule arg_cong [of _ _ Some], rule word_eq_bytesI)
      (auto simp: less_4_cases byte_of_set_byte_of)
  finally show ?thesis .
qed

interpretation word_field: field write_uint32 "read_uint32 junk" 8
  by unfold_locales (simp_all add: read_write_uint32, simp add: write_uint32_def union_order_eq)

interpretation byte_field: field fmt_02x "\<lambda>s. map_option (\<lambda>(v, r). ucast v) (scan_x 2 (c_str s))" 2
  by unfold_locales simp_all

section \<open>Checksums\<close>

lemma checksum_ok_packet: "checksum_ok (packet_of s)"
  using scan_x_fmt [of "checksum s" "''''"]
  by (simp add: checksum_ok_def packet_of_def payload_def del: scan_x_fmt)

end
