(* ===== verification/Gdb.thy ===== *)
theory Gdb
  imports Arm_Instruction Arm_State Gdb_Packet
begin

text \<open>
  \<^verbatim>\<open>gdb_protocol.h\<close> and \<^verbatim>\<open>gdb_protocol.c\<close>: the server side of the remote protocol of gdb. The commands
  act on the processor; each one but the kill request answers with a packet.
\<close>

section \<open>State\<close>

text \<open>
  The simulator passes the memory of the processor as \<^verbatim>\<open>mem\<close>, so the memory of the server is the
  memory of \<open>arm\<close>. \<open>packet\<close> is the first \<^verbatim>\<open>len\<close> characters of the packet buffer. \<open>sent\<close> holds the
  writes to the connection, the last first; \<open>closed\<close> says that its write side is shut down.
\<close>

record gdb =
  arm :: arm_core
  target_exception :: int
  packet :: string
  sent :: "string list"
  closed :: bool

text \<open>
  How a call ends: it returns, the program exits, an assertion fails, a write to the closed
  connection kills the process, or the steps given to the model of the continue command are used up.
\<close>

datatype status = Running | Exited int | Aborted | Broken_pipe | Looping

type_synonym result = "(status \<times> gdb) option"

text \<open>Sequential composition: what follows is executed when the first part returns.\<close>

definition and_then :: "result \<Rightarrow> (gdb \<Rightarrow> result) \<Rightarrow> result" where
  "and_then m f = do { (st, g) \<leftarrow> m; if st = Running then f g else Some (st, g) }"

definition gdb_init_data :: "arm_core \<Rightarrow> gdb" where
  "gdb_init_data p = \<lparr>arm = p, target_exception = 0, packet = '''', sent = [], closed = False\<rparr>"

section \<open>Sending\<close>

text \<open>\<^verbatim>\<open>Rio_writen\<close> on the connection.\<close>

definition write_all :: "string \<Rightarrow> gdb \<Rightarrow> result" where
  "write_all s g =
     (if closed g \<and> s \<noteq> '''' then Some (Broken_pipe, g) else Some (Running, g\<lparr>sent := s # sent g\<rparr>))"

definition gdb_send_ack :: "gdb \<Rightarrow> result" where
  "gdb_send_ack g = write_all ''+'' g"

definition gdb_require_retransmission :: "gdb \<Rightarrow> result" where
  "gdb_require_retransmission g = write_all ''-'' g"

definition gdb_transmit_packet :: "gdb \<Rightarrow> result" where
  "gdb_transmit_packet g = write_all (packet g) g"

text \<open>
  \<^verbatim>\<open>s\<close> is the string the caller has put into the buffer at \<^verbatim>\<open>packet + 1\<close>. With the dollar sign, the
  checksum and the final null character it has to fit into the packet buffer.
\<close>

definition gdb_send_buffer :: "string \<Rightarrow> gdb \<Rightarrow> result" where
  "gdb_send_buffer s g =
     (if length (packet_of s) + 1 > MAX_PACKET_SIZE then None
      else gdb_transmit_packet (g\<lparr>packet := packet_of s\<rparr>))"

definition gdb_send_data :: "string \<Rightarrow> gdb \<Rightarrow> result" where
  "gdb_send_data s g = gdb_send_buffer s g"

definition gdb_send_stop_reason :: "gdb \<Rightarrow> result" where
  "gdb_send_stop_reason g =
     (if target_exception g = uint UNDEFINED_INSTRUCTION then gdb_send_data ''S04'' g
      else if target_exception g = uint PREFETCH_ABORT \<or> target_exception g = uint DATA_ABORT then
        gdb_send_data ''S10'' g
      else gdb_send_data ''S05'' g)"

definition untraced :: "gdb \<Rightarrow> gdb" where
  "untraced g = g\<lparr>arm := (arm g)\<lparr>tr := trace_disable (tr (arm g))\<rparr>\<rparr>"

definition traced :: "gdb \<Rightarrow> gdb" where
  "traced g = g\<lparr>arm := (arm g)\<lparr>tr := trace_enable (tr (arm g))\<rparr>\<rparr>"

section \<open>Handlers\<close>

text \<open>
  A handler gets the buffer that starts behind the letter of the command: the payload, a null
  character, the two digits of the checksum and the null character of the scanner. \<open>u\<close> is the content of
  uninitialised variables. The loop of the continue command is modelled for as many iterations as
  \<open>js\<close> has elements, each the uninitialised variables of one step.
\<close>

type_synonym handler = "(nat \<Rightarrow> u32) \<Rightarrow> (nat \<Rightarrow> u32) list \<Rightarrow> string \<Rightarrow> gdb \<Rightarrow> result"

fun cont_loop :: "(nat \<Rightarrow> u32) list \<Rightarrow> u32 \<Rightarrow> gdb \<Rightarrow> result" where
  "cont_loop [] instruction g = Some (Looping, g)"
| "cont_loop (j # js) instruction g = do {
     let g = untraced g;
     (r15, p) \<leftarrow> arm_read_register 15 (arm g);
     let r15 = r15 - 4;
     (st, instruction, p) \<leftarrow> arm_read_word r15 instruction p;
     let g = traced (g\<lparr>arm := p\<rparr>);
     if instruction AND 0xFFF000F0 = 0xE7F000F0 then Some (Running, g)
     else do {
       (result, p) \<leftarrow> arm_step j (arm g);
       case result of
         Exit n \<Rightarrow> Some (Exited n, g\<lparr>arm := p\<rparr>)
       | Return e \<Rightarrow> do {
           p \<leftarrow> trace_arm_state p;
           cont_loop js instruction (g\<lparr>arm := p, target_exception := e\<rparr>)
         }
     } }"

declare cont_loop.simps(2) [simp del]

definition cont :: handler where
  "cont u js data g = and_then (cont_loop js (u 19) g) gdb_send_stop_reason"

definition kill_request :: handler where
  "kill_request u js data g = Some (Running, g\<lparr>closed := True\<rparr>)"

definition query :: handler where
  "query u js data g =
     (let s = c_str data in
      if s = ''Offsets'' then gdb_send_data ''Text=0;Data=0;Bss=0'' g
      else if take 9 s = ''Supported'' then gdb_send_data ''PacketSize=400'' g
      else if s = ''TStatus'' then gdb_send_data ''T0;tnotrun:0'' g
      else if s = ''Symbol::'' then gdb_send_data '''' g
      else gdb_send_data '''' g)"

text \<open>One register appended to the buffer; \<^verbatim>\<open>pc\<close> is in advance by one instruction.\<close>

definition append_register :: "nat \<Rightarrow> string \<times> arm_core \<Rightarrow> (string \<times> arm_core) option" where
  "append_register i s =
     (let (buffer, p) = s in do {
        (v, p) \<leftarrow> arm_read_register (of_nat i) p;
        Some (buffer @ write_uint32 (if i < 15 then v else v - 4), p) })"

definition read_general_registers :: handler where
  "read_general_registers u js data g = do {
     let g = untraced g;
     (buffer, p) \<leftarrow> for_each append_register [0..<16] ('''', arm g);
     let buffer = buffer @ concat (replicate 24 ''xxxxxxxx'');
     let buffer = buffer @ ''xxxxxxxx'';
     (v, p) \<leftarrow> arm_read_cpsr p;
     let buffer = buffer @ write_uint32 v;
     gdb_send_buffer buffer (traced (g\<lparr>arm := p\<rparr>)) }"

text \<open>The loop of \<^verbatim>\<open>read_memory\<close>, from the number of bytes left: what it prints.\<close>

fun memory_hex :: "nat \<Rightarrow> u32 \<Rightarrow> u8 \<Rightarrow> memory \<Rightarrow> string option" where
  "memory_hex 0 address val m = Some ''''"
| "memory_hex (Suc n) address val m = do {
     (st, val) \<leftarrow> memory_read_byte m address val;
     if st \<noteq> - 1 then do {
       s \<leftarrow> memory_hex n (address + 1) val m;
       Some (fmt_02x val @ s)
     } else Some '''' }"

definition read_memory :: handler where
  "read_memory u js data g = do {
     let (address, size) = scan_pair (c_str data) (u 20, u 21);
     s \<leftarrow> memory_hex (unat size) address (ucast (u 22)) (mem (arm g));
     gdb_send_buffer s g }"

definition gdb_read_register :: handler where
  "gdb_read_register u js data g =
     (let reg = (word_of_int (atoi (c_str data)) :: u32) in
      if \<not> reg < 16 then Some (Aborted, g)
      else do {
        let g = untraced g;
        (v, p) \<leftarrow> arm_read_register (ucast reg) (arm g);
        gdb_send_buffer (write_uint32 (v - (if reg = 15 then 4 else 0))) (traced (g\<lparr>arm := p\<rparr>)) })"

definition reason :: handler where
  "reason u js data g = gdb_send_stop_reason g"

definition set_thread :: handler where
  "set_thread u js data g =
     (if length data < 2 then None
      else
        (let type = data ! 0; val = atoi (c_str (drop 1 data)) in
         if (type = CHR ''c'' \<or> type = CHR ''g'') \<and> val < 1 \<and> val > - 2 then gdb_send_data ''OK'' g
         else gdb_send_data ''E01'' g))"

definition gdb_step :: handler where
  "gdb_step u js data g = do {
     (result, p) \<leftarrow> arm_step u (arm g);
     case result of
       Exit n \<Rightarrow> Some (Exited n, g\<lparr>arm := p\<rparr>)
     | Return e \<Rightarrow> do {
         p \<leftarrow> trace_arm_state p;
         gdb_send_stop_reason (g\<lparr>arm := p, target_exception := e\<rparr>) } }"

definition write_from :: "(nat \<Rightarrow> u32) \<Rightarrow> string \<Rightarrow> nat \<Rightarrow> arm_core \<Rightarrow> arm_core option" where
  "write_from u data i p = do {
     v \<leftarrow> read_uint32 (u i) (drop (8 * i) data);
     arm_write_register (of_nat i) v p }"

text \<open>The values read for the floating point registers and their status are not used.\<close>

definition write_general_registers :: handler where
  "write_general_registers u js data g = do {
     let g = untraced g;
     p \<leftarrow> for_each (write_from u data) [0..<16] (arm g);
     w \<leftarrow> for_each (\<lambda>i w. read_uint32 (u i) (drop (8 * i) data)) [16..<41] 0;
     v \<leftarrow> read_uint32 (u 41) (drop (8 * 41) data);
     p \<leftarrow> arm_write_cpsr v p;
     gdb_send_data ''OK'' (traced (g\<lparr>arm := p\<rparr>)) }"

text \<open>The loop of \<^verbatim>\<open>write_memory_binary\<close>, from the number of bytes left; it returns \<^verbatim>\<open>write_ok\<close>.\<close>

fun write_content :: "nat \<Rightarrow> string \<Rightarrow> u32 \<Rightarrow> memory \<Rightarrow> (bool \<times> memory) option" where
  "write_content 0 content address m = Some (True, m)"
| "write_content (Suc n) content address m = do {
     c \<leftarrow> arr_get content 0;
     (val, content) \<leftarrow>
       (if c = CHR 0x7d then do {
          c \<leftarrow> arr_get content 1;
          Some ((of_char c :: u8) XOR 0x20, drop 1 content)
        } else Some (of_char c, content));
     (st, m) \<leftarrow> memory_write_byte m address val;
     if st = 0 then write_content n (drop 1 content) (address + 1) m else Some (False, m) }"

text \<open>\<^verbatim>\<open>index(data, c) + 1\<close>: \<^verbatim>\<open>index\<close> is null when there is no such character in the string.\<close>

definition after_char :: "char \<Rightarrow> string \<Rightarrow> string option" where
  "after_char c data =
     (if c \<in> set (c_str data) then Some (drop 1 (dropWhile (\<lambda>d. d \<noteq> c) data)) else None)"

definition write_memory_binary :: handler where
  "write_memory_binary u js data g = do {
     let (address, size) = scan_pair (c_str data) (u 20, u 21);
     content \<leftarrow> (if CHR '':'' \<in> set (c_str data) then after_char CHR '':'' data
                else if size = 0 \<or> \<not> ucast address < memory_get_size (mem (arm g)) then Some '''' else None);
     let write_ok = (ucast address < memory_get_size (mem (arm g)));
     (write_ok, m) \<leftarrow> (if write_ok then write_content (unat size) content address (mem (arm g))
                      else Some (False, mem (arm g)));
     let g = g\<lparr>arm := (arm g)\<lparr>mem := m\<rparr>\<rparr>;
     if write_ok then gdb_send_data ''OK'' g else gdb_send_data ''E02'' g }"

definition gdb_write_register :: handler where
  "gdb_write_register u js data g = do {
     let reg = (case scan_x (length (c_str data)) (c_str data) of None \<Rightarrow> u 23 | Some (r, s) \<Rightarrow> r);
     data \<leftarrow> after_char CHR ''='' data;
     val \<leftarrow> read_uint32 (u 24) data;
     if \<not> reg < 16 then Some (Aborted, g)
     else do {
       let g = untraced g;
       p \<leftarrow> arm_write_register (ucast reg) val (arm g);
       gdb_send_data ''OK'' (traced (g\<lparr>arm := p\<rparr>)) } }"

section \<open>Dispatch\<close>

text \<open>The table \<^verbatim>\<open>gdb_init\<close> fills.\<close>

definition gdb_handler :: "char \<Rightarrow> handler option" where
  "gdb_handler c =
     (if c = CHR ''c'' then Some cont
      else if c = CHR ''k'' then Some kill_request
      else if c = CHR ''q'' then Some query
      else if c = CHR ''g'' then Some read_general_registers
      else if c = CHR ''m'' then Some read_memory
      else if c = CHR ''p'' then Some gdb_read_register
      else if c = CHR ''?'' then Some reason
      else if c = CHR ''H'' then Some set_thread
      else if c = CHR ''s'' then Some gdb_step
      else if c = CHR ''G'' then Some write_general_registers
      else if c = CHR ''X'' then Some write_memory_binary
      else if c = CHR ''P'' then Some gdb_write_register
      else None)"

text \<open>
  \<open>pk\<close> is the packet the scanner has recognised, a dollar sign, the payload, \<^verbatim>\<open>#\<close> and two digits.
  The null character written over \<^verbatim>\<open>#\<close> ends the payload.
\<close>

definition gdb_packet_analysis :: "(nat \<Rightarrow> u32) \<Rightarrow> (nat \<Rightarrow> u32) list \<Rightarrow> string \<Rightarrow> gdb \<Rightarrow> result" where
  "gdb_packet_analysis u js pk g =
     (if checksum_ok pk then
        and_then (gdb_send_ack g) (\<lambda>g.
          let buffer = payload pk @ [NUL] @ drop (length pk - 2) pk @ [NUL] in
          case gdb_handler (buffer ! 0) of
            Some h \<Rightarrow> h u js (drop 1 buffer) g
          | None \<Rightarrow> gdb_send_data '''' g)
      else gdb_require_retransmission g)"

end
