(* ===== verification/Rio.thy ===== *)
theory Rio
  imports Gdb
begin

text \<open>
  \<^verbatim>\<open>csapp.c\<close>: the robust reads and writes of the Rio package and the wrappers the program uses. The
  system calls are a parameter: the state holds what they will answer, in order. A call without an
  answer waits for ever, \<open>None\<close>.
\<close>

section \<open>System calls\<close>

definition EINTR :: int where "EINTR = 4"

text \<open>What the other side has sent, no character being its end, and what becomes of a write.\<close>

datatype incoming = Data string | Read_fails int
datatype outgoing = Accepts nat | Write_fails int

record sys =
  errno :: int
  incoming :: "incoming list"
  outgoing :: "outgoing list"
  written :: string

text \<open>\<^verbatim>\<open>read\<close> returns at most \<open>n\<close> characters and leaves the others for the next call.\<close>

definition sys_read :: "nat \<Rightarrow> sys \<Rightarrow> (int \<times> string \<times> sys) option" where
  "sys_read n s =
     (case incoming s of [] \<Rightarrow> None
      | Read_fails e # is \<Rightarrow> Some (- 1, '''', s\<lparr>errno := e, incoming := is\<rparr>)
      | Data d # is \<Rightarrow>
          if length d \<le> n then Some (int (length d), d, s\<lparr>incoming := is\<rparr>)
          else Some (int n, take n d, s\<lparr>incoming := Data (drop n d) # is\<rparr>))"

definition sys_write :: "string \<Rightarrow> sys \<Rightarrow> (int \<times> sys) option" where
  "sys_write buf s =
     (case outgoing s of [] \<Rightarrow> None
      | Write_fails e # os \<Rightarrow> Some (- 1, s\<lparr>errno := e, outgoing := os\<rparr>)
      | Accepts k # os \<Rightarrow>
          Some (int (min k (length buf)), s\<lparr>outgoing := os, written := written s @ take k buf\<rparr>))"

section \<open>Unbuffered\<close>

text \<open>The loop of \<^verbatim>\<open>rio_readn\<close>: \<open>got\<close> is what it has put into \<^verbatim>\<open>usrbuf\<close>.\<close>

partial_function (option) readn_loop :: "nat \<Rightarrow> nat \<Rightarrow> string \<Rightarrow> sys \<Rightarrow> (int \<times> string \<times> sys) option" where
  "readn_loop n nleft got s =
     (if nleft > 0 then do {
        (nread, d, s) \<leftarrow> sys_read nleft s;
        if nread < 0 then
          if errno s = EINTR then readn_loop n nleft got s else Some (- 1, got, s)
        else if nread = 0 then Some (int (n - nleft), got, s)
        else readn_loop n (nleft - nat nread) (got @ d) s
      } else Some (int (n - nleft), got, s))"

definition rio_readn :: "nat \<Rightarrow> sys \<Rightarrow> (int \<times> string \<times> sys) option" where
  "rio_readn n s = readn_loop n n '''' s"

text \<open>The loop of \<^verbatim>\<open>rio_writen\<close>: \<open>bufp\<close> is what is left. A write of nothing tests an old \<^verbatim>\<open>errno\<close>.\<close>

partial_function (option) writen_loop :: "nat \<Rightarrow> string \<Rightarrow> sys \<Rightarrow> (int \<times> sys) option" where
  "writen_loop n bufp s =
     (if bufp \<noteq> '''' then do {
        (nwritten, s) \<leftarrow> sys_write bufp s;
        if nwritten \<le> 0 then
          if errno s = EINTR then writen_loop n bufp s else Some (- 1, s)
        else writen_loop n (drop (nat nwritten) bufp) s
      } else Some (int n, s))"

definition rio_writen :: "string \<Rightarrow> sys \<Rightarrow> (int \<times> sys) option" where
  "rio_writen buf s = writen_loop (length buf) buf s"

section \<open>Buffered\<close>

definition RIO_BUFSIZE :: nat where "RIO_BUFSIZE = 8192"

text \<open>\<open>rio_unread\<close> is the contents of \<^verbatim>\<open>rio_buf\<close> from \<^verbatim>\<open>rio_bufptr\<close> on.\<close>

record rio =
  rio_cnt :: int
  rio_unread :: string

definition rio_readinitb :: rio where
  "rio_readinitb = \<lparr>rio_cnt = 0, rio_unread = ''''\<rparr>"

partial_function (option) rio_read :: "nat \<Rightarrow> rio \<Rightarrow> sys \<Rightarrow> (int \<times> string \<times> rio \<times> sys) option" where
  "rio_read n rp s =
     (if rio_cnt rp \<le> 0 then do {
        (c, d, s) \<leftarrow> sys_read RIO_BUFSIZE s;
        let rp = rp\<lparr>rio_cnt := c\<rparr>;
        if rio_cnt rp < 0 then
          if errno s \<noteq> EINTR then Some (- 1, '''', rp, s) else rio_read n rp s
        else if rio_cnt rp = 0 then Some (0, '''', rp, s)
        else rio_read n (rp\<lparr>rio_unread := d\<rparr>) s
      } else
        let cnt = (if rio_cnt rp < int n then rio_cnt rp else int n) in
        Some (cnt, take (nat cnt) (rio_unread rp),
          rp\<lparr>rio_unread := drop (nat cnt) (rio_unread rp), rio_cnt := rio_cnt rp - cnt\<rparr>, s))"

partial_function (option) readnb_loop :: "nat \<Rightarrow> nat \<Rightarrow> string \<Rightarrow> rio \<Rightarrow> sys \<Rightarrow> (int \<times> string \<times> rio \<times> sys) option" where
  "readnb_loop n nleft got rp s =
     (if nleft > 0 then do {
        (nread, d, rp, s) \<leftarrow> rio_read nleft rp s;
        if nread < 0 then
          if errno s = EINTR then readnb_loop n nleft got rp s else Some (- 1, got, rp, s)
        else if nread = 0 then Some (int (n - nleft), got, rp, s)
        else readnb_loop n (nleft - nat nread) (got @ d) rp s
      } else Some (int (n - nleft), got, rp, s))"

definition rio_readnb :: "nat \<Rightarrow> rio \<Rightarrow> sys \<Rightarrow> (int \<times> string \<times> rio \<times> sys) option" where
  "rio_readnb n rp s = readnb_loop n n '''' rp s"

text \<open>
  The loop of \<^verbatim>\<open>rio_readlineb\<close> from its counter \<open>n\<close>; \<open>line\<close> is what it has put into \<^verbatim>\<open>usrbuf\<close>. The null
  character behind the line is not shown.
\<close>

partial_function (option) readlineb_loop :: "nat \<Rightarrow> nat \<Rightarrow> string \<Rightarrow> rio \<Rightarrow> sys \<Rightarrow> (int \<times> string \<times> rio \<times> sys) option" where
  "readlineb_loop maxlen n line rp s =
     (if n < maxlen then do {
        (rc, c, rp, s) \<leftarrow> rio_read 1 rp s;
        if rc = 1 then
          if c = [CHR 0x0A] then Some (int n, line @ c, rp, s)
          else readlineb_loop maxlen (n + 1) (line @ c) rp s
        else if rc = 0 then
          if n = 1 then Some (0, line, rp, s) else Some (int n, line, rp, s)
        else Some (- 1, line, rp, s)
      } else Some (int n, line, rp, s))"

definition rio_readlineb :: "nat \<Rightarrow> rio \<Rightarrow> sys \<Rightarrow> (int \<times> string \<times> rio \<times> sys) option" where
  "rio_readlineb maxlen rp s = readlineb_loop maxlen 1 '''' rp s"

section \<open>Wrappers\<close>

text \<open>A wrapper returns or ends the program, by \<^verbatim>\<open>unix_error\<close>, with the status 0.\<close>

datatype 'a ending = Returns 'a | Exits int

definition unix_error :: "'a ending" where
  "unix_error = Exits 0"

definition Rio_readn :: "nat \<Rightarrow> sys \<Rightarrow> ((int \<times> string) ending \<times> sys) option" where
  "Rio_readn n s = do {
     (rc, d, s) \<leftarrow> rio_readn n s;
     Some (if rc < 0 then unix_error else Returns (rc, d), s) }"

definition Rio_writen :: "string \<Rightarrow> sys \<Rightarrow> (unit ending \<times> sys) option" where
  "Rio_writen buf s = do {
     (rc, s) \<leftarrow> rio_writen buf s;
     Some (if rc \<noteq> int (length buf) then unix_error else Returns (), s) }"

definition Rio_readnb :: "nat \<Rightarrow> rio \<Rightarrow> sys \<Rightarrow> ((int \<times> string \<times> rio) ending \<times> sys) option" where
  "Rio_readnb n rp s = do {
     (rc, d, rp, s) \<leftarrow> rio_readnb n rp s;
     Some (if rc < 0 then unix_error else Returns (rc, d, rp), s) }"

definition Rio_readlineb :: "nat \<Rightarrow> rio \<Rightarrow> sys \<Rightarrow> ((int \<times> string \<times> rio) ending \<times> sys) option" where
  "Rio_readlineb maxlen rp s = do {
     (rc, d, rp, s) \<leftarrow> rio_readlineb maxlen rp s;
     Some (if rc < 0 then unix_error else Returns (rc, d, rp), s) }"

definition Read :: "nat \<Rightarrow> sys \<Rightarrow> ((int \<times> string) ending \<times> sys) option" where
  "Read n s = do {
     (rc, d, s) \<leftarrow> sys_read n s;
     Some (if rc < 0 then unix_error else Returns (rc, d), s) }"

definition Write :: "string \<Rightarrow> sys \<Rightarrow> (int ending \<times> sys) option" where
  "Write buf s = do {
     (rc, s) \<leftarrow> sys_write buf s;
     Some (if rc < 0 then unix_error else Returns rc, s) }"

section \<open>Writes\<close>

text \<open>An answer with which the loop goes on.\<close>

fun goes_on :: "outgoing \<Rightarrow> bool" where
  "goes_on (Accepts k) = (0 < k)"
| "goes_on (Write_fails e) = (e = EINTR)"

definition is_accept :: "outgoing \<Rightarrow> bool" where
  "is_accept a = (case a of Accepts k \<Rightarrow> True | Write_fails e \<Rightarrow> False)"

lemma writen_loop_writes:
  assumes "list_all goes_on (outgoing s)" "length bufp \<le> length (filter is_accept (outgoing s))"
  shows "\<exists>t. writen_loop n bufp s = Some (int n, t) \<and> written t = written s @ bufp"
  using assms
proof (induction "outgoing s" arbitrary: s bufp)
  case Nil
  then show ?case by (subst writen_loop.simps) simp
next
  case (Cons a os)
  show ?case
  proof (cases "bufp = ''''")
    case True
    then show ?thesis by (subst writen_loop.simps) simp
  next
    case False
    note a = Cons.hyps(2) [symmetric]
    show ?thesis
    proof (cases a)
      case (Accepts k)
      let ?t = "s\<lparr>outgoing := os, written := written s @ take k bufp\<rparr>"
      have k: "0 < k" using Cons.prems(1) a Accepts by simp
      have "sys_write bufp s = Some (int (min k (length bufp)), ?t)" using a Accepts by (simp add: sys_write_def)
      then have "writen_loop n bufp s = writen_loop n (drop k bufp) ?t"
        using False k by (subst writen_loop.simps) (cases "k \<le> length bufp"; simp)
      moreover have "length (drop k bufp) \<le> length (filter is_accept (outgoing ?t))" "list_all goes_on (outgoing ?t)"
        using Cons.prems a Accepts k by (simp_all add: is_accept_def)
      ultimately show ?thesis using Cons.hyps(1) [of ?t "drop k bufp"] by simp
    next
      case (Write_fails e)
      let ?t = "s\<lparr>errno := e, outgoing := os\<rparr>"
      have "sys_write bufp s = Some (- 1, ?t)" using a Write_fails by (simp add: sys_write_def)
      moreover have "e = EINTR" using Cons.prems(1) a Write_fails by simp
      ultimately have "writen_loop n bufp s = writen_loop n bufp ?t"
        using False by (subst writen_loop.simps) simp
      moreover have "length bufp \<le> length (filter is_accept (outgoing ?t))" "list_all goes_on (outgoing ?t)"
        using Cons.prems a Write_fails by (simp_all add: is_accept_def)
      ultimately show ?thesis using Cons.hyps(1) [of ?t bufp] by simp
    qed
  qed
qed

text \<open>
  C19. Rio_writen returns, whatever short writes and interrupted calls the system answers with,
  as long as enough of its calls accept something; it has then written the whole buffer once,
  which is what the handlers of the protocol rely on.
\<close>

theorem writes_are_complete:
  assumes "list_all goes_on (outgoing s)" "length buf \<le> length (filter is_accept (outgoing s))"
    "\<not> closed g" "written s = concat (rev (sent g))"
  shows "\<exists>t h. Rio_writen buf s = Some (Returns (), t) \<and> write_all buf g = Some (Running, h) \<and>
    written t = concat (rev (sent h))"
  using writen_loop_writes [OF assms(1,2), of "length buf"] assms(3,4)
  by (auto simp: Rio_writen_def rio_writen_def write_all_def)

theorem writes_are_complete_witness:
  "\<exists>t h. Rio_writen ''$OK#9a'' \<lparr>errno = 0, incoming = [],
       outgoing = [Accepts 2, Write_fails 4, Accepts 1, Accepts 9, Accepts 1, Accepts 1, Accepts 1], written = ''''\<rparr> =
       Some (Returns (), t) \<and>
     write_all ''$OK#9a'' (gdb_init_data example_core) = Some (Running, h) \<and> written t = concat (rev (sent h))"
  by (rule writes_are_complete) (simp_all add: EINTR_def is_accept_def gdb_init_data_def)

section \<open>Reads\<close>

text \<open>
  What a sequence of reads delivers, however it is cut: the characters up to the end of the file or
  an error other than an interrupted call, and how they end.
\<close>

datatype stop = Eof | Error int | Waits

fun delivered :: "incoming list \<Rightarrow> string" where
  "delivered [] = ''''"
| "delivered (Data d # is) = (if d = '''' then '''' else d @ delivered is)"
| "delivered (Read_fails e # is) = (if e = EINTR then delivered is else '''')"

fun stops :: "incoming list \<Rightarrow> stop" where
  "stops [] = Waits"
| "stops (Data d # is) = (if d = '''' then Eof else stops is)"
| "stops (Read_fails e # is) = (if e = EINTR then stops is else Error e)"

text \<open>What the reader still gets: the rest of the buffer, then what is delivered.\<close>

definition pending :: "rio \<Rightarrow> sys \<Rightarrow> string" where
  "pending rp s = (if rio_cnt rp > 0 then rio_unread rp else '''') @ delivered (incoming s)"

definition wf_rio :: "rio \<Rightarrow> bool" where
  "wf_rio rp \<longleftrightarrow> 0 < rio_cnt rp \<longrightarrow> rio_cnt rp = int (length (rio_unread rp))"

text \<open>A filled buffer is copied from.\<close>

lemma rio_read_filled:
  assumes "0 < rio_cnt rp" "wf_rio rp" "0 < n"
  shows "\<exists>rq. rio_read n rp s = Some (int (length (take n (rio_unread rp))), take n (rio_unread rp), rq, s) \<and>
    wf_rio rq \<and> pending rp s = take n (rio_unread rp) @ pending rq s \<and> take n (rio_unread rp) \<noteq> ''''"
proof -
  have c: "rio_cnt rp = int (length (rio_unread rp))" using assms(1,2) by (simp add: wf_rio_def)
  then have u: "rio_unread rp \<noteq> ''''" using assms(1) by auto
  show ?thesis
  proof (cases "length (rio_unread rp) < n")
    case True
    let ?rq = "rp\<lparr>rio_unread := drop n (rio_unread rp), rio_cnt := 0\<rparr>"
    have "rio_read n rp s = Some (int (length (rio_unread rp)), rio_unread rp, ?rq, s)"
      using True assms(1) c by (subst rio_read.simps) (simp add: Let_def)
    moreover have "pending rp s = rio_unread rp @ pending ?rq s" using assms(1) by (simp add: pending_def)
    ultimately show ?thesis using True u by (intro exI [of _ ?rq]) (simp add: wf_rio_def)
  next
    case False
    let ?rq = "rp\<lparr>rio_unread := drop n (rio_unread rp), rio_cnt := int (length (rio_unread rp) - n)\<rparr>"
    have "rio_read n rp s = Some (int n, take n (rio_unread rp), ?rq, s)"
      using False assms(1) c by (subst rio_read.simps) (simp add: Let_def of_nat_diff)
    moreover have "pending rp s = take n (rio_unread rp) @ pending ?rq s"
      using assms(1) False by (auto simp: pending_def)
    ultimately show ?thesis using False u assms(3) by (intro exI [of _ ?rq]) (simp add: wf_rio_def)
  qed
qed

text \<open>A read gets characters, the end of the file, an error, or waits.\<close>

lemma rio_read_gets:
  assumes "wf_rio rp" "0 < n" "pending rp s \<noteq> ''''"
  shows "\<exists>d rq t. rio_read n rp s = Some (int (length d), d, rq, t) \<and> d \<noteq> '''' \<and> length d \<le> n \<and> wf_rio rq \<and>
    pending rp s = d @ pending rq t \<and> stops (incoming t) = stops (incoming s)"
  using assms
proof (induction "length (incoming s)" arbitrary: rp s rule: less_induct)
  case less
  show ?case
  proof (cases "0 < rio_cnt rp")
    case True
    from rio_read_filled [OF this less.prems(1,2), of s] show ?thesis by fastforce
  next
    case False
    then have p: "delivered (incoming s) \<noteq> ''''" using less.prems(3) by (simp add: pending_def)
    then obtain a as where i: "incoming s = a # as" by (cases "incoming s") auto
    show ?thesis
    proof (cases a)
      case (Data d)
      have d: "d \<noteq> ''''" using p i Data by auto
      define t where "t = (if length d \<le> RIO_BUFSIZE then s\<lparr>incoming := as\<rparr>
        else s\<lparr>incoming := Data (drop RIO_BUFSIZE d) # as\<rparr>)"
      let ?b = "take RIO_BUFSIZE d"
      define k where "k = length ?b"
      let ?rq = "rp\<lparr>rio_cnt := int k, rio_unread := ?b\<rparr>"
      have "0 < RIO_BUFSIZE" by (simp add: RIO_BUFSIZE_def)
      then have b: "?b \<noteq> ''''" "0 < k" using d by (simp_all add: k_def)
      have "sys_read RIO_BUFSIZE s = Some (int k, ?b, t)"
        using i Data by (simp add: sys_read_def t_def k_def)
      then have "rio_read n rp s = rio_read n ?rq t"
        using False b by (subst rio_read.simps) (simp add: Let_def)
      moreover have "wf_rio ?rq" "0 < rio_cnt ?rq" using b(2) by (simp_all add: wf_rio_def k_def)
      moreover have "pending rp s = pending ?rq t" "stops (incoming t) = stops (incoming s)"
        using False b d i Data by (auto simp: pending_def t_def)
      ultimately show ?thesis using rio_read_filled [of ?rq n t] less.prems(2) by fastforce
    next
      case (Read_fails e)
      let ?t = "s\<lparr>errno := e, incoming := as\<rparr>" and ?rq = "rp\<lparr>rio_cnt := - 1\<rparr>"
      have e: "e = EINTR" using p i Read_fails by (auto split: if_splits)
      then have "rio_read n rp s = rio_read n ?rq ?t"
        using False i Read_fails by (subst rio_read.simps) (simp add: Let_def sys_read_def)
      moreover have "wf_rio ?rq" "pending rp s = pending ?rq ?t" "stops (incoming ?t) = stops (incoming s)"
        using False i Read_fails e by (simp_all add: wf_rio_def pending_def)
      moreover have "length (incoming ?t) < length (incoming s)" using i by simp
      ultimately show ?thesis using less.hyps [of ?t ?rq] less.prems by simp
    qed
  qed
qed

text \<open>A read that gets nothing.\<close>

lemma rio_read_stops:
  assumes "wf_rio rp" "pending rp s = ''''"
  shows "case stops (incoming s) of
      Eof \<Rightarrow> \<exists>rq t. rio_read n rp s = Some (0, '''', rq, t)
    | Error e \<Rightarrow> \<exists>rq t. rio_read n rp s = Some (- 1, '''', rq, t) \<and> errno t \<noteq> EINTR
    | Waits \<Rightarrow> rio_read n rp s = None"
  using assms
proof (induction "length (incoming s)" arbitrary: rp s rule: less_induct)
  case less
  have e: "\<not> 0 < rio_cnt rp" "delivered (incoming s) = ''''"
    using less.prems by (auto simp: pending_def wf_rio_def)
  show ?case
  proof (cases "incoming s")
    case Nil
    then show ?thesis using e(1) by (subst rio_read.simps) (simp add: sys_read_def)
  next
    case (Cons a as)
    show ?thesis
    proof (cases a)
      case (Data d)
      then have "d = ''''" using e(2) Cons by (auto split: if_splits)
      with Data Cons e(1) show ?thesis by (subst rio_read.simps) (simp add: sys_read_def Let_def)
    next
      case (Read_fails c)
      let ?t = "s\<lparr>errno := c, incoming := as\<rparr>" and ?rq = "rp\<lparr>rio_cnt := - 1\<rparr>"
      show ?thesis
      proof (cases "c = EINTR")
        case True
        then have "rio_read n rp s = rio_read n ?rq ?t"
          using e(1) Cons Read_fails by (subst rio_read.simps) (simp add: sys_read_def Let_def)
        moreover have "wf_rio ?rq" "pending ?rq ?t = ''''" "stops (incoming ?t) = stops (incoming s)"
          using True e(2) Cons Read_fails by (simp_all add: wf_rio_def pending_def)
        ultimately show ?thesis using less.hyps [of ?t ?rq] Cons by (cases "stops (incoming s)") simp_all
      next
        case False
        with Read_fails Cons e(1) show ?thesis by (subst rio_read.simps) (simp add: sys_read_def Let_def)
      qed
    qed
  qed
qed

definition buffered_result :: "nat \<Rightarrow> string \<Rightarrow> stop \<Rightarrow> (int \<times> string) option" where
  "buffered_result n w st =
     (if n \<le> length w then Some (int n, take n w)
      else case st of Eof \<Rightarrow> Some (int (length w), w) | Error e \<Rightarrow> Some (- 1, w) | Waits \<Rightarrow> None)"

lemma readnb_loop_reads:
  assumes "wf_rio rp" "nleft \<le> n" "length got = n - nleft"
  shows "map_option (\<lambda>(rc, d, r). (rc, d)) (readnb_loop n nleft got rp s) =
      buffered_result n (got @ pending rp s) (stops (incoming s)) \<and>
    (n \<le> length (got @ pending rp s) \<longrightarrow> (\<exists>rc d rq t. readnb_loop n nleft got rp s = Some (rc, d, rq, t) \<and>
      wf_rio rq \<and> pending rq t = drop nleft (pending rp s)))"
  using assms
proof (induction nleft arbitrary: got rp s rule: less_induct)
  case (less nleft)
  show ?case
  proof (cases "nleft = 0")
    case True
    then show ?thesis using less.prems by (subst (1 2) readnb_loop.simps) (simp add: buffered_result_def)
  next
    case False
    show ?thesis
    proof (cases "pending rp s = ''''")
      case True
      then have "\<not> n \<le> length (got @ pending rp s)" using False less.prems(2,3) by simp
      then show ?thesis
        using rio_read_stops [OF less.prems(1) True, of nleft] False less.prems True
        by (subst (1 2) readnb_loop.simps) (auto simp: buffered_result_def split: stop.splits)
    next
      case ne: False
      from rio_read_gets [OF less.prems(1) _ ne, of nleft] False obtain d rq t where
        d: "rio_read nleft rp s = Some (int (length d), d, rq, t)" "d \<noteq> ''''" "length d \<le> nleft" "wf_rio rq"
          "pending rp s = d @ pending rq t" "stops (incoming t) = stops (incoming s)"
        by auto
      then have "readnb_loop n nleft got rp s = readnb_loop n (nleft - length d) (got @ d) rq t"
        using False by (subst readnb_loop.simps) simp
      moreover have "nleft - length d < nleft" "nleft - length d \<le> n" "length (got @ d) = n - (nleft - length d)"
        using False d(2,3) less.prems(2,3) by auto
      ultimately show ?thesis
        using less.IH [of "nleft - length d" rq "got @ d" t] d(3-6) by simp
    qed
  qed
qed

text \<open>
  C37. The buffered read of n characters returns the first n characters sent, those before the
  end of the file, or an error, whatever the pieces in which they arrive and the interrupted
  calls between them.
\<close>

theorem buffered_reads_join_pieces:
  assumes "wf_rio rp"
  shows "map_option (\<lambda>(rc, d, r). (rc, d)) (rio_readnb n rp s) = buffered_result n (pending rp s) (stops (incoming s))"
  using readnb_loop_reads [OF assms, of n n "''''" s] by (simp add: rio_readnb_def)

theorem buffered_reads_join_pieces_witness:
  "map_option (\<lambda>(rc, d, r). (rc, d)) (rio_readnb 5 rio_readinitb
     \<lparr>errno = 0, incoming = [Data ''ab'', Read_fails 4, Data ''cdefg''], outgoing = [], written = ''''\<rparr>) =
   Some (5, ''abcde'')"
proof -
  have "wf_rio rio_readinitb" by (simp add: wf_rio_def rio_readinitb_def)
  from buffered_reads_join_pieces [OF this] show ?thesis
    by (simp add: pending_def rio_readinitb_def EINTR_def buffered_result_def numeral_eq_Suc)
qed

section \<open>Lines\<close>

definition line_of :: "string \<Rightarrow> string" where
  "line_of w = takeWhile (\<lambda>c. c \<noteq> CHR 0x0A) w @ (if CHR 0x0A \<in> set w then [CHR 0x0A] else '''')"

lemma line_of_simps [simp]:
  "line_of '''' = ''''" "line_of (c # w) = (if c = CHR 0x0A then [c] else c # line_of w)"
  by (auto simp: line_of_def)

text \<open>The count the loop returns when it has added \<open>l\<close> to the line.\<close>

definition line_count :: "nat \<Rightarrow> nat \<Rightarrow> string \<Rightarrow> int" where
  "line_count maxlen n l =
     (if CHR 0x0A \<in> set l then int (n - 1 + length l)
      else if l = '''' \<and> n = 1 \<and> n < maxlen then 0 else int (n + length l))"

lemma readlineb_loop_reads:
  assumes "wf_rio rp" "0 < n" "l = take (maxlen - n) (line_of (pending rp s))"
    "CHR 0x0A \<in> set l \<or> length l = maxlen - n \<or> stops (incoming s) = Eof"
  shows "map_option (\<lambda>(rc, d, r). (rc, d)) (readlineb_loop maxlen n line rp s) = Some (line_count maxlen n l, line @ l)"
  using assms
proof (induction "maxlen - n" arbitrary: n line l rp s)
  case 0
  then show ?case by (subst readlineb_loop.simps) (simp add: line_count_def)
next
  case (Suc m)
  have n: "n < maxlen" "maxlen - n = Suc m" using Suc.hyps(2) by simp_all
  show ?case
  proof (cases "pending rp s")
    case Nil
    then have "l = ''''" "stops (incoming s) = Eof" using Suc.prems n by simp_all
    then show ?thesis
      using rio_read_stops [OF Suc.prems(1) Nil, of 1] n(1) by (subst readlineb_loop.simps) (auto simp: line_count_def)
  next
    case (Cons c w)
    from rio_read_gets [OF Suc.prems(1), of 1 s] Cons obtain d rq t where
      d: "rio_read 1 rp s = Some (int (length d), d, rq, t)" "d \<noteq> ''''" "length d \<le> 1" "wf_rio rq"
        "pending rp s = d @ pending rq t" "stops (incoming t) = stops (incoming s)"
      by auto
    from d(2,3,5) Cons have dc: "d = [c]" "pending rq t = w" by (cases d; simp)+
    show ?thesis
    proof (cases "c = CHR 0x0A")
      case True
      then have "l = [c]" using Suc.prems(3) Cons n by simp
      with True n d(1) dc(1) Suc.prems(2) show ?thesis by (subst readlineb_loop.simps) (simp add: line_count_def)
    next
      case False
      define k where "k = take m (line_of w)"
      have l: "l = c # k" using False Suc.prems(3) Cons n by (simp add: k_def)
      have "readlineb_loop maxlen n line rp s = readlineb_loop maxlen (n + 1) (line @ [c]) rq t"
        using False n d(1) dc(1) by (subst readlineb_loop.simps) simp
      moreover have m: "m = maxlen - (n + 1)" using n by simp
      moreover have "k = take (maxlen - (n + 1)) (line_of (pending rq t))"
        unfolding k_def m dc(2) ..
      moreover have "CHR 0x0A \<in> set k \<or> length k = maxlen - (n + 1) \<or> stops (incoming t) = Eof"
        using Suc.prems(4) l False n d(6) by auto
      ultimately show ?thesis
        using Suc.hyps(1) [of "n + 1" rq k t "line @ [c]"] d(4) Suc.prems(2) False by (auto simp: l line_count_def)
    qed
  qed
qed

text \<open>
  \<^verbatim>\<open>rio_readlineb\<close> delivers the line, cut to \<open>maxlen - 1\<close> characters; the count it returns is the length
  of a line that ends with a newline, and one more than the length of any other.
\<close>

theorem line_reads:
  assumes "wf_rio rp" "l = take (maxlen - 1) (line_of (pending rp s))"
    "CHR 0x0A \<in> set l \<or> length l = maxlen - 1 \<or> stops (incoming s) = Eof"
  shows "map_option (\<lambda>(rc, d, r). (rc, d)) (rio_readlineb maxlen rp s) =
    Some (if CHR 0x0A \<in> set l then int (length l) else if l = '''' \<and> 1 < maxlen then 0 else int (length l) + 1, l)"
  using readlineb_loop_reads [OF assms(1) _ assms(2,3), of "''''"] by (auto simp: rio_readlineb_def line_count_def)

text \<open>The unbuffered read, which differs from the buffered one in what a failed call leaves.\<close>

text \<open>One turn of the loop, on each answer of the system call.\<close>

lemma readn_loop_end: "readn_loop n 0 got s = Some (int n, got, s)"
  by (subst readn_loop.simps) simp

lemma readn_loop_waits: "0 < nleft \<Longrightarrow> incoming s = [] \<Longrightarrow> readn_loop n nleft got s = None"
  by (subst readn_loop.simps) (simp add: sys_read_def)

lemma readn_loop_data:
  assumes "incoming s = Data d # as" "d \<noteq> ''''" "length d \<le> nleft"
  shows "readn_loop n nleft got s = readn_loop n (nleft - length d) (got @ d) (s\<lparr>incoming := as\<rparr>)"
  using assms by (subst readn_loop.simps) (auto simp: sys_read_def)

lemma readn_loop_surplus:
  assumes "incoming s = Data d # as" "0 < nleft" "nleft < length d"
  shows "readn_loop n nleft got s =
    Some (int n, got @ take nleft d, s\<lparr>incoming := Data (drop nleft d) # as\<rparr>)"
  using assms by (subst readn_loop.simps) (auto simp: sys_read_def readn_loop_end)

lemma readn_loop_error:
  assumes "incoming s = Read_fails e # as" "0 < nleft"
  shows "readn_loop n nleft got s = (let t = s\<lparr>errno := e, incoming := as\<rparr> in
    if e = EINTR then readn_loop n nleft got t else Some (- 1, got, t))"
  using assms by (subst readn_loop.simps) (simp add: sys_read_def)

lemma readn_loop_reads:
  assumes "nleft \<le> n" "length got = n - nleft"
  shows "map_option (\<lambda>(rc, d, r). (rc, d)) (readn_loop n nleft got s) =
    buffered_result n (got @ delivered (incoming s)) (stops (incoming s))"
  using assms
proof (induction "length (incoming s)" arbitrary: nleft got s rule: less_induct)
  case less
  show ?case
  proof (cases "nleft = 0 \<or> incoming s = []")
    case True
    then show ?thesis using less.prems by (cases nleft) (auto simp: readn_loop_end readn_loop_waits buffered_result_def)
  next
    case False
    then obtain a as where i: "incoming s = a # as" "0 < nleft" by (cases "incoming s") auto
    show ?thesis
    proof (cases a)
      case (Data d)
      consider "d = ''''" | "d \<noteq> ''''" "length d \<le> nleft" | "nleft < length d" by linarith
      then show ?thesis
      proof cases
        case 1
        then show ?thesis using i Data less.prems
          by (subst readn_loop.simps) (auto simp: buffered_result_def sys_read_def)
      next
        case 2
        then show ?thesis
          using less.hyps [of "s\<lparr>incoming := as\<rparr>" "nleft - length d" "got @ d"] less.prems i Data
          by (simp add: readn_loop_data)
      next
        case 3
        then show ?thesis using less.prems i Data by (auto simp: buffered_result_def readn_loop_surplus)
      qed
    next
      case (Read_fails e)
      then show ?thesis using less.hyps [of "s\<lparr>errno := e, incoming := as\<rparr>" nleft got] less.prems i
        by (auto simp: buffered_result_def readn_loop_error Let_def)
    qed
  qed
qed

end
