(* ===== verification/Gdb_Session.thy ===== *)
theory Gdb_Session
  imports Gdb
begin

text \<open>
  What the commands of gdb do: the replies, the transfers of registers and memory, the continue
  command, and the states a session keeps the processor in.
\<close>

section \<open>Replies\<close>

text \<open>The state after the answer \<open>s\<close>.\<close>

definition answered :: "string \<Rightarrow> gdb \<Rightarrow> gdb" where
  "answered s g = g\<lparr>packet := packet_of s, sent := packet_of s # sent g\<rparr>"

lemma answered_fields [simp]:
  "arm (answered s g) = arm g" "closed (answered s g) = closed g"
  "target_exception (answered s g) = target_exception g" "sent (answered s g) = packet_of s # sent g"
  by (simp_all add: answered_def)

lemma length_packet_of [simp]: "length (packet_of s) = length s + 4"
  by (simp add: packet_of_def)

lemma packet_of_not_empty [simp]: "packet_of s \<noteq> ''''"
  by (simp add: packet_of_def)

lemma send_fits:
  "\<not> closed g \<Longrightarrow> length s \<le> 1019 \<Longrightarrow> gdb_send_buffer s g = Some (Running, answered s g)"
  by (simp add: gdb_send_buffer_def gdb_transmit_packet_def write_all_def answered_def MAX_PACKET_SIZE_def)

lemma send_overflows: "1019 < length s \<Longrightarrow> gdb_send_buffer s g = None"
  by (simp add: gdb_send_buffer_def MAX_PACKET_SIZE_def)

lemma send_data_fits [simp]:
  "\<not> closed g \<Longrightarrow> length s \<le> 1019 \<Longrightarrow> gdb_send_data s g = Some (Running, answered s g)"
  by (simp add: gdb_send_data_def send_fits)

text \<open>Sending touches only the connection.\<close>

lemma write_all_arm: "write_all s g = Some (st, h) \<Longrightarrow> arm h = arm g"
  by (auto simp: write_all_def split: if_splits)

lemma send_arm:
  "gdb_send_buffer s g = Some (st, h) \<Longrightarrow> arm h = arm g" "gdb_send_data s g = Some (st, h) \<Longrightarrow> arm h = arm g"
  "gdb_send_ack g = Some (st, h) \<Longrightarrow> arm h = arm g" "gdb_require_retransmission g = Some (st, h) \<Longrightarrow> arm h = arm g"
  "gdb_transmit_packet g = Some (st, h) \<Longrightarrow> arm h = arm g" "gdb_send_stop_reason g = Some (st, h) \<Longrightarrow> arm h = arm g"
  by (auto simp: gdb_send_buffer_def gdb_send_data_def gdb_send_ack_def gdb_require_retransmission_def
      gdb_transmit_packet_def gdb_send_stop_reason_def dest!: write_all_arm split: if_splits)

section \<open>Accesses that are not traced\<close>

lemma disabled_traced [simp]:
  "\<not> tr_enabled (tr p) \<Longrightarrow> traced_reg ty rg md v p = p" "\<not> tr_enabled (tr p) \<Longrightarrow> traced_mem ty sz ca a v p = p"
  by (simp_all add: traced_reg_def traced_mem_def log_reg_def log_mem_def trace_register_def trace_memory_def)

lemma untraced_views [simp]:
  "\<not> tr_enabled (tr (arm (untraced g)))" "only_traced (arm g) (arm (untraced g))"
  "closed (untraced g) = closed g" "sent (untraced g) = sent g" "target_exception (untraced g) = target_exception g"
  by (simp_all add: untraced_def only_traced_def trace_disable_def)

lemma traced_views_gdb [simp]:
  "tr_enabled (tr (arm (traced g)))" "only_traced (arm g) (arm (traced g))"
  "closed (traced g) = closed g" "sent (traced g) = sent g" "target_exception (traced g) = target_exception g"
  by (simp_all add: traced_def only_traced_def trace_enable_def)

lemma traced_untraced [simp]: "traced (untraced g) = traced g"
  by (simp add: traced_def untraced_def trace_enable_def trace_disable_def)

lemma traced_enabled: "tr_enabled (tr (arm g)) \<Longrightarrow> traced g = g"
  by (simp add: traced_def trace_enable_def)

lemma untraced_core [simp]:
  "reg_val (arm (untraced g)) = reg_val (arm g)" "cpsr (arm (untraced g)) = cpsr (arm g)"
  "core_mode (arm (untraced g)) = core_mode (arm g)" "mem (arm (untraced g)) = mem (arm g)"
  "ok_core (arm (untraced g)) = ok_core (arm g)" "wf_core (arm (untraced g)) = wf_core (arm g)"
  "seen (arm (untraced g)) = seen (arm g)" "safe_core (arm (untraced g)) = safe_core (arm g)"
  using only_tracedD [OF untraced_views(2) [of g]] seen_only_traced [OF untraced_views(2) [of g]]
    safe_only_traced [OF untraced_views(2) [of g]] by simp_all

lemma traced_core [simp]:
  "reg_val (arm (traced g)) = reg_val (arm g)" "cpsr (arm (traced g)) = cpsr (arm g)"
  "core_mode (arm (traced g)) = core_mode (arm g)" "mem (arm (traced g)) = mem (arm g)"
  "ok_core (arm (traced g)) = ok_core (arm g)" "wf_core (arm (traced g)) = wf_core (arm g)"
  "seen (arm (traced g)) = seen (arm g)" "safe_core (arm (traced g)) = safe_core (arm g)"
  using only_tracedD [OF traced_views_gdb(2) [of g]] seen_only_traced [OF traced_views_gdb(2) [of g]]
    safe_only_traced [OF traced_views_gdb(2) [of g]] by simp_all

section \<open>The registers\<close>

text \<open>The values of the reply to the command \<^verbatim>\<open>g\<close>.\<close>

definition general_values :: "arm_core \<Rightarrow> u32 list" where
  "general_values p = map (\<lambda>i. if i < 15 then reg_val p (of_nat i) else seen p 15 - 4) [0..<16]"

definition registers_text :: "arm_core \<Rightarrow> string" where
  "registers_text p = concat (map write_uint32 (general_values p)) @ replicate 200 CHR ''x'' @ write_uint32 (cpsr p)"

lemma length_registers_text: "length (registers_text p) = 336"
  using word_field.put_all_width [of "general_values p"] word_field.put_width
  by (simp add: registers_text_def general_values_def)

lemma of_nat_16: "i < 16 \<Longrightarrow> (of_nat i :: u8) < 16" "i < 16 \<Longrightarrow> (of_nat i :: u8) = 15 \<longleftrightarrow> i = 15"
proof -
  assume i: "i < 16"
  then have u: "unat (of_nat i :: u8) = i" by (rule unat_of_nat_16)
  with i show "(of_nat i :: u8) < 16" by (simp add: word_less_nat_alt)
  show "(of_nat i :: u8) = 15 \<longleftrightarrow> i = 15" using u by (auto simp: word_unat_eq_iff)
qed

lemma append_register_value:
  assumes "ok_core p" "\<not> tr_enabled (tr p)" "i < 16"
  shows "append_register i (s, p) = Some (s @ write_uint32 (general_values p ! i), p)"
  using assms of_nat_16 [of i]
  by (cases "i = 15") (simp_all add: append_register_def arm_read_register_eq general_values_def seen_def pc_adjust_def)

lemma append_registers:
  assumes "ok_core p" "\<not> tr_enabled (tr p)"
  shows "for_each append_register [0..<16] ('''', p) = Some (concat (map write_uint32 (general_values p)), p)"
proof -
  define I where "I i = (\<lambda>s. s = (concat (map write_uint32 (take i (general_values p))), p))" for i
  have l: "length (general_values p) = 16" by (simp add: general_values_def)
  have "returns (for_each append_register [0..<16] ('''', p)) (I 16)"
    by (rule for_each_upt)
      (use assms l in \<open>auto simp: I_def append_register_value take_Suc_conv_app_nth\<close>)
  then show ?thesis using l by (auto simp: I_def returns_iff)
qed

lemma read_general_registers_eq:
  assumes "ok_core (arm g)" "\<not> closed g"
  shows "read_general_registers u js data g = Some (Running, answered (registers_text (arm g)) (traced g))"
proof -
  have x: "concat (replicate 24 ''xxxxxxxx'') = replicate 192 CHR ''x''"
    "replicate 200 CHR ''x'' = replicate 192 CHR ''x'' @ ''xxxxxxxx''" by code_simp+
  have v: "general_values (arm (untraced g)) = general_values (arm g)" by (simp add: general_values_def)
  have u: "(untraced g)\<lparr>arm := arm (untraced g)\<rparr> = untraced g" by simp
  show ?thesis
    using assms length_registers_text [of "arm g"] x
    by (simp add: read_general_registers_def append_registers arm_read_cpsr_eq v registers_text_def send_fits)
qed

lemma tr_set [simp]:
  "tr (set_physical i v p) = tr p" "tr (set_reg rg v p) = tr p" "tr (set_cpsr v p) = tr p"
  by (simp_all add: set_reg_def set_cpsr_def set_physical_def)

lemma all_less_16: "(\<forall>rg < 16. P (rg :: u8)) \<longleftrightarrow> (\<forall>i < 16. P (of_nat i))"
proof
  assume a: "\<forall>i < 16. P (of_nat i)"
  show "\<forall>rg < 16. P rg"
  proof (intro allI impI)
    fix rg :: u8
    assume "rg < 16"
    then have "unat rg < 16" by (simp add: word_less_nat_alt)
    with a have "P (of_nat (unat rg))" by blast
    then show "P rg" by simp
  qed
qed (use of_nat_16(1) in blast)

lemma write_registers:
  assumes "ok_core p" "\<not> tr_enabled (tr p)" "length vs = 16" "NUL \<in> set rest"
  shows "returns (for_each (write_from u (concat (map write_uint32 vs) @ rest)) [0..<16] p)
    (\<lambda>q. ok_core q \<and> \<not> tr_enabled (tr q) \<and> core_mode q = core_mode p \<and> cpsr q = cpsr p \<and> mem q = mem p \<and>
      (\<forall>i < 16. reg_val q (of_nat i) = vs ! i))"
proof -
  define I where "I k = (\<lambda>q. ok_core q \<and> \<not> tr_enabled (tr q) \<and> core_mode q = core_mode p \<and> cpsr q = cpsr p \<and>
    mem q = mem p \<and> (\<forall>i < k. reg_val q (of_nat i) = vs ! i))" for k :: nat
  have "returns (for_each (write_from u (concat (map write_uint32 vs) @ rest)) [0..<16] p) (I 16)"
  proof (rule for_each_upt)
    show "I 0 p" using assms by (simp add: I_def)
    fix i q
    assume i: "i < 16" and q: "I i q"
    have rd: "read_uint32 (u i) (drop (8 * i) (concat (map write_uint32 vs) @ rest)) = Some (vs ! i)"
      using word_field.get_nth [of i vs rest] assms(3,4) i by simp
    have ne: "(of_nat k :: u8) \<noteq> of_nat i" if "k < i" for k
      using unat_of_nat_16 [of k] unat_of_nat_16 [of i] i that by (metis less_trans nat_neq_iff)
    show "returns (write_from u (concat (map write_uint32 vs) @ rest) i q) (I (Suc i))"
      using q i of_nat_16(1) ne
      by (auto simp: write_from_def rd arm_write_register_eq I_def less_Suc_eq simp del: drop_append)
  qed simp
  then show ?thesis by (simp add: I_def)
qed

lemma read_uint32_defined:
  assumes "NUL \<in> set (drop 6 d)"
  shows "read_uint32 j d \<noteq> None"
proof -
  have "NUL \<in> set (drop k d)" if "k \<le> 6" for k
    using assms set_drop_subset_set_drop [OF that, of d] by blast
  from this [of 0] this [of 2] this [of 4] assms show ?thesis
    by (simp add: read_uint32_def union_order_eq Let_def)
qed

text \<open>The fields that are read and dropped.\<close>

lemma read_fields:
  assumes "\<And>i. a \<le> i \<Longrightarrow> i < b \<Longrightarrow> NUL \<in> set (drop (8 * i + 6) data)" "a \<le> b"
  shows "for_each (\<lambda>i w. read_uint32 (u i) (drop (8 * i) data)) [a..<b] w \<noteq> None"
proof -
  have "returns (for_each (\<lambda>i w. read_uint32 (u i) (drop (8 * i) data)) [a..<b] w) (\<lambda>w. True)"
  proof (rule for_each_upt)
    fix i w
    assume "a \<le> i" "i < b"
    then have "read_uint32 (u i) (drop (8 * i) data) \<noteq> None"
      using assms(1) [of i] by (intro read_uint32_defined) (simp add: add.commute)
    then show "returns (read_uint32 (u i) (drop (8 * i) data)) (\<lambda>w. True)" by auto
  qed (use assms(2) in auto)
  then show ?thesis by (auto simp: returns_iff)
qed

lemma write_general_registers_values:
  assumes "ok_core (arm g)" "\<not> closed g" "length vs = 16" "length x = 200" "mode_of v = core_mode (arm g)"
  shows "returns (write_general_registers u js (concat (map write_uint32 vs) @ x @ write_uint32 v @ NUL # t) g)
    (\<lambda>(st, h). st = Running \<and> sent h = packet_of ''OK'' # sent g \<and> mem (arm h) = mem (arm g) \<and>
      cpsr (arm h) = v \<and> (\<forall>rg < 16. reg_val (arm h) rg = vs ! unat rg))"
proof -
  let ?data = "concat (map write_uint32 vs) @ x @ write_uint32 v @ NUL # t"
  have l: "length (concat (map write_uint32 vs)) = 128" "length (write_uint32 v) = 8"
    using word_field.put_all_width [of vs] word_field.put_width [of v] assms(3) by simp_all
  have "NUL \<in> set (drop k ?data)" if "k \<le> 336" for k
    using that l assms(4) by (simp add: drop_Cons')
  then have w: "for_each (\<lambda>i w. read_uint32 (u i) (drop (8 * i) ?data)) [16..<41] 0 \<noteq> None"
    by (intro read_fields) auto
  have c: "read_uint32 (u 41) (drop (8 * 41) ?data) = Some v"
    using l assms(4) read_write_uint32 [of "NUL # t"] by simp
  have "returns (for_each (write_from u ?data) [0..<16] (arm (untraced g)))
    (\<lambda>q. ok_core q \<and> \<not> tr_enabled (tr q) \<and> core_mode q = core_mode (arm g) \<and> cpsr q = cpsr (arm g) \<and>
      mem q = mem (arm g) \<and> (\<forall>i < 16. reg_val q (of_nat i) = vs ! i))"
    using write_registers [of "arm (untraced g)" vs "x @ write_uint32 v @ NUL # t" u] assms by simp
  then obtain q where q: "for_each (write_from u ?data) [0..<16] (arm (untraced g)) = Some q" "ok_core q"
    "\<not> tr_enabled (tr q)" "core_mode q = core_mode (arm g)" "mem q = mem (arm g)"
    "\<forall>rg < 16. reg_val q rg = vs ! unat rg"
    unfolding all_less_16 by (auto simp: returns_iff unat_of_nat_16)
  obtain w' where w': "for_each (\<lambda>i w. read_uint32 (u i) (drop (8 * i) ?data)) [16..<41] 0 = Some w'"
    using w by blast
  have "write_general_registers u js ?data g = arm_write_cpsr v q \<bind>
      (\<lambda>p. gdb_send_data ''OK'' (traced ((untraced g)\<lparr>arm := p\<rparr>)))"
    by (simp only: write_general_registers_def Let_def q(1) w' c Option.bind.simps)
  then show ?thesis using q(2-) assms(2,5) by (simp add: arm_write_cpsr_eq)
qed

section \<open>Packets\<close>

text \<open>The state once a packet is acknowledged.\<close>

definition acked :: "gdb \<Rightarrow> gdb" where
  "acked g = g\<lparr>sent := ''+'' # sent g\<rparr>"

lemma acked_fields [simp]:
  "arm (acked g) = arm g" "closed (acked g) = closed g" "target_exception (acked g) = target_exception g"
  "sent (acked g) = ''+'' # sent g" "packet (acked g) = packet g"
  by (simp_all add: acked_def)

lemma payload_packet_of [simp]: "payload (packet_of s) = s"
  by (simp add: payload_def packet_of_def)

lemma analysis_packet:
  assumes "\<not> closed g" "gdb_handler c = Some h"
  shows "gdb_packet_analysis u js (packet_of (c # d)) g =
    h u js (d @ NUL # fmt_02x (checksum (c # d)) @ [NUL]) (acked g)"
proof -
  have "drop (length (packet_of (c # d)) - 2) (packet_of (c # d)) = fmt_02x (checksum (c # d))"
  proof -
    have "packet_of (c # d) = (''$'' @ (c # d) @ ''#'') @ fmt_02x (checksum (c # d))"
      by (simp add: packet_of_def)
    moreover have "length (packet_of (c # d)) - 2 = length (''$'' @ (c # d) @ ''#'')" by simp
    ultimately show ?thesis by (metis append_eq_conv_conj)
  qed
  with assms show ?thesis
    by (simp add: gdb_packet_analysis_def checksum_ok_packet and_then_def gdb_send_ack_def write_all_def acked_def)
qed

text \<open>
  C17. On open connections and with a word-aligned program counter, the answer to the command g,
  sent back by the command G to a session whose processor is in the same mode, restores the
  sixteen registers and the status register and leaves the memory.
\<close>

theorem register_packets_round_trip:
  assumes "ok_core (arm g)" "\<not> closed g" "unat (reg_val (arm g) 15) mod 4 = 0"
    "ok_core (arm h)" "\<not> closed h" "core_mode (arm h) = core_mode (arm g)"
  shows "\<exists>g' h'. gdb_packet_analysis u js (packet_of ''g'') g = Some (Running, g') \<and>
    gdb_packet_analysis u' js' (packet_of (CHR ''G'' # payload (hd (sent g')))) h = Some (Running, h') \<and>
    cpsr (arm h') = cpsr (arm g) \<and> mem (arm h') = mem (arm h) \<and> same_regs_but {} (arm g) (arm h')"
proof -
  let ?R = "registers_text (arm g)"
  define g' where "g' = answered ?R (traced (acked g))"
  have G: "gdb_packet_analysis u js (packet_of ''g'') g = Some (Running, g')"
    using assms(1,2) by (simp add: analysis_packet gdb_handler_def read_general_registers_eq g'_def)
  have "fetch_address (arm g) = reg_val (arm g) 15"
    by (rule fetch_address_aligned) (use assms(3) in \<open>simp add: mod_4_iff\<close>)
  then have s: "seen (arm g) 15 - 4 = reg_val (arm g) 15" by (simp add: seen_def fetch_address_def)
  have v: "general_values (arm g) ! unat rg = reg_val (arm g) rg" if "rg < 16" for rg
  proof (cases "rg = 15")
    case False
    then have "unat rg \<noteq> 15" by (simp add: word_unat_eq_iff)
    with that show ?thesis by (simp add: general_values_def word_less_nat_alt)
  qed (simp add: general_values_def s)
  have "returns (write_general_registers u' js' (?R @ NUL # fmt_02x (checksum (CHR ''G'' # ?R)) @ [NUL]) (acked h))
    (\<lambda>(st, h'). st = Running \<and> mem (arm h') = mem (arm h) \<and> cpsr (arm h') = cpsr (arm g) \<and>
      (\<forall>rg < 16. reg_val (arm h') rg = reg_val (arm g) rg))"
    using write_general_registers_values [of "acked h" "general_values (arm g)" "replicate 200 CHR ''x''" "cpsr (arm g)"
        u' js' "fmt_02x (checksum (CHR ''G'' # ?R)) @ [NUL]"] assms(4-6) v
    by (auto simp: registers_text_def general_values_def elim!: returns_mono)
  with assms(5) have "returns (gdb_packet_analysis u' js' (packet_of (CHR ''G'' # payload (hd (sent g')))) h)
    (\<lambda>(st, h'). st = Running \<and> mem (arm h') = mem (arm h) \<and> cpsr (arm h') = cpsr (arm g) \<and>
      (\<forall>rg < 16. reg_val (arm h') rg = reg_val (arm g) rg))"
    by (simp add: analysis_packet gdb_handler_def g'_def)
  with G show ?thesis by (auto simp: returns_iff same_regs_but_def)
qed

theorem register_packets_round_trip_witness:
  "\<exists>g' h'. gdb_packet_analysis (\<lambda>_. 0) [] (packet_of ''g'') (gdb_init_data example_core) = Some (Running, g') \<and>
    gdb_packet_analysis (\<lambda>_. 0) [] (packet_of (CHR ''G'' # payload (hd (sent g'))))
      (gdb_init_data (set_reg 3 7 example_core)) = Some (Running, h') \<and>
    cpsr (arm h') = 0x1D3 \<and> mem (arm h') = example_memory \<and> same_regs_but {} example_core (arm h')"
proof -
  have "ok_core (set_reg 3 7 example_core)" "core_mode (set_reg 3 7 example_core) = core_mode example_core"
    by simp_all
  then show ?thesis
    using register_packets_round_trip [of "gdb_init_data example_core" "gdb_init_data (set_reg 3 7 example_core)"
        "\<lambda>_. 0" "[]" "\<lambda>_. 0" "[]"]
    by (simp add: gdb_init_data_def)
qed

end
