(* ===== verification/Gdb_Memory.thy ===== *)
theory Gdb_Memory
  imports Gdb_Session
begin

text \<open>
  The commands \<^verbatim>\<open>X\<close> and \<^verbatim>\<open>m\<close>: the text of their arguments, the escapes of binary data, and what
  they do to the memory as an image of bytes.
\<close>

section \<open>Arguments\<close>

text \<open>A string of hexadecimal digits a client may write for the number \<open>n\<close>.\<close>

definition hex_arg :: "string \<Rightarrow> nat \<Rightarrow> bool" where
  "hex_arg ds n \<longleftrightarrow> ds \<noteq> '''' \<and> list_all isxdigit ds \<and> number 16 ds = n \<and> n < 2 ^ 32"

lemma isxdigit_not:
  assumes "isxdigit c"
  shows "\<not> isspace c" "c \<noteq> NUL" "c \<noteq> CHR ''-''" "c \<noteq> CHR ''+''" "c \<noteq> CHR ''x''" "c \<noteq> CHR ''X''"
    "c \<noteq> CHR '',''" "c \<noteq> CHR '':''"
  using assms by (auto simp: isxdigit_def hex_value_def isspace_def NUL_def Let_def split: if_splits)

lemma separators [simp]: "\<not> isxdigit CHR '',''" "\<not> isxdigit CHR '':''" "CHR '','' \<noteq> NUL" "CHR '':'' \<noteq> NUL"
  "NUL \<noteq> CHR '',''" "NUL \<noteq> CHR '':''"
  by code_simp+

lemma narrow_of_nat: "n < 2 ^ 32 \<Longrightarrow> ucast (of_nat n :: u64) = (of_nat n :: u32)"
  by (simp add: unsigned_of_nat take_bit_nat_eq_self)

lemma hex_arg_cases:
  assumes "hex_arg ds n"
  obtains c cs where "ds = c # cs" "isxdigit c" "list_all isxdigit cs"
  using assms by (cases ds) (auto simp: hex_arg_def)

lemma scan_x_arg:
  assumes "hex_arg ds n" "length ds \<le> w" "r = '''' \<or> (\<exists>c s. r = c # s \<and> c \<in> {CHR '','', CHR '':'', NUL})"
  shows "scan_x w (ds @ r) = Some (of_nat n, r)"
proof -
  obtain c cs where c: "ds = c # cs" "isxdigit c" "list_all isxdigit cs" using assms(1) by (rule hex_arg_cases)
  note nc = isxdigit_not [OF c(2)]
  have r: "\<not> isxdigit d" "d \<noteq> CHR ''x''" "d \<noteq> CHR ''X''" if "r = d # s" for d s
    using assms(3) that by (auto simp: isxdigit_def hex_value_def NUL_def)
  have p: "take 2 (ds @ r) \<noteq> ''0x''" "take 2 (ds @ r) \<noteq> ''0X''"
    using c r isxdigit_not(5,6) by (cases cs; cases r; auto)+
  have t: "takeWhile isxdigit (take w (ds @ r)) = ds"
  proof -
    have "take w (ds @ r) = ds @ take (w - length ds) r" using assms(2) by simp
    moreover have "takeWhile isxdigit (take k r) = ''''" for k
      using r by (cases k; cases r) auto
    moreover have "takeWhile isxdigit (ds @ s) = ds @ takeWhile isxdigit s" for s
      using c by (auto simp: list_all_iff)
    ultimately show ?thesis by simp
  qed
  have n: "number 16 ds = n" "n < 2 ^ 32" using assms(1) by (simp_all add: hex_arg_def)
  have "dropWhile isspace (ds @ r) = ds @ r" "sign w (ds @ r) = (False, w, ds @ r)"
    using nc by (simp_all add: c sign_def)
  moreover have "ds \<noteq> ''''" by (simp add: c)
  moreover have "n < 2 ^ 64" using n(2) by simp
  ultimately show ?thesis
    using p t n narrow_of_nat [OF n(2)] by (simp add: scan_x_def Let_def del: take_append)
qed

lemma arg_no_char:
  assumes "hex_arg ds n"
  shows "NUL \<notin> set ds" "CHR '':'' \<notin> set ds"
  using assms isxdigit_not(2,8) by (auto simp: hex_arg_def list_all_iff)

lemma c_str_append: "NUL \<notin> set s \<Longrightarrow> c_str (s @ t) = s @ c_str t"
  by (induction s) (auto simp: c_str_def)

lemma scan_pair_args:
  assumes "hex_arg da a" "hex_arg dn n" "r = '''' \<or> (\<exists>s. r = CHR '':'' # s)"
  shows "scan_pair (da @ '','' @ dn @ r) ab = (of_nat a, of_nat n)"
proof -
  have "scan_x (length (da @ '','' @ dn @ r)) (da @ '','' @ dn @ r) = Some (of_nat a, '','' @ dn @ r)"
    by (rule scan_x_arg [OF assms(1)]) simp_all
  moreover have "scan_x (length (dn @ r)) (dn @ r) = Some (of_nat n, r)"
    by (rule scan_x_arg [OF assms(2)]) (use assms(3) in auto)
  ultimately show ?thesis by (simp add: scan_pair_def)
qed

section \<open>Contents\<close>

text \<open>A byte in a packet: the characters the protocol reserves are escaped.\<close>

definition escaped :: "u8 \<Rightarrow> string" where
  "escaped b = (let c = char_of (unat b) in
     if c \<in> {CHR ''$'', CHR ''#'', CHR 0x7d} then [CHR 0x7d, char_of (unat (b XOR 0x20))] else [c])"

lemma of_char_of_unat [simp]: "of_char (char_of (unat b) :: char) = (b :: u8)"
proof -
  have "(of_char (char_of (unat b) :: char) :: nat) = unat b"
    using unsigned_less [of b, where 'a = nat] by (simp add: of_char_of)
  then have "of_nat (of_char (char_of (unat b) :: char)) = b" by simp
  then show ?thesis by (simp only: of_nat_of_char)
qed

text \<open>The bytes from \<open>a\<close> on, none behind the end of the memory or of the address space.\<close>

definition span :: "memory \<Rightarrow> u32 \<Rightarrow> nat \<Rightarrow> bool" where
  "span m a n \<longleftrightarrow> unat a + n \<le> unat (mem_size m) \<and> unat a + n \<le> 2 ^ 32"

lemma span_Suc:
  assumes "span m a (Suc n)"
  shows "in_memory m a" "n \<noteq> 0 \<Longrightarrow> span m (a + 1) n" "n \<noteq> 0 \<Longrightarrow> unat (a + 1) = Suc (unat a)"
proof -
  show "in_memory m a" using assms by (simp add: span_def in_memory_def)
  assume "n \<noteq> 0"
  then have "unat a + 1 < 2 ^ 32" using assms by (simp add: span_def)
  then have "unat (a + 1) = unat a + 1" by (simp add: unat_word_ariths)
  then show "unat (a + 1) = Suc (unat a)" "span m (a + 1) n" using assms by (simp_all add: span_def)
qed

lemma span_shape: "same_shape m m' \<Longrightarrow> span m' = span m"
  by (simp add: same_shape_def span_def fun_eq_iff)

lemma set_byte_shape: "same_shape m (set_byte m a v)"
  by (simp add: same_shape_def set_byte_def)

lemma write_content_escaped:
  "write_content (Suc n) (escaped b @ content) address m = do {
     (st, m) \<leftarrow> memory_write_byte m address b;
     if st = 0 then write_content n content (address + 1) m else Some (False, m) }"
proof -
  have "(b XOR 0x20) XOR 0x20 = b" by (simp add: xor.assoc)
  then show ?thesis by (simp add: escaped_def Let_def cong: if_cong)
qed

lemma write_content_stores:
  assumes "wf_memory m" "span m a (length bs)"
  shows "\<exists>m'. write_content (length bs) (concat (map escaped bs) @ rest) a m = Some (True, m') \<and>
    same_shape m m' \<and> byte_at m' = store_bytes (byte_at m) (unat a) bs"
  using assms
proof (induction bs arbitrary: a m)
  case (Cons b bs)
  note s = span_Suc [OF Cons.prems(2) [simplified]]
  let ?m = "set_byte m (unat a) b"
  have w: "memory_write_byte m a b = Some (SUCCESS, ?m)"
    using Cons.prems(1) s(1) by (simp add: memory_write_byte_eq)
  have b: "byte_at ?m = (byte_at m)(unat a := b)"
    by (rule byte_at_set_byte) (rule index_in_data [OF Cons.prems(1) s(1)])
  have wf: "wf_memory ?m" using Cons.prems(1) same_shape_wf [OF set_byte_shape] by simp
  show ?case
  proof (cases "bs = []")
    case True
    then show ?thesis
      using write_content_escaped [of 0 b rest a m] w b set_byte_shape by (simp add: SUCCESS_def fun_upd_def)
  next
    case False
    then have "length bs \<noteq> 0" by simp
    note s = s(2,3) [OF this]
    have "span ?m (a + 1) (length bs)" using s(1) span_shape [OF set_byte_shape] by simp
    from Cons.IH [OF wf this] show ?thesis
      using write_content_escaped [of "length bs" b "concat (map escaped bs) @ rest" a m] w b s(2)
      by (auto simp: SUCCESS_def fun_upd_def dest: same_shape_trans [OF set_byte_shape])
  qed
qed simp

lemma memory_hex_bytes:
  assumes "wf_memory m" "span m a n"
  shows "memory_hex n a v m = Some (concat (map fmt_02x (load_bytes (byte_at m) (unat a) n)))"
  using assms
proof (induction n arbitrary: a v)
  case (Suc n)
  note s = span_Suc [OF Suc.prems(2)]
  have l: "load_bytes (byte_at m) (unat a) (Suc n) = byte_at m (unat a) # load_bytes (byte_at m) (Suc (unat a)) n"
    by (simp add: load_bytes_def map_upt_Suc del: upt_Suc)
  show ?case
  proof (cases "n = 0")
    case True
    then show ?thesis using Suc.prems(1) s(1) l
      by (simp add: memory_read_byte_eq SUCCESS_def load_bytes_def)
  next
    case False
    then show ?thesis using Suc s l by (simp add: memory_read_byte_eq SUCCESS_def)
  qed
qed (simp add: load_bytes_def)

section \<open>The commands\<close>

lemma after_colon:
  assumes "hex_arg da a" "hex_arg dn n"
  shows "after_char CHR '':'' (da @ '','' @ dn @ '':'' @ s) = Some s"
    "CHR '':'' \<in> set (c_str (da @ '','' @ dn @ '':'' @ s))"
    "c_str (da @ '','' @ dn @ '':'' @ s) = da @ '','' @ dn @ '':'' @ c_str s"
proof -
  note na = arg_no_char [OF assms(1)] and nn = arg_no_char [OF assms(2)]
  have "c_str (da @ '','' @ dn @ '':'' @ s) = da @ c_str ('','' @ dn @ '':'' @ s)"
    using na by (intro c_str_append)
  also have "c_str ('','' @ dn @ '':'' @ s) = '','' @ dn @ c_str ('':'' @ s)"
    using nn c_str_append [of dn "'':'' @ s"] by (simp add: c_str_def)
  finally show c: "c_str (da @ '','' @ dn @ '':'' @ s) = da @ '','' @ dn @ '':'' @ c_str s"
    by (simp add: c_str_def)
  then show m: "CHR '':'' \<in> set (c_str (da @ '','' @ dn @ '':'' @ s))" by simp
  have "dropWhile (\<lambda>d. d \<noteq> CHR '':'') (da @ '','' @ dn @ '':'' @ s) = '':'' @ s"
  proof -
    have "dropWhile (\<lambda>d. d \<noteq> CHR '':'') (xs @ t) = dropWhile (\<lambda>d. d \<noteq> CHR '':'') t" if "CHR '':'' \<notin> set xs" for xs t
      using that by (induction xs) auto
    from this [OF na(2)] this [OF nn(2)] show ?thesis by simp
  qed
  with m show "after_char CHR '':'' (da @ '','' @ dn @ '':'' @ s) = Some s" by (simp add: after_char_def)
qed

text \<open>The answer to \<^verbatim>\<open>m\<close>: the bytes in hexadecimal, when they fit into the packet buffer.\<close>

lemma read_memory_bytes:
  assumes "wf_memory (mem (arm g))" "\<not> closed g" "hex_arg da (unat a)" "hex_arg dn n" "span (mem (arm g)) a n"
    "s = '''' \<or> (\<exists>t. s = NUL # t)"
  shows "read_memory u js (da @ '','' @ dn @ s) g =
    (if n \<le> 509
     then Some (Running, answered (concat (map fmt_02x (load_bytes (byte_at (mem (arm g))) (unat a) n))) g)
     else None)"
proof -
  have "NUL \<notin> set (da @ '','' @ dn)" using arg_no_char(1) [OF assms(3)] arg_no_char(1) [OF assms(4)] by simp
  then have "c_str ((da @ '','' @ dn) @ s) = (da @ '','' @ dn) @ c_str s" by (rule c_str_append)
  moreover have "c_str s = ''''" using assms(6) by (auto simp: c_str_def)
  ultimately have c: "c_str (da @ CHR '','' # dn @ s) = da @ CHR '','' # dn" by simp
  have n: "n < 2 ^ 32" using assms(4) by (simp add: hex_arg_def)
  let ?t = "concat (map fmt_02x (load_bytes (byte_at (mem (arm g))) (unat a) n))"
  have "length (load_bytes f b k) = k" for f b k by (simp add: load_bytes_def)
  then have "length ?t = 2 * n" by (simp only: byte_field.put_all_width)
  moreover have "read_memory u js (da @ '','' @ dn @ s) g = gdb_send_buffer ?t g"
    using scan_pair_args [OF assms(3,4), of "''''" "(u 20, u 21)"] n memory_hex_bytes [OF assms(1,5)]
    by (simp add: read_memory_def c unat_of_nat)
  ultimately show ?thesis using assms(2) by (simp add: send_fits send_overflows)
qed

lemma write_memory_bytes:
  assumes "wf_memory (mem (arm g))" "\<not> closed g" "hex_arg da (unat a)" "hex_arg dn (length bs)"
    "span (mem (arm g)) a (length bs)" "bs \<noteq> []"
  shows "\<exists>m. write_memory_binary u js (da @ '','' @ dn @ '':'' @ concat (map escaped bs) @ s) g =
      Some (Running, answered ''OK'' (g\<lparr>arm := (arm g)\<lparr>mem := m\<rparr>\<rparr>)) \<and>
    same_shape (mem (arm g)) m \<and> byte_at m = store_bytes (byte_at (mem (arm g))) (unat a) bs"
proof -
  note c = after_colon [OF assms(3,4), of "concat (map escaped bs) @ s"]
  have n: "length bs < 2 ^ 32" using assms(4) by (simp add: hex_arg_def)
  have "scan_pair (c_str (da @ '','' @ dn @ '':'' @ concat (map escaped bs) @ s)) (u 20, u 21) =
      (a, of_nat (length bs))"
    unfolding c(3) using scan_pair_args [OF assms(3,4), of "'':'' @ c_str (concat (map escaped bs) @ s)" "(u 20, u 21)"]
    by simp
  moreover have "ucast a < memory_get_size (mem (arm g))"
  proof -
    have "0 < length bs" using assms(6) by simp
    then have "in_memory (mem (arm g)) a" using assms(5) unfolding span_def in_memory_def by linarith
    then show ?thesis using ucast_ge_size [of "mem (arm g)" a] by (simp add: not_le)
  qed
  ultimately show ?thesis
    using write_content_stores [OF assms(1,5), of s] c(1,2) n assms(2)
    by (auto simp: write_memory_binary_def unat_of_nat)
qed

lemma hex_arg_example:
  "hex_arg ''10'' 16" "hex_arg ''2'' 2" "hex_arg ''0'' 0" "hex_arg ''200'' 512"
proof -
  have "list_all isxdigit ''10'' \<and> list_all isxdigit ''2'' \<and> list_all isxdigit ''0'' \<and> list_all isxdigit ''200''"
    by code_simp
  moreover have "number 16 ''10'' = 16" "number 16 ''2'' = 2" "number 16 ''0'' = 0" "number 16 ''200'' = 512"
    by (simp_all add: number_def hex_value_def Let_def)
  ultimately show "hex_arg ''10'' 16" "hex_arg ''2'' 2" "hex_arg ''0'' 0" "hex_arg ''200'' 512"
    by (simp_all add: hex_arg_def)
qed

text \<open>The two commands as packets.\<close>

lemma write_packet:
  assumes "wf_memory (mem (arm g))" "\<not> closed g" "hex_arg da (unat a)" "hex_arg dn (length bs)"
    "span (mem (arm g)) a (length bs)" "bs \<noteq> []"
  shows "\<exists>m. gdb_packet_analysis u js (packet_of (CHR ''X'' # da @ '','' @ dn @ '':'' @ concat (map escaped bs))) g =
      Some (Running, answered ''OK'' ((acked g)\<lparr>arm := (arm g)\<lparr>mem := m\<rparr>\<rparr>)) \<and>
    same_shape (mem (arm g)) m \<and> byte_at m = store_bytes (byte_at (mem (arm g))) (unat a) bs"
proof -
  let ?x = "da @ '','' @ dn @ '':'' @ concat (map escaped bs)"
  show ?thesis
    using write_memory_bytes [of "acked g" da a dn bs u js "NUL # fmt_02x (checksum (CHR ''X'' # ?x)) @ [NUL]"] assms
    by (auto simp: analysis_packet gdb_handler_def)
qed

lemma read_packet:
  assumes "wf_memory (mem (arm g))" "\<not> closed g" "hex_arg da (unat a)" "hex_arg dn n" "span (mem (arm g)) a n"
  shows "gdb_packet_analysis u js (packet_of (CHR ''m'' # da @ '','' @ dn)) g =
    (if n \<le> 509
     then Some (Running, answered (concat (map fmt_02x (load_bytes (byte_at (mem (arm g))) (unat a) n))) (acked g))
     else None)"
proof -
  let ?m = "da @ '','' @ dn"
  have "gdb_packet_analysis u js (packet_of (CHR ''m'' # ?m)) g =
      read_memory u js (?m @ NUL # fmt_02x (checksum (CHR ''m'' # ?m)) @ [NUL]) (acked g)"
    using assms(2) by (simp add: analysis_packet gdb_handler_def)
  then show ?thesis
    using read_memory_bytes [of "acked g" da a dn n "NUL # fmt_02x (checksum (CHR ''m'' # ?m)) @ [NUL]" u js] assms
    by simp
qed

text \<open>
  C18. For 1 to 509 bytes inside the memory (memory_reply_overflows says what happens beyond),
  address and length in hexadecimal and an open connection: what the command X writes, with the
  reserved characters escaped, is stored byte by byte in the memory and is what the command m
  then answers.
\<close>

theorem memory_packets_round_trip:
  assumes "wf_memory (mem (arm g))" "\<not> closed g" "hex_arg da (unat a)" "hex_arg dn (length bs)"
    "span (mem (arm g)) a (length bs)" "bs \<noteq> []" "length bs \<le> 509"
  shows "\<exists>g' h. gdb_packet_analysis u js (packet_of (CHR ''X'' # da @ '','' @ dn @ '':'' @ concat (map escaped bs))) g =
      Some (Running, g') \<and> hd (sent g') = packet_of ''OK'' \<and>
    gdb_packet_analysis u' js' (packet_of (CHR ''m'' # da @ '','' @ dn)) g' = Some (Running, h) \<and>
    hd (sent h) = packet_of (concat (map fmt_02x bs)) \<and> mem (arm h) = mem (arm g') \<and>
    byte_at (mem (arm h)) = store_bytes (byte_at (mem (arm g))) (unat a) bs"
proof -
  obtain m where m: "gdb_packet_analysis u js (packet_of (CHR ''X'' # da @ '','' @ dn @ '':'' @ concat (map escaped bs))) g =
      Some (Running, answered ''OK'' ((acked g)\<lparr>arm := (arm g)\<lparr>mem := m\<rparr>\<rparr>))"
    "same_shape (mem (arm g)) m" "byte_at m = store_bytes (byte_at (mem (arm g))) (unat a) bs"
    using write_packet [OF assms(1-6)] by blast
  moreover have "wf_memory m" "span m a (length bs)"
    using same_shape_wf [OF m(2)] span_shape [OF m(2)] assms(1,5) by simp_all
  moreover have "load_bytes (byte_at m) (unat a) (length bs) = bs" by (simp add: m(3) load_store_bytes)
  ultimately show ?thesis
    using read_packet [of "answered ''OK'' ((acked g)\<lparr>arm := (arm g)\<lparr>mem := m\<rparr>\<rparr>)" da a dn "length bs"] assms(2-4,7)
    by simp
qed

theorem memory_packets_round_trip_witness:
  "\<exists>g' h. gdb_packet_analysis (\<lambda>_. 0) []
      (packet_of (CHR ''X'' # ''10'' @ '','' @ ''2'' @ '':'' @ concat (map escaped [0x24, 0x41])))
      (gdb_init_data example_core) = Some (Running, g') \<and> hd (sent g') = packet_of ''OK'' \<and>
    gdb_packet_analysis (\<lambda>_. 0) [] (packet_of (CHR ''m'' # ''10'' @ '','' @ ''2'')) g' = Some (Running, h) \<and>
    hd (sent h) = packet_of (concat (map fmt_02x [0x24, 0x41])) \<and> mem (arm h) = mem (arm g') \<and>
    byte_at (mem (arm h)) = store_bytes (byte_at (mem (arm (gdb_init_data example_core)))) (unat (0x10 :: u32)) [0x24, 0x41]"
  by (rule memory_packets_round_trip)
    (simp_all add: hex_arg_example hex_arg_example(2) [unfolded numeral_2_eq_2] span_def gdb_init_data_def example_memory_def new_memory_def Let_def
      wf_memory_def)

text \<open>
  C39. A valid request to read n bytes inside the memory leaves the packet buffer exactly when n
  exceeds 509, although a packet of the advertised size 0x400 can ask for any number.
\<close>

theorem memory_reply_overflows:
  assumes "wf_memory (mem (arm g))" "\<not> closed g" "hex_arg da (unat a)" "hex_arg dn n" "span (mem (arm g)) a n"
  shows "gdb_packet_analysis u js (packet_of (CHR ''m'' # da @ '','' @ dn)) g = None \<longleftrightarrow> 509 < n"
  using read_packet [OF assms] by simp

theorem memory_reply_overflows_witness:
  "gdb_packet_analysis (\<lambda>_. 0) [] (packet_of (CHR ''m'' # ''0'' @ '','' @ ''200''))
     (gdb_init_data (example_core\<lparr>mem := new_memory (\<lambda>_. 0) 1024 1\<rparr>)) = None"
proof -
  let ?g = "gdb_init_data (example_core\<lparr>mem := new_memory (\<lambda>_. 0) 1024 1\<rparr>)"
  have g: "mem (arm ?g) = new_memory (\<lambda>_. 0) 1024 1" "\<not> closed ?g" by (simp_all add: gdb_init_data_def)
  have h: "hex_arg ''0'' (unat (0 :: u32))" "hex_arg ''200'' 512" by (simp_all add: hex_arg_example)
  have "span (new_memory (\<lambda>_. 0) 1024 1) 0 512" by (simp add: span_def new_memory_def Let_def)
  moreover have "(509 :: nat) < 512" by simp
  ultimately show ?thesis
    by (simp only: memory_reply_overflows [OF _ g(2) h] g wf_new_memory)
qed

end
