(* ===== verification/Gdb_Control.thy ===== *)
theory Gdb_Control
  imports Gdb_Session
begin

text \<open>
  The commands that execute instructions, \<^verbatim>\<open>s\<close> and \<^verbatim>\<open>c\<close>: a single step with the dump of the state, and
  the steps up to a breakpoint as a relation between states, which the loop computes.
\<close>

section \<open>One step\<close>

text \<open>The step of both commands: an instruction, then the dump when it is asked for.\<close>

definition traced_step :: "(nat \<Rightarrow> u32) \<Rightarrow> arm_core \<Rightarrow> (outcome \<times> arm_core) option" where
  "traced_step j p = do {
     (result, p) \<leftarrow> arm_step j p;
     case result of
       Exit n \<Rightarrow> Some (Exit n, p)
     | Return e \<Rightarrow> do { p \<leftarrow> trace_arm_state p; Some (Return e, p) } }"

lemma traced_step_safe:
  assumes "safe_core p"
  shows "returns (traced_step j p) (\<lambda>(r, q). safe_core q \<and> tr_enabled (tr q) = tr_enabled (tr p))"
proof -
  obtain r q where q: "arm_step j p = Some (r, q)" "safe_core q"
    using safe_step [OF assms, of j] by (auto simp: returns_iff)
  have e: "tr_enabled (tr q) = tr_enabled (tr p)"
    using evolves_step [OF q(1)] by (simp add: evolves_def same_setup_def)
  have "returns (trace_arm_state q) (\<lambda>s. safe_core s \<and> tr_enabled (tr s) = tr_enabled (tr q))"
    using trace_arm_state_safe [OF safe_coreD(1) [OF q(2)]] q(2)
    by (auto simp: same_setup_def safe_only_traced elim!: returns_mono)
  with q e show ?thesis by (cases r) (auto simp: traced_step_def elim!: returns_mono)
qed

interpretation session_machine: machine traced_step "\<lambda>p. safe_core p \<and> tr_enabled (tr p)"
  by unfold_locales (use traced_step_safe in \<open>fastforce elim: returns_mono\<close>)

section \<open>Up to a breakpoint\<close>

text \<open>
  The word the loop looks at before a step: the next instruction, or what the variable held
  before when the program counter is outside the memory.
\<close>

definition next_word :: "u32 \<Rightarrow> arm_core \<Rightarrow> u32" where
  "next_word i p = (if ok_word (mem p) (fetch_address p) then word_at (mem p) (unat (fetch_address p)) else i)"

definition is_breakpoint :: "u32 \<Rightarrow> bool" where
  "is_breakpoint w \<longleftrightarrow> w AND 0xFFF000F0 = 0xE7F000F0"

text \<open>
  \<open>continues i p e js q e'\<close>: from \<open>p\<close> with the last exception \<open>e\<close>, steps with the uninitialised
  variables \<open>js\<close> lead to \<open>q\<close>, the first state at a breakpoint, with the last exception \<open>e'\<close>.
\<close>

inductive continues :: "u32 \<Rightarrow> arm_core \<Rightarrow> int \<Rightarrow> (nat \<Rightarrow> u32) list \<Rightarrow> arm_core \<Rightarrow> int \<Rightarrow> bool" where
  stop: "is_breakpoint (next_word i p) \<Longrightarrow> continues i p e [] p e"
| go: "\<not> is_breakpoint (next_word i p) \<Longrightarrow> traced_step j p = Some (Return e1, p1) \<Longrightarrow>
    continues (next_word i p) p1 e1 js q e2 \<Longrightarrow> continues i p e (j # js) q e2"

inductive_cases continues_NilE: "continues i p e [] q e'"
inductive_cases continues_ConsE: "continues i p e (j # js) q e'"

inductive_simps continues_Nil: "continues i p e [] q e'"
inductive_simps continues_Cons: "continues i p e (j # js) q e'"

lemma gdb_arm_same [simp]: "g\<lparr>arm := arm g\<rparr> = g" "g\<lparr>arm := p, arm := q\<rparr> = g\<lparr>arm := q\<rparr>"
  by simp_all

text \<open>The look ahead of the loop leaves no trace, but turns the trace on.\<close>

lemma cont_loop_step:
  assumes "ok_core (arm g)"
  shows "cont_loop (j # js) i g =
    (if is_breakpoint (next_word i (arm g)) then Some (Running, traced g)
     else do {
       (result, p) \<leftarrow> traced_step j (arm (traced g));
       case result of
         Exit n \<Rightarrow> Some (Exited n, (traced g)\<lparr>arm := p\<rparr>)
       | Return e \<Rightarrow> cont_loop js (next_word i (arm g)) ((traced g)\<lparr>arm := p, target_exception := e\<rparr>) })"
proof -
  let ?p = "arm (untraced g)"
  have r: "arm_read_register 15 ?p = Some (seen (arm g) 15, ?p)"
    using assms by (simp add: arm_read_register_eq seen_def)
  have w: "arm_read_word (seen (arm g) 15 - 4) i ?p =
      Some (if ok_word (mem (arm g)) (fetch_address (arm g)) then SUCCESS else FAILURE, next_word i (arm g), ?p)"
    using assms by (simp add: arm_read_word_eq next_word_def fetch_address_def seen_def)
  show ?thesis
  proof (cases "arm_step j (arm (traced g))")
    case (Some x)
    then show ?thesis
      by (cases x; cases "fst x") (simp_all add: cont_loop.simps(2) r w Let_def is_breakpoint_def traced_step_def)
  qed (simp add: cont_loop.simps(2) r w Let_def is_breakpoint_def traced_step_def)
qed



lemma cont_loop_continues:
  assumes "continues i p e js q e'" "safe_core p" "tr_enabled (tr p)" "arm g = p" "target_exception g = e"
  shows "cont_loop (js @ l # ls) i g = Some (Running, g\<lparr>arm := q, target_exception := e'\<rparr>)"
  using assms
proof (induction arbitrary: g rule: continues.induct)
  case (stop i p e)
  then show ?case by (auto simp: cont_loop_step safe_coreD traced_enabled)
next
  case (go i p j e1 p1 js q e2 e)
  have "safe_core p1" "tr_enabled (tr p1)" using traced_step_safe [OF go.prems(1), of j] go.hyps(2) go.prems(2) by auto
  then show ?case
    using go.hyps(1,2) go.prems go.IH [of "g\<lparr>arm := p1, target_exception := e1\<rparr>"]
    by (simp add: cont_loop_step safe_coreD traced_enabled)
qed

lemma continues_safe:
  assumes "continues i p e js q e'" "safe_core p" "tr_enabled (tr p)"
  shows "safe_core q \<and> tr_enabled (tr q)"
  using assms
proof (induction rule: continues.induct)
  case (go i p j e1 p1 js q e2 e)
  then show ?case using traced_step_safe [OF go.prems(1), of j] by simp
qed simp

lemma cont_loop_only_continues:
  assumes "cont_loop ls i g = Some (Running, h)" "safe_core (arm g)" "tr_enabled (tr (arm g))"
  shows "\<exists>js l ks. ls = js @ l # ks \<and> continues i (arm g) (target_exception g) js (arm h) (target_exception h) \<and>
    h = g\<lparr>arm := arm h, target_exception := target_exception h\<rparr>"
  using assms
proof (induction ls arbitrary: i g)
  case (Cons l ls)
  note eq = cont_loop_step [OF safe_coreD(1) [OF Cons.prems(2)], of l ls i, unfolded traced_enabled [OF Cons.prems(3)]]
  show ?case
  proof (cases "is_breakpoint (next_word i (arm g))")
    case True
    with Cons.prems(1) eq have "h = g" by simp
    with True have "l # ls = [] @ l # ls \<and> continues i (arm g) (target_exception g) [] (arm h) (target_exception h)"
      by (auto intro: continues.stop)
    with \<open>h = g\<close> show ?thesis by fastforce
  next
    case False
    then obtain r p where rp: "traced_step l (arm g) = Some (r, p)"
      using Cons.prems(1) eq by (auto simp: bind_eq_Some_conv)
    with False Cons.prems(1) eq obtain e where "r = Return e"
      "cont_loop ls (next_word i (arm g)) (g\<lparr>arm := p, target_exception := e\<rparr>) = Some (Running, h)"
      by (cases r) auto
    with rp have s: "traced_step l (arm g) = Some (Return e, p)"
      "cont_loop ls (next_word i (arm g)) (g\<lparr>arm := p, target_exception := e\<rparr>) = Some (Running, h)"
      by simp_all
    have p: "safe_core p" "tr_enabled (tr p)"
      using traced_step_safe [OF Cons.prems(2), of l] s(1) Cons.prems(3) by auto
    obtain js k ks where "ls = js @ k # ks" "continues (next_word i (arm g)) p e js (arm h) (target_exception h)"
      "h = (g\<lparr>arm := p, target_exception := e\<rparr>)\<lparr>arm := arm h, target_exception := target_exception h\<rparr>"
      using Cons.IH [OF s(2)] p by auto
    moreover from this have "continues i (arm g) (target_exception g) (l # js) (arm h) (target_exception h)"
      using continues.go [OF False s(1)] by blast
    ultimately have "l # ls = (l # js) @ k # ks \<and>
        continues i (arm g) (target_exception g) (l # js) (arm h) (target_exception h) \<and>
        h = g\<lparr>arm := arm h, target_exception := target_exception h\<rparr>" by (cases g; cases h) simp
    then show ?thesis by blast
  qed
qed simp

section \<open>An example\<close>

text \<open>A program of one instruction, \<^verbatim>\<open>MOV r1, #5\<close>, and a breakpoint behind it.\<close>

definition breakpoint_core :: arm_core where
  "breakpoint_core = example_core\<lparr>mem := set_word (set_word example_memory 0 0xE3A01005) 4 0xE7F000F0\<rparr>"

definition at_breakpoint :: arm_core where
  "at_breakpoint = (case traced_step (\<lambda>_. 0) breakpoint_core of Some (r, p) \<Rightarrow> p | None \<Rightarrow> breakpoint_core)"

lemma continues_to_breakpoint:
  "safe_core breakpoint_core" "tr_enabled (tr breakpoint_core)" "reg_val at_breakpoint 1 = 5"
  "continues 0 breakpoint_core 0 [\<lambda>_. 0] at_breakpoint 0"
proof -
  show "safe_core breakpoint_core" "tr_enabled (tr breakpoint_core)" "reg_val at_breakpoint 1 = 5"
    by code_simp+
  have s: "\<not> is_breakpoint (next_word 0 breakpoint_core)"
    "is_breakpoint (next_word (next_word 0 breakpoint_core) at_breakpoint)"
    by code_simp+
  have "map_option fst (traced_step (\<lambda>_. 0) breakpoint_core) = Some (Return 0)" by code_simp
  then have "traced_step (\<lambda>_. 0) breakpoint_core = Some (Return 0, at_breakpoint)"
    by (auto simp: at_breakpoint_def)
  then show "continues 0 breakpoint_core 0 [\<lambda>_. 0] at_breakpoint 0"
    using s by (blast intro: continues.intros)
qed

section \<open>Properties\<close>

text \<open>
  C16. From a safe state with the trace enabled, the loop of the continue command computes the
  step relation: it returns exactly when steps of the processor lead to the first state at a
  breakpoint, in that state.
\<close>

theorem continue_loop_refines_steps:
  assumes "safe_core (arm g)" "tr_enabled (tr (arm g))"
  shows "cont_loop ls i g = Some (Running, h) \<longleftrightarrow>
    (\<exists>js l ks q e. ls = js @ l # ks \<and> continues i (arm g) (target_exception g) js q e \<and>
      h = g\<lparr>arm := q, target_exception := e\<rparr>)"
  using cont_loop_only_continues [OF _ assms] cont_loop_continues [OF _ assms refl refl] by blast

theorem continue_loop_refines_steps_witness:
  "cont_loop [\<lambda>_. 0, \<lambda>_. 0] 0 (gdb_init_data breakpoint_core) =
    Some (Running, (gdb_init_data breakpoint_core)\<lparr>arm := at_breakpoint, target_exception := 0\<rparr>)"
proof -
  let ?g = "gdb_init_data breakpoint_core"
  have g: "safe_core (arm ?g)" "tr_enabled (tr (arm ?g))" "continues 0 (arm ?g) (target_exception ?g) [\<lambda>_. 0] at_breakpoint 0"
    using continues_to_breakpoint by (simp_all add: gdb_init_data_def)
  show ?thesis
    unfolding continue_loop_refines_steps [OF g(1,2)] using g(3) by (fastforce intro: exI [of _ "[\<lambda>_. 0]"])
qed

text \<open>The signal gdb is told.\<close>

definition signal_text :: "int \<Rightarrow> string" where
  "signal_text e = (if e = 2 then ''S04'' else if e = 4 \<or> e = 5 then ''S10'' else ''S05'')"

lemma send_stop_reason_eq:
  "\<not> closed g \<Longrightarrow> gdb_send_stop_reason g = Some (Running, answered (signal_text (target_exception g)) g)"
  by (simp add: gdb_send_stop_reason_def signal_text_def UNDEFINED_INSTRUCTION_def PREFETCH_ABORT_def DATA_ABORT_def)

text \<open>
  C25. From a safe state with the trace enabled and the connection open, when steps of the
  processor lead to a breakpoint, the continue command returns at the first one and reports the
  signal of the last exception.
\<close>

theorem continue_command_returns:
  assumes "safe_core (arm g)" "tr_enabled (tr (arm g))" "\<not> closed g"
    "continues (u 19) (arm g) (target_exception g) js q e"
  shows "\<exists>h. gdb_packet_analysis u (js @ l # ks) (packet_of ''c'') g = Some (Running, h) \<and>
    arm h = q \<and> target_exception h = e \<and> safe_core q \<and> sent h = packet_of (signal_text e) # ''+'' # sent g"
proof -
  have s: "safe_core q" using continues_safe [OF assms(4,1,2)] by simp
  have "cont_loop (js @ l # ks) (u 19) (acked g) = Some (Running, (acked g)\<lparr>arm := q, target_exception := e\<rparr>)"
    using cont_loop_continues [OF assms(4)] assms(1,2) by simp
  then show ?thesis
    using assms(3) s
    by (simp add: analysis_packet gdb_handler_def cont_def and_then_def send_stop_reason_eq)
qed

theorem continue_command_returns_witness:
  "\<exists>h. gdb_packet_analysis (\<lambda>_. 0) [\<lambda>_. 0, \<lambda>_. 0] (packet_of ''c'') (gdb_init_data breakpoint_core) = Some (Running, h) \<and>
    arm h = at_breakpoint \<and> target_exception h = 0 \<and> safe_core at_breakpoint \<and> reg_val at_breakpoint 1 = 5 \<and>
    sent h = [packet_of ''S05'', ''+'']"
  using continue_command_returns [of "gdb_init_data breakpoint_core" "\<lambda>_. 0" "[\<lambda>_. 0]" at_breakpoint 0 "\<lambda>_. 0" "[]"]
    continues_to_breakpoint
  by (simp add: gdb_init_data_def signal_text_def)

end
