(* ===== verification/Gdb_Safety.thy ===== *)
theory Gdb_Safety
  imports Gdb_Memory Gdb_Control
begin

text \<open>
  What a session does to the processor: no command but the writing of all registers can leave the
  states in which every instruction is defined, and that one only by an invalid mode.
\<close>

section \<open>The states a command may leave\<close>

text \<open>Safe unless the mode has become invalid.\<close>

definition kept :: "gdb \<Rightarrow> bool" where
  "kept g \<longleftrightarrow> (valid_mode (core_mode (arm g)) \<longrightarrow> safe_core (arm g))"

lemma safe_kept: "safe_core (arm g) \<Longrightarrow> kept g"
  by (simp add: kept_def)

abbreviation keeps :: "result \<Rightarrow> bool" where
  "keeps r \<equiv> whenever r (\<lambda>(st, h). safe_core (arm h))"

lemma send_keeps:
  assumes "safe_core (arm g)"
  shows "keeps (gdb_send_data s g)" "keeps (gdb_send_buffer s g)" "keeps (gdb_send_ack g)"
    "keeps (gdb_require_retransmission g)" "keeps (gdb_send_stop_reason g)"
  using assms by (auto simp: whenever_iff dest: send_arm)

lemma and_then_keeps:
  "keeps m \<Longrightarrow> (\<And>g. safe_core (arm g) \<Longrightarrow> keeps (f g)) \<Longrightarrow> keeps (and_then m f)"
  by (auto simp: and_then_def elim!: whenever_mono)

lemma cont_loop_keeps: "safe_core (arm g) \<Longrightarrow> keeps (cont_loop ls i g)"
proof (induction ls arbitrary: i g)
  case (Cons l ls)
  have "returns (traced_step l (arm (traced g))) (\<lambda>(r, q). safe_core q)"
    using traced_step_safe [of "arm (traced g)" l] Cons.prems by (auto elim!: returns_mono)
  then obtain r q where "traced_step l (arm (traced g)) = Some (r, q)" "safe_core q"
    by (auto simp: returns_iff)
  then show ?case
    using Cons by (cases r) (auto simp: cont_loop_step safe_coreD)
qed simp

lemma safe_mem_shape:
  "safe_core p \<Longrightarrow> same_shape (mem p) m \<Longrightarrow> safe_core (p\<lparr>mem := m\<rparr>)"
  by (simp add: safe_core_def ok_core_mem_update same_shape_wf wf_core_mem)

lemma write_content_shape: "write_content n content a m = Some (ok, m') \<Longrightarrow> same_shape m m'"
proof (induction n arbitrary: content a m)
  case (Suc n)
  then show ?case
    by (auto simp: bind_eq_Some_conv split: if_splits dest!: memory_write_shape(1) Suc.IH intro: same_shape_trans)
qed simp

lemma safe_traced_mem:
  "safe_core (arm g) \<Longrightarrow> same_shape (mem (arm g)) m \<Longrightarrow> safe_core (arm (g\<lparr>arm := (arm g)\<lparr>mem := m\<rparr>\<rparr>))"
  by (simp add: safe_mem_shape)

section \<open>Each handler\<close>

lemma cont_keeps: "safe_core (arm g) \<Longrightarrow> keeps (cont u js data g)"
  unfolding cont_def by (intro and_then_keeps cont_loop_keeps send_keeps)

lemma query_keeps: "safe_core (arm g) \<Longrightarrow> keeps (query u js data g)"
  by (auto simp: query_def Let_def intro: send_keeps)

lemma read_general_registers_keeps:
  assumes "safe_core (arm g)"
  shows "keeps (read_general_registers u js data g)"
proof -
  have "for_each append_register [0..<16] ('''', arm (untraced g)) =
      Some (concat (map write_uint32 (general_values (arm (untraced g)))), arm (untraced g))"
    using assms by (intro append_registers) (simp_all add: safe_coreD)
  then have "read_general_registers u js data g =
      gdb_send_buffer (((concat (map write_uint32 (general_values (arm (untraced g)))) @
        concat (replicate 24 ''xxxxxxxx'')) @ ''xxxxxxxx'') @ write_uint32 (cpsr (arm (untraced g))))
        (traced ((untraced g)\<lparr>arm := traced_reg READ CPSR 0 (cpsr (arm (untraced g))) (arm (untraced g))\<rparr>))"
    by (simp only: read_general_registers_def Let_def Option.bind.simps case_prod_conv arm_read_cpsr_eq)
  then show ?thesis using send_keeps(2) assms by simp
qed

lemma read_memory_keeps: "safe_core (arm g) \<Longrightarrow> keeps (read_memory u js data g)"
  by (auto simp: read_memory_def split: prod.split intro!: whenever_mono [OF _ send_keeps(2)])
    (auto simp: whenever_iff send_keeps(2) dest: send_arm)

lemma narrow_reg: "reg < 16 \<Longrightarrow> (ucast reg :: u8) < 16" for reg :: u32
  by (simp add: word_less_nat_alt unsigned_ucast_eq take_bit_nat_eq_self)

lemma gdb_read_register_keeps: "safe_core (arm g) \<Longrightarrow> keeps (gdb_read_register u js data g)"
  by (simp add: gdb_read_register_def Let_def arm_read_register_eq narrow_reg safe_coreD send_keeps(2))

lemma set_thread_keeps: "safe_core (arm g) \<Longrightarrow> keeps (set_thread u js data g)"
  by (auto simp: set_thread_def Let_def intro: send_keeps)

lemma gdb_step_traced:
  "gdb_step u js data g = do {
     (result, p) \<leftarrow> traced_step u (arm g);
     case result of
       Exit n \<Rightarrow> Some (Exited n, g\<lparr>arm := p\<rparr>)
     | Return e \<Rightarrow> gdb_send_stop_reason (g\<lparr>arm := p, target_exception := e\<rparr>) }"
proof (cases "arm_step u (arm g)")
  case (Some x)
  then show ?thesis by (cases x; cases "fst x") (simp_all add: gdb_step_def traced_step_def)
qed (simp add: gdb_step_def traced_step_def)

lemma gdb_step_keeps: "safe_core (arm g) \<Longrightarrow> keeps (gdb_step u js data g)"
proof -
  assume "safe_core (arm g)"
  then obtain r q where "traced_step u (arm g) = Some (r, q)" "safe_core q"
    using traced_step_safe [of "arm g" u] by (auto simp: returns_iff)
  then show ?thesis by (cases r) (simp_all add: gdb_step_traced send_keeps(5))
qed

lemma wheneverI: "(\<And>x. Q x) \<Longrightarrow> whenever m Q"
  by (cases m) simp_all

lemma write_memory_binary_keeps:
  assumes "safe_core (arm g)"
  shows "keeps (write_memory_binary u js data g)"
proof -
  obtain a n where sp: "scan_pair (c_str data) (u 20, u 21) = (a, n)" by (cases "scan_pair (c_str data) (u 20, u 21)")
  have reply: "keeps (if ok then gdb_send_data ''OK'' (g\<lparr>arm := (arm g)\<lparr>mem := m\<rparr>\<rparr>)
      else gdb_send_data ''E02'' (g\<lparr>arm := (arm g)\<lparr>mem := m\<rparr>\<rparr>))" if "same_shape (mem (arm g)) m" for ok m
    using send_keeps(1) safe_traced_mem [OF assms that] by simp
  have wr: "whenever (if b then write_content k c a (mem (arm g)) else Some (False, mem (arm g)))
      (\<lambda>(ok, m). same_shape (mem (arm g)) m)" for b k c
    by (auto simp: whenever_iff dest: write_content_shape)
  show ?thesis
    unfolding write_memory_binary_def sp Let_def whenever_bind prod.case
    by (rule wheneverI, rule whenever_mono [OF wr]) (use reply in \<open>auto split del: if_split\<close>)
qed

lemma gdb_write_register_keeps:
  assumes "safe_core (arm g)"
  shows "keeps (gdb_write_register u js data g)"
proof -
  have "keeps (do { p \<leftarrow> arm_write_register (ucast reg) v (arm (untraced g));
      gdb_send_data ''OK'' (traced ((untraced g)\<lparr>arm := p\<rparr>)) })" if "reg < 16" for reg :: u32 and v
  proof -
    have "safe_core (arm (untraced g))" using assms by simp
    then have "safe_core (set_reg (ucast reg) v (arm (untraced g)))"
      using narrow_reg [OF that] by (simp add: safe_core_def del: untraced_core)
    with send_keeps(1) narrow_reg [OF that] assms show ?thesis by (simp add: arm_write_register_eq safe_coreD)
  qed
  then show ?thesis
    using assms unfolding gdb_write_register_def Let_def whenever_bind
    by - (rule wheneverI, rule wheneverI, simp)
qed

section \<open>The command that writes all registers\<close>

text \<open>Whatever it reads, only the registers of the mode change before the status register is written.\<close>

lemma write_from_loop:
  assumes "safe_core p" "set is \<subseteq> {..<16}"
  shows "whenever (for_each (write_from u data) is p) safe_core"
  using assms
proof (induction "is" arbitrary: p)
  case (Cons i "is")
  have i: "(of_nat i :: u8) < 16" using Cons.prems(2) of_nat_16(1) [of i] by simp
  have "safe_core (traced_reg WRITE (of_nat i) (core_mode p) v (set_reg (of_nat i) v p))" for v
    using Cons.prems(1) i by (simp add: safe_core_def)
  then have "whenever (write_from u data i p) safe_core"
    using Cons.prems(1) i by (simp add: write_from_def arm_write_register_eq safe_coreD wheneverI)
  then show ?case using Cons by (auto elim!: whenever_mono)
qed simp

lemma write_general_registers_kept:
  assumes "safe_core (arm g)"
  shows "whenever (write_general_registers u js data g) (\<lambda>(st, h). kept h)"
proof -
  have loop: "whenever (for_each (write_from u data) [0..<16] (arm (untraced g))) safe_core"
    by (rule write_from_loop) (use assms in auto)
  have reply: "whenever (gdb_send_data s h) (\<lambda>(st, h). kept h)" if "kept h" for s h
    using that by (auto simp: whenever_iff kept_def dest: send_arm)
  have "kept (traced ((untraced g)\<lparr>arm := traced_reg WRITE CPSR 0 v (set_cpsr v p)\<rparr>))" if "safe_core p" for v p
    using that by (simp add: kept_def) (simp add: safe_core_def)
  then have "whenever (arm_write_cpsr v p) (\<lambda>p. whenever (gdb_send_data ''OK'' (traced ((untraced g)\<lparr>arm := p\<rparr>)))
      (\<lambda>(st, h). kept h))" if "safe_core p" for v p
    using that by (simp add: arm_write_cpsr_eq safe_coreD reply)
  then show ?thesis
    unfolding write_general_registers_def Let_def whenever_bind
    by (intro whenever_mono [OF loop]) (simp add: wheneverI)
qed

section \<open>Properties\<close>

lemma handler_keeps:
  assumes "gdb_handler c = Some h" "safe_core (arm g)"
  shows "whenever (h u js data g) (\<lambda>(st, g'). kept g' \<and> (c \<noteq> CHR ''G'' \<longrightarrow> safe_core (arm g')))"
proof (cases "c = CHR ''G''")
  case True
  with assms write_general_registers_kept [OF assms(2)] show ?thesis by (simp add: gdb_handler_def)
next
  case False
  have "keeps (h u js data g)"
    using assms False cont_keeps query_keeps read_general_registers_keeps read_memory_keeps gdb_read_register_keeps
      set_thread_keeps gdb_step_keeps write_memory_binary_keeps gdb_write_register_keeps send_keeps(5)
    by (auto simp: gdb_handler_def kill_request_def reason_def split: if_splits)
  then show ?thesis by (auto simp: safe_kept elim!: whenever_mono)
qed

lemma analysis_keeps:
  assumes "safe_core (arm g)"
  shows "whenever (gdb_packet_analysis u js pk g) (\<lambda>(st, h). kept h \<and> (take 1 (payload pk) \<noteq> ''G'' \<longrightarrow> safe_core (arm h)))"
proof (cases "checksum_ok pk")
  case True
  define b where "b = payload pk @ [NUL] @ drop (length pk - 2) pk @ [NUL]"
  have G: "take 1 (payload pk) = ''G''" if "b ! 0 = CHR ''G''"
    using that by (cases "payload pk") (auto simp: b_def NUL_def)
  show ?thesis
  proof (cases "closed g")
    case False
    have A: "gdb_packet_analysis u js pk g =
        (case gdb_handler (b ! 0) of Some h \<Rightarrow> h u js (drop 1 b) (acked g) | None \<Rightarrow> gdb_send_data '''' (acked g))"
      using True False
      by (simp add: gdb_packet_analysis_def and_then_def gdb_send_ack_def write_all_def b_def acked_def Let_def
          cong: option.case_cong)
    show ?thesis
    proof (cases "gdb_handler (b ! 0)")
      case None
      with send_keeps(1) [of "acked g" "''''"] assms show ?thesis
        by (auto simp: A safe_kept elim!: whenever_mono)
    next
      case (Some h)
      with handler_keeps [OF Some, of "acked g" u js "drop 1 b"] assms G show ?thesis
        by (auto simp: A elim!: whenever_mono)
    qed
  qed (use True assms in \<open>simp add: gdb_packet_analysis_def and_then_def gdb_send_ack_def write_all_def safe_kept\<close>)
next
  case False
  then show ?thesis
    using send_keeps(4) [OF assms] by (auto simp: gdb_packet_analysis_def safe_kept elim!: whenever_mono)
qed

section \<open>Commands that always return\<close>

text \<open>
  A command is undefined only where the source leaves its arrays: the ones that copy from the packet
  (\<^verbatim>\<open>G\<close>, \<^verbatim>\<open>X\<close> and \<^verbatim>\<open>P\<close>), and the reading of more memory than the reply has room for.
\<close>

lemma send_defined: "length s \<le> 1019 \<Longrightarrow> gdb_send_buffer s g \<noteq> None"
  by (simp add: gdb_send_buffer_def gdb_transmit_packet_def write_all_def MAX_PACKET_SIZE_def)

lemma data_defined [simp]: "length s \<le> 1019 \<Longrightarrow> gdb_send_data s g \<noteq> None"
  by (simp add: gdb_send_data_def send_defined)

lemma stop_reason_defined [simp]: "gdb_send_stop_reason g \<noteq> None"
  by (simp add: gdb_send_stop_reason_def del: not_None_eq)

lemma cont_loop_defined: "safe_core (arm g) \<Longrightarrow> cont_loop ls i g \<noteq> None"
proof (induction ls arbitrary: i g)
  case (Cons l ls)
  have "returns (traced_step l (arm (traced g))) (\<lambda>(r, q). safe_core q)"
    using traced_step_safe [of "arm (traced g)" l] Cons.prems by (auto elim!: returns_mono)
  then obtain r q where "traced_step l (arm (traced g)) = Some (r, q)" "safe_core q"
    by (auto simp: returns_iff)
  then show ?case
    using Cons by (cases r) (auto simp: cont_loop_step safe_coreD)
qed simp

lemma cont_defined:
  assumes "safe_core (arm g)"
  shows "cont u js data g \<noteq> None"
proof -
  obtain st h where "cont_loop js (u 19) g = Some (st, h)" using cont_loop_defined [OF assms] by fast
  then show ?thesis by (simp add: cont_def and_then_def del: not_None_eq)
qed

lemma read_general_registers_defined:
  assumes "safe_core (arm g)"
  shows "read_general_registers u js data g \<noteq> None"
proof -
  have "for_each append_register [0..<16] ('''', arm (untraced g)) =
      Some (concat (map write_uint32 (general_values (arm (untraced g)))), arm (untraced g))"
    using assms by (intro append_registers) (simp_all add: safe_coreD)
  then have "read_general_registers u js data g =
      gdb_send_buffer (((concat (map write_uint32 (general_values (arm (untraced g)))) @
        concat (replicate 24 ''xxxxxxxx'')) @ ''xxxxxxxx'') @ write_uint32 (cpsr (arm (untraced g))))
        (traced ((untraced g)\<lparr>arm := traced_reg READ CPSR 0 (cpsr (arm (untraced g))) (arm (untraced g))\<rparr>))"
    by (simp only: read_general_registers_def Let_def Option.bind.simps case_prod_conv arm_read_cpsr_eq)
  moreover have l: "length (write_uint32 v) = 8" for v using word_field.put_width [of v] by simp
  then have "length (concat (map write_uint32 vs)) = 8 * length vs" for vs by (induction vs) simp_all
  then have "length (concat (map write_uint32 (general_values p))) = 128" for p
    by (simp only: general_values_def length_map) simp
  ultimately show ?thesis by (auto intro!: send_defined simp: l length_concat sum_list_replicate simp del: not_None_eq)
qed

lemma memory_hex_defined:
  "wf_memory m \<Longrightarrow> \<exists>s. memory_hex n a val m = Some s \<and> length s \<le> 2 * n"
proof (induction n arbitrary: a val)
  case (Suc n)
  obtain st v where "memory_read_byte m a val = Some (st, v)"
    using memory_read_byte_eq [OF Suc.prems, of a val] by fastforce
  then show ?case using Suc.IH [OF Suc.prems, of "a + 1" v] by (auto simp: length_fmt_02x)
qed simp

lemma gdb_read_register_defined:
  assumes "safe_core (arm g)"
  shows "gdb_read_register u js data g \<noteq> None"
proof -
  have "length (write_uint32 v) \<le> 1019" for v using word_field.put_width [of v] by simp
  then show ?thesis
    using assms send_defined
    by (simp add: gdb_read_register_def Let_def arm_read_register_eq narrow_reg safe_coreD del: not_None_eq)
qed

lemma gdb_step_defined: "safe_core (arm g) \<Longrightarrow> gdb_step u js data g \<noteq> None"
proof -
  assume "safe_core (arm g)"
  then obtain r q where "traced_step u (arm g) = Some (r, q)"
    using traced_step_safe [of "arm g" u] by (auto simp: returns_iff)
  then show ?thesis by (cases r) (simp_all add: gdb_step_traced del: not_None_eq)
qed

lemma handler_defined:
  assumes "gdb_handler c = Some h" "safe_core (arm g)" "c \<notin> set ''GXP''" "2 \<le> length data"
    "c = CHR ''m'' \<longrightarrow> unat (snd (scan_pair (c_str data) (u 20, u 21))) \<le> 509"
  shows "h u js data g \<noteq> None"
proof -
  have m: "read_memory u js data g \<noteq> None" if "unat (snd (scan_pair (c_str data) (u 20, u 21))) \<le> 509"
  proof -
    obtain a n where sp: "scan_pair (c_str data) (u 20, u 21) = (a, n)" by (cases "scan_pair (c_str data) (u 20, u 21)")
    have "wf_memory (mem (arm g))" using assms(2) by (simp add: safe_core_def wf_core_mem)
    from memory_hex_defined [OF this, of "unat n" a "ucast (u 22)"] obtain s where
      "memory_hex (unat n) a (ucast (u 22)) (mem (arm g)) = Some s" "length s \<le> 2 * unat n" by blast
    moreover have "unat n \<le> 509" using that sp by simp
    ultimately show ?thesis using sp send_defined [of s g] by (simp add: read_memory_def del: not_None_eq)
  qed
  have q: "query u js data g \<noteq> None" by (simp add: query_def Let_def del: not_None_eq)
  have H: "set_thread u js data g \<noteq> None" using assms(4) by (simp add: set_thread_def Let_def del: not_None_eq)
  show ?thesis
    using assms m q H cont_defined read_general_registers_defined gdb_read_register_defined gdb_step_defined

      stop_reason_defined [of g]
    by (auto simp: gdb_handler_def kill_request_def reason_def simp del: not_None_eq stop_reason_defined split: if_splits)
qed

lemma analysis_defined:
  assumes "safe_core (arm g)" "take 1 (payload pk) \<notin> {''G'', ''X'', ''P''}"
    "take 1 (payload pk) = ''m'' \<longrightarrow> unat (snd (scan_pair (c_str (drop 1 (payload pk))) (u 20, u 21))) \<le> 509"
  shows "gdb_packet_analysis u js pk g \<noteq> None"
proof (cases "checksum_ok pk \<and> \<not> closed g")
  case True
  define b where "b = payload pk @ [NUL] @ drop (length pk - 2) pk @ [NUL]"
  have A: "gdb_packet_analysis u js pk g =
      (case gdb_handler (b ! 0) of Some h \<Rightarrow> h u js (drop 1 b) (acked g) | None \<Rightarrow> gdb_send_data '''' (acked g))"
    using True
    by (simp add: gdb_packet_analysis_def and_then_def gdb_send_ack_def write_all_def b_def acked_def Let_def
        cong: option.case_cong)
  show ?thesis
  proof (cases "payload pk")
    case Nil
    then have "gdb_handler (b ! 0) = None" by (simp add: b_def gdb_handler_def NUL_def)
    then show ?thesis by (simp add: A del: not_None_eq)
  next
    case (Cons c s)
    then have c: "b ! 0 = c" "drop 1 b = s @ NUL # drop (length pk - 2) pk @ [NUL]" by (simp_all add: b_def)
    have cs: "c_str (drop 1 b) = c_str s" 
      unfolding c(2) c_str_def by (cases "NUL \<in> set s") (auto simp: takeWhile_append takeWhile_eq_all_conv [THEN iffD2])
    have d: "gdb_send_data '''' (acked g) \<noteq> None" by (rule data_defined) simp
    show ?thesis
      using assms Cons c d handler_defined [of c _ "acked g" "drop 1 b" u js]
      by (cases "gdb_handler (b ! 0)") (auto simp: A cs [unfolded c(2)] simp del: data_defined)
  qed
next
  case False
  then show ?thesis
    by (auto simp: gdb_packet_analysis_def gdb_require_retransmission_def and_then_def gdb_send_ack_def write_all_def)
qed

text \<open>
  C10. From a safe state (valid modes in the current and all saved status registers): whatever
  packet is received, if the analysis is defined it leaves a safe state, or, after the command
  that writes all registers only, one whose mode is invalid; and it is defined for every packet
  but the commands G, X and P, which copy from the packet without testing its form, and a
  command m for more than 509 bytes.
\<close>

theorem commands_keep_safe:
  assumes "safe_core (arm g)"
  shows "(\<forall>st h. gdb_packet_analysis u js pk g = Some (st, h) \<and>
      (take 1 (payload pk) \<noteq> ''G'' \<or> valid_mode (core_mode (arm h))) \<longrightarrow> safe_core (arm h)) \<and>
    (take 1 (payload pk) \<notin> {''G'', ''X'', ''P''} \<and>
      (take 1 (payload pk) = ''m'' \<longrightarrow> unat (snd (scan_pair (c_str (drop 1 (payload pk))) (u 20, u 21))) \<le> 509) \<longrightarrow>
      (\<exists>st h. gdb_packet_analysis u js pk g = Some (st, h) \<and> safe_core (arm h)))"
proof -
  have k: "safe_core (arm h)" if "gdb_packet_analysis u js pk g = Some (st, h)"
    "take 1 (payload pk) \<noteq> ''G'' \<or> valid_mode (core_mode (arm h))" for st h
    using analysis_keeps [OF assms, of u js pk] that by (auto simp: kept_def)
  then show ?thesis using analysis_defined [OF assms, of pk u js] by fastforce
qed

theorem commands_keep_safe_witness:
  "\<exists>st h. gdb_packet_analysis (\<lambda>_. 0) [] (packet_of ''s'') (gdb_init_data example_core) = Some (st, h) \<and>
    safe_core (arm h)"
proof -
  have s: "safe_core (arm (gdb_init_data example_core))" by code_simp
  have p: "payload (packet_of ''s'') = ''s''" by simp
  show ?thesis
    using conjunct2 [OF commands_keep_safe [OF s, of "\<lambda>_. 0" "[]" "packet_of ''s''"]] unfolding p by simp
qed

section \<open>Corrupted packets\<close>

lemma of_char_u8_eq: "(of_char c :: u8) = of_char d \<longleftrightarrow> c = d"
proof
  assume "(of_char c :: u8) = of_char d"
  then have "(of_nat (of_char c) :: u8) = of_nat (of_char d)" by (simp only: of_nat_of_char)
  then have "unat (of_nat (of_char c) :: u8) = unat (of_nat (of_char d) :: u8)" by (rule arg_cong)
  then show "c = d" unfolding unat_of_nat by simp
qed simp

lemma checksum_sum: "checksum s = sum_list (map of_char s)"
proof -
  have "foldl (\<lambda>check c. check + of_char c) k s = k + sum_list (map of_char s)" for k :: u8
    by (induction s arbitrary: k) (simp_all add: add.assoc)
  then show ?thesis by (simp add: checksum_def)
qed

lemma checksum_update:
  assumes "i < length s" "c \<noteq> s ! i"
  shows "checksum (s[i := c]) \<noteq> checksum s"
proof -
  have s: "s = take i s @ s ! i # drop (Suc i) s" using assms(1) by (simp add: id_take_nth_drop)
  have "s[i := c] = take i s @ c # drop (Suc i) s" using assms(1) by (simp add: upd_conv_take_nth_drop)
  then have "checksum (s[i := c]) = checksum (take i s) + of_char c + checksum (drop (Suc i) s)"
    by (simp add: checksum_sum add.assoc)
  moreover have "checksum s = checksum (take i s) + of_char (s ! i) + checksum (drop (Suc i) s)"
    by (subst s) (simp add: checksum_sum add.assoc)
  ultimately show ?thesis using assms(2) by (simp add: of_char_u8_eq)
qed

text \<open>
  C31. A packet with one character of its payload changed is refused: nothing is executed, a
  request for retransmission is sent.
\<close>

theorem corrupted_packet_refused:
  assumes "i < length s" "c \<noteq> s ! i" "\<not> closed g"
  shows "gdb_packet_analysis u js ((packet_of s)[Suc i := c]) g = Some (Running, g\<lparr>sent := ''-'' # sent g\<rparr>)"
proof -
  let ?p = "''$'' @ s[i := c] @ ''#'' @ fmt_02x (checksum s)"
  have p: "(packet_of s)[Suc i := c] = ?p" using assms(1) by (simp add: packet_of_def list_update_append)
  have "drop (length ?p - 2) ?p = fmt_02x (checksum s)"
    by (metis (no_types, lifting) append_assoc append_eq_conv_conj diff_add_inverse2 length_append length_fmt_02x)
  then have "scan_x 2 (drop (length ?p - 2) ?p) = Some (ucast (checksum s), '''')"
    using scan_x_fmt [of "checksum s" "''''"] by (simp del: scan_x_fmt)
  moreover have "payload ?p = s[i := c]" by (simp add: payload_def)
  moreover have "(ucast (checksum (s[i := c])) :: u32) \<noteq> ucast (checksum s)"
    using checksum_update [OF assms(1,2)] by (metis ucast_byte)
  ultimately have "\<not> checksum_ok ?p" unfolding checksum_ok_def by simp
  with assms(3) show ?thesis
    unfolding p by (simp add: gdb_packet_analysis_def gdb_require_retransmission_def write_all_def)
qed

theorem corrupted_packet_refused_witness:
  "gdb_packet_analysis (\<lambda>_. 0) [] ((packet_of ''m0,4'')[Suc 1 := CHR ''1'']) (gdb_init_data example_core) =
     Some (Running, (gdb_init_data example_core)\<lparr>sent := ''-'' # sent (gdb_init_data example_core)\<rparr>)"
  by (rule corrupted_packet_refused) (simp_all add: gdb_init_data_def)

section \<open>Register numbers\<close>

theorem high_registers_answered_with_r0:
  assumes "ok_core (arm g)" "\<not> closed g" "c \<in> set ''abcdef''"
  shows "\<exists>h. gdb_packet_analysis u js (packet_of [CHR ''p'', c]) g = Some (Running, h) \<and>
    sent h = packet_of (write_uint32 (reg_val (arm g) 0)) # ''+'' # sent g"
proof -
  have "\<forall>c \<in> set ''abcdef''. atoi [c] = 0 \<and> c \<noteq> NUL" by code_simp
  with assms(3) have "atoi [c] = 0" "c \<noteq> NUL" by auto
  moreover have "length (write_uint32 v) \<le> 1019" for v using word_field.put_width [of v] by simp
  ultimately show ?thesis
    using assms(1,2)
    by (simp add: analysis_packet gdb_handler_def gdb_read_register_def c_str_def Let_def arm_read_register_eq
        pc_adjust_def send_fits)
qed

theorem high_registers_answered_with_r0_witness:
  "\<exists>h. gdb_packet_analysis (\<lambda>_. 0) [] (packet_of ''pf'') (gdb_init_data example_core) = Some (Running, h) \<and>
    sent h = packet_of (write_uint32 (reg_val (arm (gdb_init_data example_core)) 0)) # ''+'' # sent (gdb_init_data example_core)"
  by (rule high_registers_answered_with_r0) (simp_all add: gdb_init_data_def)

end
