(* ===== verification/Scanner.thy ===== *)
theory Scanner
  imports Gdb_Safety
begin

text \<open>
  \<^verbatim>\<open>scanner.l\<close>: the scanner that cuts the bytes from gdb into acknowledgements, requests for
  retransmission and packets, and collects what is neither. The scanner takes the longest match, the first rule
  among equals, and copies to the standard output what no rule matches; \<open>Flex\<close> shows that the automaton of
  \<^verbatim>\<open>scanner.c\<close> computes it.
\<close>

section \<open>The rules\<close>

datatype token = Ack | Nak | Packet string | Other char | Echo char

text \<open>
  The pattern of packets has one match at most: the characters up to the next \<^verbatim>\<open>$\<close> or \<^verbatim>\<open>#\<close>. The dot
  matches everything but a newline.
\<close>

definition next_token :: "string \<Rightarrow> (token \<times> string) option" where
  "next_token s = (case s of [] \<Rightarrow> None
     | c # t \<Rightarrow>
         if c = CHR ''+'' then Some (Ack, t)
         else if c = CHR ''-'' then Some (Nak, t)
         else if c = CHR ''$'' then
           (let body = takeWhile (\<lambda>d. d \<noteq> CHR ''$'' \<and> d \<noteq> CHR ''#'') t;
                r = drop (length body) t
            in if 3 \<le> length r \<and> r ! 0 = CHR ''#'' \<and> isxdigit (r ! 1) \<and> isxdigit (r ! 2)
               then Some (Packet (c # body @ take 3 r), drop 3 r)
               else Some (Other c, t))
         else if c = CHR 0x0A then Some (Echo c, t)
         else Some (Other c, t))"

fun token_text :: "token \<Rightarrow> string" where
  "token_text Ack = ''+''"
| "token_text Nak = ''-''"
| "token_text (Packet p) = p"
| "token_text (Other c) = [c]"
| "token_text (Echo c) = [c]"

lemma next_token_text: "next_token s = Some (t, r) \<Longrightarrow> token_text t @ r = s \<and> length r < length s"
proof (cases s)
  case (Cons c u)
  assume a: "next_token s = Some (t, r)"
  have "takeWhile P u @ take 3 (drop (length (takeWhile P u)) u) @ drop 3 (drop (length (takeWhile P u)) u) = u" for P
    by (metis append_take_drop_id takeWhile_eq_take)
  with a Cons show ?thesis by (auto simp: next_token_def Let_def split: if_splits)
qed (simp add: next_token_def)

function tokens :: "string \<Rightarrow> token list" where
  "tokens s = (case next_token s of None \<Rightarrow> [] | Some (t, r) \<Rightarrow> t # tokens r)"
  by auto
termination by (relation "measure length") (auto dest: next_token_text)

declare tokens.simps [simp del]

section \<open>The actions\<close>

definition MAX_ERROR_SIZE :: nat where "MAX_ERROR_SIZE = 1024"

text \<open>\<^verbatim>\<open>struct parser_data\<close>; \<open>errors\<close> is the first \<^verbatim>\<open>len\<close> characters of \<^verbatim>\<open>buffer\<close>, \<open>echoed\<close> the standard output.\<close>

record parser =
  server :: gdb
  errors :: string
  echoed :: string

definition on_server :: "(gdb \<Rightarrow> result) \<Rightarrow> parser \<Rightarrow> (status \<times> parser) option" where
  "on_server f d = do { (st, g) \<leftarrow> f (server d); Some (st, d\<lparr>server := g\<rparr>) }"

definition then_do :: "(status \<times> parser) option \<Rightarrow> (parser \<Rightarrow> (status \<times> parser) option) \<Rightarrow> (status \<times> parser) option" where
  "then_do m f = do { (st, d) \<leftarrow> m; if st = Running then f d else Some (st, d) }"

definition handle_error :: "parser \<Rightarrow> (status \<times> parser) option" where
  "handle_error d =
     (if errors d \<noteq> '''' then
        if length (errors d) < MAX_ERROR_SIZE then
          then_do (on_server gdb_require_retransmission d) (\<lambda>d. Some (Running, d\<lparr>errors := ''''\<rparr>))
        else None
      else Some (Running, d))"

definition add_character_to_error :: "char \<Rightarrow> parser \<Rightarrow> (status \<times> parser) option" where
  "add_character_to_error c d =
     then_do (if length (errors d) > MAX_ERROR_SIZE - 2 then handle_error d else Some (Running, d))
       (\<lambda>d. if length (errors d) < MAX_ERROR_SIZE then Some (Running, d\<lparr>errors := errors d @ [c]\<rparr>) else None)"

fun token_action :: "(nat \<Rightarrow> u32) \<Rightarrow> (nat \<Rightarrow> u32) list \<Rightarrow> token \<Rightarrow> parser \<Rightarrow> (status \<times> parser) option" where
  "token_action u js Ack d = handle_error d"
| "token_action u js Nak d = then_do (handle_error d) (on_server gdb_transmit_packet)"
| "token_action u js (Packet p) d = then_do (handle_error d) (on_server (gdb_packet_analysis u js p))"
| "token_action u js (Other c) d = add_character_to_error c d"
| "token_action u js (Echo c) d = Some (Running, d\<lparr>echoed := echoed d @ [c]\<rparr>)"

text \<open>
  \<^verbatim>\<open>gdb_scanner\<close> on the whole input of a connection: the actions of the tokens, then the action of
  the end of file. The lists give, for each token, what the program does not determine.
\<close>

fun scan_tokens :: "((nat \<Rightarrow> u32) \<times> (nat \<Rightarrow> u32) list) list \<Rightarrow> token list \<Rightarrow> parser \<Rightarrow> (status \<times> parser) option" where
  "scan_tokens us [] d = handle_error d"
| "scan_tokens [] (t # ts) d = Some (Looping, d)"
| "scan_tokens ((u, js) # us) (t # ts) d = then_do (token_action u js t d) (scan_tokens us ts)"

definition gdb_scanner :: "((nat \<Rightarrow> u32) \<times> (nat \<Rightarrow> u32) list) list \<Rightarrow> string \<Rightarrow> arm_core \<Rightarrow> (status \<times> parser) option" where
  "gdb_scanner us input p =
     scan_tokens us (tokens input) \<lparr>server = gdb_init_data p, errors = '''', echoed = ''''\<rparr>"

section \<open>The scanner cuts its input\<close>

lemma tokens_text: "concat (map token_text (tokens s)) = s"
proof (induction s rule: tokens.induct)
  case (1 s)
  show ?case
  proof (cases "next_token s")
    case None
    then show ?thesis by (subst tokens.simps) (simp add: next_token_def Let_def split: list.splits if_splits)
  next
    case (Some x)
    obtain t r where x: "x = (t, r)" by (cases x)
    have "concat (map token_text (tokens r)) = r" using 1 [OF Some x [symmetric]] by simp
    with next_token_text [of s t r] Some x show ?thesis by (subst tokens.simps) simp
  qed
qed

text \<open>What a client sends: acknowledgements and packets whose payload has its reserved characters escaped.\<close>

fun sendable :: "token \<Rightarrow> bool" where
  "sendable Ack = True"
| "sendable Nak = True"
| "sendable (Packet p) = (\<exists>s. p = packet_of s \<and> CHR ''$'' \<notin> set s \<and> CHR ''#'' \<notin> set s)"
| "sendable (Other c) = False"
| "sendable (Echo c) = False"

lemma isxdigit_fmt: "isxdigit (fmt_02x b ! 0)" "isxdigit (fmt_02x b ! 1)"
  by (simp_all add: fmt_02x_def)

lemma next_token_sendable:
  assumes "sendable t"
  shows "next_token (token_text t @ s) = Some (t, s)"
proof (cases t)
  case (Packet p)
  then obtain q where q: "p = packet_of q" "CHR ''$'' \<notin> set q" "CHR ''#'' \<notin> set q" using assms by auto
  have "takeWhile (\<lambda>d. d \<noteq> CHR ''$'' \<and> d \<noteq> CHR ''#'') (q @ CHR ''#'' # r) = q" for r
    using q(2,3) by (induction q) auto
  moreover have "length (fmt_02x (checksum q) @ s) \<ge> 2" by simp
  moreover have "(fmt_02x (checksum q) @ s) ! 0 = fmt_02x (checksum q) ! 0" "(fmt_02x (checksum q) @ s) ! 1 = fmt_02x (checksum q) ! 1"
    by (simp_all add: nth_append)
  moreover have "take 2 (fmt_02x (checksum q) @ s) = fmt_02x (checksum q)" "drop 2 (fmt_02x (checksum q) @ s) = s" by simp_all
  ultimately show ?thesis
    using isxdigit_fmt [of "checksum q"]
    by (simp add: Packet q(1) packet_of_def next_token_def Let_def numeral_3_eq_3 numeral_2_eq_2)
qed (use assms in \<open>simp_all add: next_token_def\<close>)

lemma tokens_sendable: "list_all sendable ts \<Longrightarrow> tokens (concat (map token_text ts)) = ts"
proof (induction ts)
  case Nil
  show ?case by (subst tokens.simps) (simp add: next_token_def)
next
  case (Cons t ts)
  then show ?case by (subst tokens.simps) (simp add: next_token_sendable)
qed

text \<open>
  C24. The tokens of the text of a sequence of acknowledgements, requests for retransmission and
  packets without reserved characters are that sequence.
\<close>

theorem scanner_round_trip:
  assumes "\<forall>t \<in> set ts. sendable t"
  shows "tokens (concat (map token_text ts)) = ts"
  using assms by (intro tokens_sendable) (simp add: list_all_iff)

theorem scanner_round_trip_witness:
  "tokens (concat (map token_text [Ack, Packet (packet_of ''g''), Nak])) = [Ack, Packet (packet_of ''g''), Nak]"
  by (rule scanner_round_trip) auto

section \<open>Noise\<close>

text \<open>The state of a session that has seen no packet: nothing but requests for retransmission are sent.\<close>

definition only_noise :: "arm_core \<Rightarrow> parser \<Rightarrow> bool" where
  "only_noise p d \<longleftrightarrow> arm (server d) = p \<and> \<not> closed (server d) \<and> packet (server d) = '''' \<and>
     set (sent (server d)) \<subseteq> {''-'', ''''} \<and> length (errors d) < MAX_ERROR_SIZE"

lemma noise_handle_error:
  assumes "only_noise p d"
  shows "returns (handle_error d) (\<lambda>(st, e). st = Running \<and> only_noise p e \<and> errors e = '''')"
  using assms
  by (auto simp: handle_error_def then_do_def on_server_def gdb_require_retransmission_def write_all_def
      only_noise_def MAX_ERROR_SIZE_def)

lemma noise_action:
  assumes "only_noise p d" "\<forall>q. t \<noteq> Packet q"
  shows "returns (token_action u js t d) (\<lambda>(st, e). st = Running \<and> only_noise p e)"
proof (cases t)
  case Nak
  then show ?thesis
    using noise_handle_error [OF assms(1)]
    by (auto simp: then_do_def on_server_def gdb_transmit_packet_def write_all_def only_noise_def elim!: returns_mono)
next
  case (Other c)
  have "returns (if length (errors d) > MAX_ERROR_SIZE - 2 then handle_error d else Some (Running, d))
      (\<lambda>(st, e). st = Running \<and> only_noise p e \<and> length (errors e) + 1 < MAX_ERROR_SIZE)"
    using noise_handle_error [OF assms(1)] assms(1) by (auto simp: MAX_ERROR_SIZE_def elim!: returns_mono)
  then show ?thesis
    unfolding Other token_action.simps add_character_to_error_def then_do_def returns_bind
    by (rule returns_mono) (auto simp: only_noise_def)
qed (use assms noise_handle_error [OF assms(1)] in \<open>auto simp: only_noise_def elim!: returns_mono\<close>)

lemma noise_tokens:
  assumes "only_noise p d" "\<forall>t \<in> set ts. \<forall>q. t \<noteq> Packet q" "length ts \<le> length us"
  shows "returns (scan_tokens us ts d) (\<lambda>(st, e). st = Running \<and> only_noise p e)"
  using assms
proof (induction us ts d rule: scan_tokens.induct)
  case (1 us d)
  show ?case unfolding scan_tokens.simps
    by (rule returns_mono [OF noise_handle_error [OF "1.prems"(1)]]) auto
next
  case (3 u js us t ts d)
  have "returns (token_action u js t d) (\<lambda>(st, e). st = Running \<and> only_noise p e)"
    using 3 by (intro noise_action) auto
  with 3 show ?case by (auto simp: then_do_def elim!: returns_mono)
qed simp

text \<open>
  C36. Input in which no packet is recognised, whatever its length, is consumed without leaving
  the error buffer, leaves the processor and sends nothing but requests for retransmission.
\<close>

theorem noise_is_harmless:
  assumes "\<forall>t \<in> set (tokens input). \<forall>q. t \<noteq> Packet q" "length (tokens input) \<le> length us"
  shows "\<exists>d. gdb_scanner us input p = Some (Running, d) \<and> arm (server d) = p \<and> set (sent (server d)) \<subseteq> {''-'', ''''}"
proof -
  have "only_noise p \<lparr>server = gdb_init_data p, errors = '''', echoed = ''''\<rparr>"
    by (simp add: only_noise_def gdb_init_data_def MAX_ERROR_SIZE_def)
  from noise_tokens [OF this assms] show ?thesis
    by (auto simp: gdb_scanner_def returns_iff only_noise_def)
qed

theorem noise_is_harmless_witness:
  "\<exists>d. gdb_scanner [(\<lambda>_. 0, []), (\<lambda>_. 0, []), (\<lambda>_. 0, [])] ''x-+'' example_core = Some (Running, d) \<and>
    arm (server d) = example_core \<and> set (sent (server d)) \<subseteq> {''-'', ''''}"
proof -
  have "tokens ''x-+'' = [Other CHR ''x'', Nak, Ack]" by code_simp
  then show ?thesis by (intro noise_is_harmless) auto
qed

end
