(* ===== verification/Debug.thy ===== *)
theory Debug
  imports Loops "HOL-Library.Char_ord" "HOL-Library.List_Lexorder" "HOL-Library.Multiset"
begin

text \<open>
  \<^verbatim>\<open>debug.h\<close> and \<^verbatim>\<open>debug.c\<close>: the sorted array of the files whose messages are wanted, insertion into
  it and the binary search of the macro \<^verbatim>\<open>is_debugged\<close>. The messages go to the standard error and
  are not modelled, except the printing of raw data.
\<close>

section \<open>State and operations\<close>

definition MAX_FILES_NUMBER :: nat where "MAX_FILES_NUMBER = 64"

record debug_files =
  debugged_files :: "string list"
  nb_debugged_files :: nat

definition no_debug :: debug_files where
  "no_debug = \<lparr>debugged_files = replicate MAX_FILES_NUMBER '''', nb_debugged_files = 0\<rparr>"

text \<open>\<^verbatim>\<open>strcmp\<close> of the C library on strings without their final null character.\<close>

fun strcmp :: "string \<Rightarrow> string \<Rightarrow> int" where
  "strcmp [] [] = 0"
| "strcmp [] (d # t) = - 1"
| "strcmp (c # s) [] = 1"
| "strcmp (c # s) (d # t) =
     (if (of_char c :: nat) < of_char d then - 1 else if (of_char d :: nat) < of_char c then 1 else strcmp s t)"

function slot :: "string list \<Rightarrow> nat \<Rightarrow> string \<Rightarrow> nat \<Rightarrow> nat option" where
  "slot fs nb name i =
     (if i < nb \<and> i < MAX_FILES_NUMBER then do {
        f \<leftarrow> arr_get fs i;
        if strcmp f name < 0 then slot fs nb name (i + 1) else Some i
      } else Some i)"
  by auto
termination by (relation "measure (\<lambda>(fs, nb, name, i). nb - i)") auto

declare slot.simps [simp del]

definition shift_up :: "nat \<Rightarrow> nat \<Rightarrow> string list \<Rightarrow> string list option" where
  "shift_up i nb fs =
     for_each (\<lambda>j fs. do { f \<leftarrow> arr_get fs (j - 1); arr_set fs j f }) (rev [i + 1..<nb + 1]) fs"

definition add_debug_to :: "string \<Rightarrow> debug_files \<Rightarrow> debug_files option" where
  "add_debug_to name d = do {
     i \<leftarrow> slot (debugged_files d) (nb_debugged_files d) name 0;
     if i \<ge> MAX_FILES_NUMBER then Some d
     else do {
       fs \<leftarrow> shift_up i (nb_debugged_files d) (debugged_files d);
       fs \<leftarrow> arr_set fs i name;
       Some \<lparr>debugged_files = fs, nb_debugged_files = nb_debugged_files d + 1\<rparr>
     } }"

text \<open>The binary search: the values of \<open>from\<close> and \<open>to\<close> when its loop ends, or 1 when it returns inside.\<close>

function search :: "string list \<Rightarrow> string \<Rightarrow> int \<Rightarrow> int \<Rightarrow> int option" where
  "search fs name from to =
     (if from < to then do {
        let middle = (from + to) div 2;
        f \<leftarrow> arr_get fs (nat middle);
        let result = strcmp f name;
        if result < 0 then search fs name (middle + 1) to
        else if result > 0 then search fs name from (middle - 1)
        else Some 1
      }
      else if from = to then do {
        f \<leftarrow> arr_get fs (nat from);
        Some (if strcmp f name = 0 then 1 else 0)
      }
      else Some 0)"
  by auto
termination by (relation "measure (\<lambda>(fs, name, from, to). nat (to - from))") auto

declare search.simps [simp del]

definition is_debugged :: "string \<Rightarrow> debug_files \<Rightarrow> int option" where
  "is_debugged name d = search (debugged_files d) name 0 (int (nb_debugged_files d) - 1)"

definition isprint :: "char \<Rightarrow> bool" where
  "isprint c \<longleftrightarrow> 0x20 \<le> (of_char c :: nat) \<and> (of_char c :: nat) \<le> 0x7E"

text \<open>What \<^verbatim>\<open>__debug_raw_binary\<close> prints of the first characters of a buffer.\<close>

fun debug_raw_binary :: "string \<Rightarrow> nat \<Rightarrow> string option" where
  "debug_raw_binary data 0 = Some ''''"
| "debug_raw_binary data (Suc len) = do {
     c \<leftarrow> arr_get data 0;
     s \<leftarrow> debug_raw_binary (drop 1 data) len;
     Some ((if isprint c then c else CHR ''.'') # s) }"

section \<open>The order of the names\<close>

lemma strcmp_less: "strcmp s t < 0 \<longleftrightarrow> s < t"
  by (induction s t rule: strcmp.induct) (auto simp: less_char_def)

lemma strcmp_eq: "strcmp s t = 0 \<longleftrightarrow> s = t"
  by (induction s t rule: strcmp.induct) auto

lemma strcmp_greater: "strcmp s t > 0 \<longleftrightarrow> t < s"
  using strcmp_less [of s t] strcmp_eq [of s t] by auto

definition names :: "debug_files \<Rightarrow> string list" where
  "names d = take (nb_debugged_files d) (debugged_files d)"

definition wf_debug :: "debug_files \<Rightarrow> bool" where
  "wf_debug d \<longleftrightarrow> length (debugged_files d) = MAX_FILES_NUMBER \<and>
     nb_debugged_files d \<le> MAX_FILES_NUMBER \<and> sorted (names d)"

section \<open>Insertion\<close>

lemma slot_takeWhile:
  assumes "nb \<le> length fs" "nb \<le> MAX_FILES_NUMBER" "i \<le> nb"
  shows "slot fs nb name i = Some (i + length (takeWhile (\<lambda>f. f < name) (drop i (take nb fs))))"
  using assms
proof (induction fs nb name i rule: slot.induct)
  case (1 fs nb name i)
  show ?case
  proof (cases "i < nb")
    case True
    then have "drop i (take nb fs) = fs ! i # drop (Suc i) (take nb fs)"
      using 1(2) by (simp add: Cons_nth_drop_Suc [symmetric])
    with True 1 show ?thesis by (subst slot.simps) (simp add: strcmp_less)
  next
    case False
    with 1 show ?thesis by (subst slot.simps) simp
  qed
qed

lemma shift_up_nth:
  assumes "i \<le> nb" "nb < length fs"
  shows "returns (shift_up i nb fs) (\<lambda>gs. length gs = length fs \<and>
    (\<forall>k < length fs. gs ! k = (if i < k \<and> k \<le> nb then fs ! (k - 1) else fs ! k)))"
  using assms
proof (induction nb arbitrary: fs)
  case 0
  then show ?case by (simp add: shift_up_def)
next
  case (Suc nb)
  show ?case
  proof (cases "i = Suc nb")
    case False
    let ?fs = "fs[Suc nb := fs ! nb]"
    have "shift_up i (Suc nb) fs = shift_up i nb ?fs"
      using Suc.prems False by (simp add: shift_up_def)
    moreover have "returns (shift_up i nb ?fs) (\<lambda>gs. length gs = length ?fs \<and>
        (\<forall>k < length ?fs. gs ! k = (if i < k \<and> k \<le> nb then ?fs ! (k - 1) else ?fs ! k)))"
      by (rule Suc.IH) (use Suc.prems False in simp_all)
    ultimately show ?thesis
      using Suc.prems False by (auto elim!: returns_mono simp: nth_list_update le_Suc_eq)
  qed (use Suc in \<open>auto simp: shift_up_def\<close>)
qed

lemma insert_at_slot:
  assumes "length fs = n" "i \<le> nb" "nb < n" "length gs = n"
    "\<forall>k < n. gs ! k = (if i < k \<and> k \<le> nb then fs ! (k - 1) else fs ! k)"
  shows "take (nb + 1) (gs[i := name]) = take i (take nb fs) @ name # drop i (take nb fs)"
proof (rule nth_equalityI)
  show "length (take (nb + 1) (gs[i := name])) = length (take i (take nb fs) @ name # drop i (take nb fs))"
    using assms by simp
  fix k
  assume "k < length (take (nb + 1) (gs[i := name]))"
  then have "k \<le> nb" by simp
  with assms show "take (nb + 1) (gs[i := name]) ! k = (take i (take nb fs) @ name # drop i (take nb fs)) ! k"
    by (cases k i rule: linorder_cases) (simp_all add: nth_append nth_Cons')
qed

lemma sorted_insert_at:
  fixes L :: "'a :: linorder list"
  assumes "sorted L"
  shows "sorted (takeWhile (\<lambda>f. f < x) L @ x # dropWhile (\<lambda>f. f < x) L)"
  using assms by (induction L) (auto simp: not_less dest: set_takeWhileD set_dropWhileD)

text \<open>Adding a name to an array with room is an insertion into the sorted names.\<close>

lemma slot_names:
  assumes "wf_debug d"
  shows "slot (debugged_files d) (nb_debugged_files d) name 0 =
    Some (length (takeWhile (\<lambda>f. f < name) (names d)))"
  using assms slot_takeWhile [of "nb_debugged_files d" "debugged_files d" 0 name]
  by (simp add: wf_debug_def names_def)

lemma length_names: "wf_debug d \<Longrightarrow> length (names d) = nb_debugged_files d"
  by (simp add: wf_debug_def names_def)

lemma add_debug_names:
  assumes "wf_debug d" "nb_debugged_files d < MAX_FILES_NUMBER"
  shows "returns (add_debug_to name d) (\<lambda>e. wf_debug e \<and>
    nb_debugged_files e = nb_debugged_files d + 1 \<and> mset (names e) = add_mset name (mset (names d)))"
proof -
  define i where "i = length (takeWhile (\<lambda>f. f < name) (names d))"
  let ?nb = "nb_debugged_files d" and ?fs = "debugged_files d"
  have len: "length ?fs = MAX_FILES_NUMBER" using assms(1) by (simp add: wf_debug_def)
  have i: "i \<le> ?nb" using length_takeWhile_le [of _ "names d"] length_names [OF assms(1)] by (simp add: i_def)
  have slot: "slot ?fs ?nb name 0 = Some i" using slot_names [OF assms(1)] by (simp add: i_def)
  have "takeWhile (\<lambda>f. f < name) (names d) = take i (names d)" "dropWhile (\<lambda>f. f < name) (names d) = drop i (names d)"
    unfolding i_def by (rule takeWhile_eq_take, rule dropWhile_eq_drop)
  with sorted_insert_at [of "names d" name] assms(1)
  have s: "sorted (take i (names d) @ name # drop i (names d))" by (simp add: wf_debug_def)
  have m: "mset (take i (names d) @ name # drop i (names d)) = add_mset name (mset (names d))"
    proof -
    have "mset (names d) = mset (take i (names d)) + mset (drop i (names d))"
      unfolding mset_append [symmetric] by simp
    then show ?thesis by simp
  qed
  have "returns (shift_up i ?nb ?fs) (\<lambda>gs. length gs = MAX_FILES_NUMBER \<and>
      take (?nb + 1) (gs[i := name]) = take i (names d) @ name # drop i (names d))"
    using shift_up_nth [OF i, of ?fs] insert_at_slot [OF len i assms(2)] assms(2) len
    by (auto simp: names_def elim!: returns_mono)
  then show ?thesis
    using i assms(2) s m
    by (auto simp: add_debug_to_def slot wf_debug_def names_def elim!: returns_mono)
qed

section \<open>Search\<close>

text \<open>Whether the name is at an index between the two bounds.\<close>

definition between :: "string list \<Rightarrow> string \<Rightarrow> int \<Rightarrow> int \<Rightarrow> bool" where
  "between fs name from to \<longleftrightarrow> (\<exists>k. from \<le> int k \<and> int k \<le> to \<and> fs ! k = name)"

lemma between_halves:
  assumes "\<And>j k. j \<le> k \<Longrightarrow> int k \<le> to \<Longrightarrow> fs ! j \<le> fs ! k" "from \<le> int m" "int m \<le> to"
  shows "fs ! m < name \<Longrightarrow> between fs name from to = between fs name (int m + 1) to"
    "name < fs ! m \<Longrightarrow> between fs name from to = between fs name from (int m - 1)"
proof -
  assume less: "fs ! m < name"
  have "int m + 1 \<le> int k" if "int k \<le> to" "fs ! k = name" for k
    using assms(1) [of k m] assms(3) less that by (cases "k \<le> m") auto
  then show "between fs name from to = between fs name (int m + 1) to"
    using assms(2,3) unfolding between_def by (intro ex_cong1) force
next
  assume less: "name < fs ! m"
  have "int k \<le> int m - 1" if "int k \<le> to" "fs ! k = name" for k
    using assms(1) [of m k] less that by (cases "m \<le> k") auto
  then show "between fs name from to = between fs name from (int m - 1)"
    using assms(2,3) unfolding between_def by (intro ex_cong1) force
qed

lemma search_finds:
  assumes "sorted (take nb fs)" "nb \<le> length fs" "0 \<le> from" "to < int nb"
  shows "search fs name from to = Some (if between fs name from to then 1 else 0)"
  using assms
proof (induction fs name "from" to rule: search.induct)
  case (1 fs name a b)
  note IH = "1.IH" and p = "1.prems"
  have mono: "fs ! j \<le> fs ! k" if "j \<le> k" "int k \<le> b" for j k
    using sorted_nth_mono [OF p(1), of j k] that p(2,4) by simp
  show ?case
  proof (cases "a < b")
    case True
    define m where "m = nat ((a + b) div 2)"
    have m: "(a + b) div 2 = int m" "a \<le> int m" "int m < b"
      using True p(3,4) by (auto simp: m_def)
    have get: "arr_get fs m = Some (fs ! m)" using m(3) p(2,4) by simp
    note halves = between_halves [OF mono m(2) less_imp_le [OF m(3)]]
    consider "fs ! m < name" | "name < fs ! m" | "fs ! m = name" by fastforce
    then show ?thesis
    proof cases
      case 1
      then show ?thesis
        using IH(1) [OF True refl _ refl] True p m get halves(1) by (subst search.simps) (simp add: strcmp_less)
    next
      case 2
      then show ?thesis
        using IH(2) [OF True refl _ refl] True p m get halves(2)
        by (subst search.simps) (auto simp: strcmp_less strcmp_greater Let_def dest: less_asym)
    next
      case 3
      then have "strcmp (fs ! m) name = 0" "between fs name a b"
        using m by (auto simp: strcmp_eq between_def)
      then show ?thesis using True m get by (subst search.simps) (simp add: Let_def)
    qed
  next
    case False
    then show ?thesis
      using p by (subst search.simps) (auto simp: between_def strcmp_eq)
  qed
qed

text \<open>The names of the options \<^verbatim>\<open>-d\<close>, added one after the other.\<close>

definition add_all :: "string list \<Rightarrow> debug_files \<Rightarrow> debug_files option" where
  "add_all = for_each add_debug_to"

lemma wf_no_debug: "wf_debug no_debug" "names no_debug = []"
  by (simp_all add: wf_debug_def no_debug_def names_def)

lemma add_all_names:
  assumes "wf_debug d" "nb_debugged_files d + length ns \<le> MAX_FILES_NUMBER"
  shows "returns (add_all ns d) (\<lambda>e. wf_debug e \<and> mset (names e) = mset ns + mset (names d))"
  using assms
proof (induction ns arbitrary: d)
  case (Cons n ns)
  have "returns (add_debug_to n d) (\<lambda>e. wf_debug e \<and> nb_debugged_files e = nb_debugged_files d + 1 \<and>
      mset (names e) = add_mset n (mset (names d)))"
    using add_debug_names [of d n] Cons.prems by simp
  then show ?case
    using Cons.IH Cons.prems by (fastforce simp: add_all_def elim: returns_mono)
qed (simp add: add_all_def)

lemma is_debugged_names:
  assumes "wf_debug d"
  shows "is_debugged name d = Some (if name \<in> set (names d) then 1 else 0)"
proof -
  let ?nb = "nb_debugged_files d"
  have "between (debugged_files d) name 0 (int ?nb - 1) \<longleftrightarrow> (\<exists>k < ?nb. names d ! k = name)"
    by (auto simp: between_def names_def)
  also have "\<dots> \<longleftrightarrow> name \<in> set (names d)"
    using length_names [OF assms] by (auto simp: in_set_conv_nth)
  finally show ?thesis
    using search_finds [of ?nb "debugged_files d" 0 "int ?nb - 1" name] assms
    by (simp add: is_debugged_def wf_debug_def names_def)
qed

section \<open>Properties\<close>

text \<open>
  C38. After up to 64 file names have been added in any order, the binary search answers 1
  exactly for the names added.
\<close>

theorem debugged_files_found:
  assumes "length ns \<le> MAX_FILES_NUMBER"
  shows "(add_all ns no_debug \<bind> is_debugged name) = Some (if name \<in> set ns then 1 else 0)"
proof -
  obtain e where e: "add_all ns no_debug = Some e" "wf_debug e" "mset (names e) = mset ns"
    using add_all_names [of no_debug ns] wf_no_debug assms by (auto simp: returns_iff no_debug_def)
  from e(3) have "set (names e) = set ns" by (metis set_mset_mset)
  with e is_debugged_names [OF e(2), of name] show ?thesis by simp
qed

theorem debugged_files_found_witness:
  "(add_all [''trace.c'', ''debug.c''] no_debug \<bind> is_debugged ''debug.c'') = Some 1"
  using debugged_files_found [of "[''trace.c'', ''debug.c'']" "''debug.c''"] by (simp add: MAX_FILES_NUMBER_def)

theorem debug_array_overflow:
  assumes "wf_debug d" "nb_debugged_files d = MAX_FILES_NUMBER"
  shows "add_debug_to name d = (if last (names d) < name then Some d else None)"
proof -
  define i where "i = length (takeWhile (\<lambda>f. f < name) (names d))"
  have len: "length (names d) = MAX_FILES_NUMBER" "length (debugged_files d) = MAX_FILES_NUMBER"
    using assms length_names by (simp_all add: wf_debug_def)
  then have ne: "names d \<noteq> []" by (auto simp: MAX_FILES_NUMBER_def)
  have slot: "slot (debugged_files d) MAX_FILES_NUMBER name 0 = Some i"
    using slot_names [OF assms(1), of name] assms(2) by (simp add: i_def)
  show ?thesis
  proof (cases "last (names d) < name")
    case True
    have "f < name" if "f \<in> set (names d)" for f
    proof -
      have "sorted (butlast (names d) @ [last (names d)])" "f \<in> set (butlast (names d) @ [last (names d)])"
        using assms(1) that ne by (simp_all add: wf_debug_def)
      then have "f \<le> last (names d)" by (auto simp: sorted_append)
      with True show ?thesis by (rule le_less_trans [rotated])
    qed
    then have "i = MAX_FILES_NUMBER" using len by (simp add: i_def takeWhile_eq_all_conv [THEN iffD2])
    with slot True assms(2) show ?thesis by (simp add: add_debug_to_def)
  next
    case False
    have "takeWhile (\<lambda>f. f < name) (names d) \<noteq> names d"
      using False ne by (metis last_in_set takeWhile_eq_all_conv)
    moreover have "takeWhile (\<lambda>f. f < name) (names d) = take i (names d)"
      unfolding i_def by (rule takeWhile_eq_take)
    ultimately have "i < MAX_FILES_NUMBER" using len by (metis leI take_all)
    then have "rev [i + 1..<MAX_FILES_NUMBER + 1] = MAX_FILES_NUMBER # rev [i + 1..<MAX_FILES_NUMBER]" by simp
    then have "shift_up i MAX_FILES_NUMBER (debugged_files d) = None"
      using len by (simp add: shift_up_def MAX_FILES_NUMBER_def arr_set_def)
    with slot False \<open>i < MAX_FILES_NUMBER\<close> assms(2) show ?thesis by (simp add: add_debug_to_def)
  qed
qed

theorem debug_array_overflow_witness:
  "(let d = \<lparr>debugged_files = replicate 64 ''b'', nb_debugged_files = 64\<rparr> in
     add_debug_to ''a'' d = None \<and> add_debug_to ''c'' d = Some d)"
proof -
  let ?d = "\<lparr>debugged_files = replicate 64 ''b'', nb_debugged_files = 64\<rparr>"
  have d: "wf_debug ?d" "nb_debugged_files ?d = MAX_FILES_NUMBER"
    by (simp_all add: wf_debug_def names_def MAX_FILES_NUMBER_def)
  have "last (names ?d) = ''b''" by (simp add: names_def)
  with debug_array_overflow [OF d] show ?thesis by (simp add: list_less_def)
qed

end
