(* ===== verification/Send_Irq.thy ===== *)
theory Send_Irq
  imports Arm_Exception Gdb_Packet
begin

text \<open>
  \<^verbatim>\<open>send_irq.c\<close>: the program that sends the number of an interrupt to the simulator. What it
  writes and where is its result; \<open>Net\<close> has the calls of the connection.
\<close>

section \<open>Operations\<close>

datatype sent = Usage string | Unknown string | Written "string \<times> u16 \<times> u8 list"

lemma exception_name_step:
  assumes "arm_get_exception_name irq = Some (Some s)"
  shows "8 - unat (irq + 1) < 8 - unat irq"
proof -
  have "unat irq < 8" using assms by (auto simp: arm_get_exception_name_def word_less_nat_alt split: if_splits)
  then show ?thesis by (simp add: unat_word_ariths)
qed

text \<open>The loop over the names, from the number \<open>irq\<close> on: the number at which it stops and its name.\<close>

function find_irq :: "string \<Rightarrow> u8 \<Rightarrow> (u8 \<times> string option) option" where
  "find_irq name irq = do {
     irq_name \<leftarrow> arm_get_exception_name irq;
     case irq_name of
       None \<Rightarrow> Some (irq, None)
     | Some s \<Rightarrow> if s \<noteq> name then find_irq name (irq + 1) else Some (irq, Some s) }"
  by auto
termination by (relation "measure (\<lambda>(name, irq). 8 - unat irq)") (auto dest: exception_name_step)

declare find_irq.simps [simp del]

text \<open>The list of the usage message.\<close>

function usage_names :: "u8 \<Rightarrow> string option" where
  "usage_names irq = do {
     irq_name \<leftarrow> arm_get_exception_name irq;
     case irq_name of
       None \<Rightarrow> Some ''''
     | Some s \<Rightarrow> do {
         rest \<leftarrow> usage_names (irq + 1);
         Some (s @ (if irq = INTERRUPT then [CHR 0x09, CHR 0x09] @ ''(default)'' else '''') @ [CHR 0x0A] @ rest) } }"
  by auto
termination by (relation "measure (\<lambda>irq. 8 - unat irq)") (auto dest: exception_name_step)

declare usage_names.simps [simp del]

definition newline :: string where "newline = [CHR 0x0A]"

text \<open>\<open>argv\<close> with the name of the program first. The exits are values: \<open>Usage\<close> is 1, \<open>Unknown\<close> is 2.\<close>

definition send_irq :: "string list \<Rightarrow> sent option" where
  "send_irq argv =
     (if length argv < 3 then do {
        names \<leftarrow> usage_names RESET;
        name \<leftarrow> arr_get argv 0;
        Some (Usage (''Usage :'' @ name @ '' host port [ IRQ name ]'' @ newline @ newline @
          ''Sends an IRQ signal to the ARM simulator executing on the given host using the given port.'' @ newline @
          ''The IRQ name is one of :'' @ newline @ names)) }
      else do {
        (irq, found) \<leftarrow> (if length argv < 4 then Some (INTERRUPT, Some '''') else find_irq (argv ! 3) RESET);
        case found of
          None \<Rightarrow> Some (Unknown (''Unknown irq : '' @ argv ! 3 @ newline))
        | Some s \<Rightarrow> Some (Written (argv ! 1, word_of_int (atoi (argv ! 2)), [irq])) })"

section \<open>Properties\<close>

lemma exception_names:
  "arm_get_exception_name 0 = Some None" "arm_get_exception_name 1 = Some (Some ''reset'')"
  "arm_get_exception_name 2 = Some (Some ''undefined instruction'')"
  "arm_get_exception_name 3 = Some (Some ''software interrupt'')"
  "arm_get_exception_name 4 = Some (Some ''prefetch abort'')" "arm_get_exception_name 5 = Some (Some ''data abort'')"
  "arm_get_exception_name 6 = Some (Some ''interrupt'')" "arm_get_exception_name 7 = Some (Some ''fast interrupt'')"
  "arm_get_exception_name 8 = Some None"
  by code_simp+

lemma find_irq_from_reset:
  "find_irq name RESET = Some
     (if name = ''reset'' then (1, Some name) else if name = ''undefined instruction'' then (2, Some name)
      else if name = ''software interrupt'' then (3, Some name) else if name = ''prefetch abort'' then (4, Some name)
      else if name = ''data abort'' then (5, Some name) else if name = ''interrupt'' then (6, Some name)
      else if name = ''fast interrupt'' then (7, Some name) else (8, None))"
  by (simp add: RESET_def find_irq.simps [of _ 1] find_irq.simps [of _ 2] find_irq.simps [of _ 3] find_irq.simps [of _ 4]
      find_irq.simps [of _ 5] find_irq.simps [of _ 6] find_irq.simps [of _ 7] find_irq.simps [of _ 8] exception_names)

lemma named_exception:
  assumes "arm_get_exception_name e = Some (Some s)"
  shows "e \<in> {1, 2, 3, 4, 5, 6, 7}"
proof -
  have "e \<noteq> 0" using assms exception_names(1) by auto
  moreover have "unat e < 8" using assms by (auto simp: arm_get_exception_name_def word_less_nat_alt split: if_splits)
  then have "unat e \<in> {0, 1, 2, 3, 4, 5, 6, 7}" by auto
  ultimately show ?thesis by (auto simp: word_unat_eq_iff)
qed

theorem send_irq_sends_named_exception:
  assumes "length argv = 4" "arm_get_exception_name e = Some (Some (argv ! 3))"
  shows "send_irq argv = Some (Written (argv ! 1, word_of_int (atoi (argv ! 2)), [e])) \<and>
    (\<forall>p. wf_core p \<longrightarrow> returns (arm_exception e p) (\<lambda>q. ok_core q \<and> exception_mode e = Some (core_mode q)))"
proof
  have e: "e \<in> {1, 2, 3, 4, 5, 6, 7}" by (rule named_exception) (rule assms(2))
  have f: "find_irq (argv ! 3) RESET = Some (e, Some (argv ! 3))"
    using e assms(2) by (auto simp: exception_names find_irq_from_reset)
  then show "send_irq argv = Some (Written (argv ! 1, word_of_int (atoi (argv ! 2)), [e]))"
    using assms(1) by (simp add: send_irq_def)
  obtain m where m: "exception_mode e = Some m" using e by (auto simp: exception_mode_def exception_defs)
  show "\<forall>p. wf_core p \<longrightarrow> returns (arm_exception e p) (\<lambda>q. ok_core q \<and> exception_mode e = Some (core_mode q))"
  proof (intro allI impI)
    fix p
    assume "wf_core p"
    obtain v off pcv where v: "exception_entry e (cpsr p) = (v, off, pcv)" by (metis prod_cases3)
    have mv: "mode_of v = m" using mode_of_entry [OF m, of "cpsr p"] v by simp
    show "returns (arm_exception e p) (\<lambda>q. ok_core q \<and> exception_mode e = Some (core_mode q))"
      using \<open>wf_core p\<close> valid_exception_mode [OF m] mv m by (simp add: arm_exception_def core_eqs v)
  qed
qed

theorem send_irq_sends_named_exception_witness:
  "send_irq [''send_irq'', ''localhost'', ''5000'', ''fast interrupt''] = Some (Written (''localhost'', 5000, [7])) \<and>
    returns (arm_exception 7 example_core) (\<lambda>q. core_mode q = FIQ)"
proof -
  let ?argv = "[''send_irq'', ''localhost'', ''5000'', ''fast interrupt'']"
  have "atoi ''5000'' = 5000" "wf_core example_core" "exception_mode 7 = Some FIQ" by code_simp+
  moreover have "send_irq ?argv = Some (Written (?argv ! 1, word_of_int (atoi (?argv ! 2)), [7])) \<and>
      (\<forall>p. wf_core p \<longrightarrow> returns (arm_exception 7 p) (\<lambda>q. ok_core q \<and> exception_mode 7 = Some (core_mode q)))"
    by (rule send_irq_sends_named_exception) (simp_all add: exception_names)
  ultimately show ?thesis by (fastforce simp: returns_iff dest: spec [of _ example_core])
qed

end
