(* ===== verification/Simulator.thy ===== *)
theory Simulator
  imports Scanner Debug Send_Irq
begin

text \<open>
  \<^verbatim>\<open>arm_simulator.c\<close>: the options of the command line, the creation of the machine, and the two
  threads that share it under one lock. A packet gdb sends and a byte a sender of
  interrupts writes are inputs of the step relation; \<open>Net\<close> has the sockets they come from.
\<close>

section \<open>Options\<close>

record config =
  gdb_port :: u16
  irq_port :: u16
  trace_file :: "string option"  \<comment> \<open>\<open>None\<close> is the standard output\<close>
  trace_setup :: trace
  debugged :: debug_files

text \<open>What the loop over the options comes to; a program that stops prints to the error output.\<close>

datatype start = Started config | Stopped int string

definition config_init :: config where
  "config_init = \<lparr>gdb_port = 0, irq_port = 0, trace_file = None, trace_setup = trace_init, debugged = no_debug\<rparr>"

definition usage :: "string \<Rightarrow> string" where
  "usage name =
     ''Usage:'' @ [CHR 0x0A] @
     name @
     '' [ --help ] [ --gdb-port port ] [ --irq-port port ] [ --trace-file file ] [ '' @
     ''--trace-registers ] [ --trace-memory ] [ --trace-state ] [ --trace-position ] [ '' @
     ''--debug filename ]'' @ [CHR 0x0A] @ [CHR 0x0A] @
     ''Start an ARMv5 instruction set simulator that acts as a gdb server and can '' @
     ''receive interrupts. It is possible to specify on which ports the simulator '' @
     ''listen to gdb client or irq sending program connections. Trace options have the '' @
     ''following behavior:'' @ [CHR 0x0A] @
     ''- trace file: file into which trace information is stored (default is stdout)'' @ [CHR 0x0A] @
     ''- trace registers: outputs informations about each access to registers'' @ [CHR 0x0A] @
     ''- trace memory: outputs informations about each access to memory'' @ [CHR 0x0A] @
     ''- trace state: outputs the processor state after each instruction'' @ [CHR 0x0A] @
     ''- trace position: for each traced access, outputs the file and line at which '' @
     ''the access has been performed'' @ [CHR 0x0A] @
     ''The debug switch enable selective reporting of debug messages on a per source '' @
     ''file basis'' @ [CHR 0x0A]"

text \<open>
  The loop over what \<^verbatim>\<open>getopt_long\<close> returns: the letters of the options with their arguments.
  \<open>fails\<close> says which files \<^verbatim>\<open>fopen\<close> cannot open for writing, and why.
\<close>

fun parse_options ::
  "string \<Rightarrow> (string \<Rightarrow> string option) \<Rightarrow> (char \<times> string) list \<Rightarrow> config \<Rightarrow> start option" where
  "parse_options name fails [] c = Some (Started c)"
| "parse_options name fails ((opt, optarg) # opts) c =
     (if opt = CHR ''g'' then parse_options name fails opts (c\<lparr>gdb_port := word_of_int (atoi optarg)\<rparr>)
      else if opt = CHR ''i'' then parse_options name fails opts (c\<lparr>irq_port := word_of_int (atoi optarg)\<rparr>)
      else if opt = CHR ''h'' then Some (Stopped 0 (usage name))
      else if opt = CHR ''t'' then
        (case fails optarg of
           None \<Rightarrow> parse_options name fails opts (c\<lparr>trace_file := Some optarg\<rparr>)
         | Some message \<Rightarrow> Some (Stopped 1 (''Trace file: '' @ message @ [CHR 0x0A])))
      else if opt = CHR ''r'' then parse_options name fails opts (c\<lparr>trace_setup := trace_add REGISTERS (trace_setup c)\<rparr>)
      else if opt = CHR ''m'' then parse_options name fails opts (c\<lparr>trace_setup := trace_add MEMORY (trace_setup c)\<rparr>)
      else if opt = CHR ''s'' then parse_options name fails opts (c\<lparr>trace_setup := trace_add STATE (trace_setup c)\<rparr>)
      else if opt = CHR ''p'' then parse_options name fails opts (c\<lparr>trace_setup := trace_add POSITION (trace_setup c)\<rparr>)
      else if opt = CHR ''d'' then do {
        d \<leftarrow> add_debug_to optarg (debugged c);
        parse_options name fails opts (c\<lparr>debugged := d\<rparr>) }
      else Some (Stopped 1 (''Unrecognized option '' @ [opt] @ [CHR 0x0A] @ usage name)))"

section \<open>Shared state\<close>

datatype thread = Gdb_thread | Irq_thread

text \<open>
  Where the threads are. A packet with a good checksum and a known command waits for the lock with
  the buffer that starts at the letter of the command; an interrupt waits with its number.
\<close>

datatype gdb_phase = G_ready | G_waiting string | G_handling string | G_leaving
datatype irq_phase = I_ready | I_waiting u8 | I_handling u8 | I_leaving

text \<open>\<^verbatim>\<open>struct shared_data\<close>: the machine, inside the session with gdb, and the lock.\<close>

record simulator =
  session :: gdb
  lock :: "thread option"
  gdb_at :: gdb_phase
  irq_at :: irq_phase
  alive :: bool

definition simulator_init :: "arm_core \<Rightarrow> simulator" where
  "simulator_init p =
     \<lparr>session = gdb_init_data p, lock = None, gdb_at = G_ready, irq_at = I_ready, alive = True\<rparr>"

text \<open>
  The rest of \<^verbatim>\<open>main\<close>: memory, processor and threads; \<open>usable\<close> and \<open>junk\<close> say what \<^verbatim>\<open>malloc\<close> returns.
\<close>

definition simulator_main ::
  "string \<Rightarrow> (string \<Rightarrow> string option) \<Rightarrow> (nat \<Rightarrow> nat) \<Rightarrow> (nat \<Rightarrow> u32) \<Rightarrow> (char \<times> string) list \<Rightarrow>
    (int \<times> string + config \<times> simulator) option" where
  "simulator_main name fails usable junk opts = do {
     r \<leftarrow> parse_options name fails opts config_init;
     case r of
       Stopped n message \<Rightarrow> Some (Inl (n, message))
     | Started c \<Rightarrow> do {
         memory \<leftarrow> memory_create usable junk 0x20000 1;
         p \<leftarrow> arm_create memory (trace_setup c) (junk 0);
         Some (Inr (c, simulator_init p)) } }"

section \<open>The threads\<close>

text \<open>The process ends with the first thread that exits, aborts or is killed.\<close>

definition after :: "status \<Rightarrow> simulator \<Rightarrow> simulator" where
  "after st s = (if st = Running \<or> st = Looping then s else s\<lparr>alive := False\<rparr>)"

definition command_buffer :: "string \<Rightarrow> string" where
  "command_buffer pk = payload pk @ [NUL] @ drop (length pk - 2) pk @ [NUL]"

text \<open>
  One step of one thread. \<open>sends\<close> is the set of packets the client may send. A command that is
  still running when its part of the steps is used up goes on with the lock in its hands.
\<close>

inductive sim_step :: "(string \<Rightarrow> bool) \<Rightarrow> thread \<Rightarrow> simulator \<Rightarrow> simulator \<Rightarrow> bool" for sends where
  refuse: "alive s \<Longrightarrow> gdb_at s = G_ready \<Longrightarrow> sends pk \<Longrightarrow> \<not> checksum_ok pk \<Longrightarrow>
    gdb_require_retransmission (session s) = Some (st, g) \<Longrightarrow>
    sim_step sends Gdb_thread s (after st (s\<lparr>session := g\<rparr>))"
| noise: "alive s \<Longrightarrow> gdb_at s = G_ready \<Longrightarrow> gdb_require_retransmission (session s) = Some (st, g) \<Longrightarrow>
    sim_step sends Gdb_thread s (after st (s\<lparr>session := g\<rparr>))"
| resend: "alive s \<Longrightarrow> gdb_at s = G_ready \<Longrightarrow> gdb_transmit_packet (session s) = Some (st, g) \<Longrightarrow>
    sim_step sends Gdb_thread s (after st (s\<lparr>session := g\<rparr>))"
| unknown: "alive s \<Longrightarrow> gdb_at s = G_ready \<Longrightarrow> sends pk \<Longrightarrow> checksum_ok pk \<Longrightarrow>
    gdb_handler (command_buffer pk ! 0) = None \<Longrightarrow>
    and_then (gdb_send_ack (session s)) (gdb_send_data '''') = Some (st, g) \<Longrightarrow>
    sim_step sends Gdb_thread s (after st (s\<lparr>session := g\<rparr>))"
| accept: "alive s \<Longrightarrow> gdb_at s = G_ready \<Longrightarrow> sends pk \<Longrightarrow> checksum_ok pk \<Longrightarrow>
    gdb_handler (command_buffer pk ! 0) = Some h \<Longrightarrow> gdb_send_ack (session s) = Some (st, g) \<Longrightarrow>
    sim_step sends Gdb_thread s (after st (s\<lparr>session := g, gdb_at := G_waiting (command_buffer pk)\<rparr>))"
| gdb_lock: "alive s \<Longrightarrow> gdb_at s = G_waiting b \<Longrightarrow> lock s = None \<Longrightarrow>
    sim_step sends Gdb_thread s (s\<lparr>lock := Some Gdb_thread, gdb_at := G_handling b\<rparr>)"
| handle: "alive s \<Longrightarrow> gdb_at s = G_handling b \<Longrightarrow> gdb_handler (b ! 0) = Some h \<Longrightarrow>
    h u js (drop 1 b) (session s) = Some (st, g) \<Longrightarrow>
    sim_step sends Gdb_thread s
      (after st (s\<lparr>session := g, gdb_at := (if st = Looping then G_handling b else G_leaving)\<rparr>))"
| gdb_unlock: "alive s \<Longrightarrow> gdb_at s = G_leaving \<Longrightarrow>
    sim_step sends Gdb_thread s (s\<lparr>lock := None, gdb_at := G_ready\<rparr>)"
| interrupt: "alive s \<Longrightarrow> irq_at s = I_ready \<Longrightarrow>
    sim_step sends Irq_thread s (s\<lparr>irq_at := I_waiting e\<rparr>)"
| irq_lock: "alive s \<Longrightarrow> irq_at s = I_waiting e \<Longrightarrow> lock s = None \<Longrightarrow>
    sim_step sends Irq_thread s (s\<lparr>lock := Some Irq_thread, irq_at := I_handling e\<rparr>)"
| raise: "alive s \<Longrightarrow> irq_at s = I_handling e \<Longrightarrow> arm_exception e (arm (session s)) = Some p \<Longrightarrow>
    sim_step sends Irq_thread s (s\<lparr>session := (session s)\<lparr>arm := p\<rparr>, irq_at := I_leaving\<rparr>)"
| irq_unlock: "alive s \<Longrightarrow> irq_at s = I_leaving \<Longrightarrow>
    sim_step sends Irq_thread s (s\<lparr>lock := None, irq_at := I_ready\<rparr>)"

inductive_cases gdb_stepE: "sim_step sends Gdb_thread s t"
inductive_cases irq_stepE: "sim_step sends Irq_thread s t"

inductive sim_runs :: "(string \<Rightarrow> bool) \<Rightarrow> simulator \<Rightarrow> simulator \<Rightarrow> bool" for sends where
  start: "sim_runs sends s s"
| more: "sim_runs sends s t \<Longrightarrow> sim_step sends th t v \<Longrightarrow> sim_runs sends s v"

lemma after_fields [simp]:
  "session (after st s) = session s" "lock (after st s) = lock s" "gdb_at (after st s) = gdb_at s"
  "irq_at (after st s) = irq_at s"
  by (simp_all add: after_def)

section \<open>The start\<close>

text \<open>An option that does not stop the program; the array of debugged files has room for 64.\<close>

definition accepted :: "(string \<Rightarrow> string option) \<Rightarrow> char \<times> string \<Rightarrow> bool" where
  "accepted fails o' \<longleftrightarrow> fst o' \<in> set ''girmspd'' \<or> fst o' = CHR ''t'' \<and> fails (snd o') = None"

lemma parse_accepted:
  assumes "list_all (accepted fails) opts" "wf_debug (debugged c)"
    "nb_debugged_files (debugged c) + length (filter (\<lambda>o'. fst o' = CHR ''d'') opts) \<le> MAX_FILES_NUMBER"
  shows "\<exists>d. parse_options name fails opts c = Some (Started d)"
  using assms
proof (induction opts arbitrary: c)
  case (Cons o' opts)
  obtain opt optarg where o: "o' = (opt, optarg)" by (cases o')
  show ?case
  proof (cases "opt = CHR ''d''")
    case True
    then have "nb_debugged_files (debugged c) < MAX_FILES_NUMBER" using Cons.prems(3) by (simp add: o)
    from add_debug_names [OF Cons.prems(2) this, of optarg] obtain d where
      "add_debug_to optarg (debugged c) = Some d" "wf_debug d" "nb_debugged_files d = Suc (nb_debugged_files (debugged c))"
      by (auto simp: returns_iff)
    with Cons True show ?thesis by (simp add: o)
  next
    case False
    with Cons show ?thesis by (auto simp: o accepted_def)
  qed
qed simp

text \<open>The flag of an option; the trace is what all of them ask for.\<close>

definition flag_of :: "char \<Rightarrow> u32" where
  "flag_of opt = (if opt = CHR ''r'' then REGISTERS else if opt = CHR ''m'' then MEMORY
     else if opt = CHR ''s'' then STATE else if opt = CHR ''p'' then POSITION else 0)"

lemma parse_step:
  assumes "parse_options name fails ((opt, optarg) # opts) c = Some (Started d)"
  shows "\<exists>c'. parse_options name fails opts c' = Some (Started d) \<and>
    trace_flags (trace_setup c') = trace_flags (trace_setup c) OR flag_of opt"
proof -
  consider (flag) "opt \<in> set ''rmsp''" | (port) "opt = CHR ''g'' \<or> opt = CHR ''i''" | (trace) "opt = CHR ''t''"
    | (debug) "opt = CHR ''d''" | (stop) "opt \<notin> set ''gitrmspd''" by auto
  then show ?thesis
  proof cases
    case flag
    with assms show ?thesis by (auto simp: flag_of_def trace_add_def)
  next
    case port
    with assms show ?thesis by (auto simp: flag_of_def)
  next
    case trace
    with assms show ?thesis by (auto simp: flag_of_def split: option.splits)
  next
    case debug
    with assms show ?thesis by (auto simp: flag_of_def bind_eq_Some_conv)
  qed (use assms in \<open>auto split: if_splits\<close>)
qed

lemma parse_flags:
  "parse_options name fails opts c = Some (Started d) \<Longrightarrow>
    trace_flags (trace_setup d) = fold (\<lambda>o' f. f OR flag_of (fst o')) opts (trace_flags (trace_setup c))"
proof (induction opts arbitrary: c)
  case (Cons o' opts)
  obtain opt optarg where o: "o' = (opt, optarg)" by (cases o')
  show ?case using parse_step [OF Cons.prems [unfolded o]] Cons.IH by (auto simp: o)
qed simp

lemma bit_fold_flags:
  "bit (fold (\<lambda>o' f. f OR flag_of (fst o')) opts w) n \<longleftrightarrow> bit w n \<or> (\<exists>o' \<in> set opts. bit (flag_of (fst o')) n)"
  by (induction opts arbitrary: w) (auto simp: bit_or_iff)

lemma flag_bits:
  "bit (flag_of opt) 0 \<longleftrightarrow> opt = CHR ''m''" "bit (flag_of opt) 1 \<longleftrightarrow> opt = CHR ''r''"
  "bit (flag_of opt) 2 \<longleftrightarrow> opt = CHR ''s''" "bit (flag_of opt) 3 \<longleftrightarrow> opt = CHR ''p''"
proof -
  have b: "\<not> bit (2 :: u32) 0" "bit (2 :: u32) 1" "\<not> bit (2 :: u32) 2" "\<not> bit (2 :: u32) 3"
    "\<not> bit (4 :: u32) 0" "\<not> bit (4 :: u32) 1" "bit (4 :: u32) 2" "\<not> bit (4 :: u32) 3"
    "\<not> bit (8 :: u32) 0" "\<not> bit (8 :: u32) 1" "\<not> bit (8 :: u32) 2" "bit (8 :: u32) 3"
    "bit (1 :: u32) 0" "\<not> bit (1 :: u32) 1" "\<not> bit (1 :: u32) 2" "\<not> bit (1 :: u32) 3"
    by code_simp+
  then show "bit (flag_of opt) 0 \<longleftrightarrow> opt = CHR ''m''" "bit (flag_of opt) 1 \<longleftrightarrow> opt = CHR ''r''"
    "bit (flag_of opt) 2 \<longleftrightarrow> opt = CHR ''s''" "bit (flag_of opt) 3 \<longleftrightarrow> opt = CHR ''p''"
    by (simp_all add: flag_of_def REGISTERS_def MEMORY_def STATE_def POSITION_def)
qed

text \<open>
  C23. Whatever options the program accepts, in any order and with at most 64 options -d, main
  starts a machine in supervisor mode with interrupts masked, all sixteen registers zero, a big-
  endian memory of 0x20000 bytes and a free lock, and traces exactly what the options ask for;
  provided the allocator gives the 24 bytes memory_create writes where it asks for the 8 of a
  pointer (memory.c:35).
\<close>

theorem main_starts_machine:
  assumes "list_all (accepted fails) opts" "length (filter (\<lambda>o'. fst o' = CHR ''d'') opts) \<le> MAX_FILES_NUMBER"
    "sizeof_memory_data \<le> usable sizeof_pointer"
  shows "\<exists>c s. simulator_main name fails usable junk opts = Some (Inr (c, s)) \<and>
    (bit (trace_flags (trace_setup c)) 0 \<longleftrightarrow> CHR ''m'' \<in> fst ` set opts) \<and>
    (bit (trace_flags (trace_setup c)) 1 \<longleftrightarrow> CHR ''r'' \<in> fst ` set opts) \<and>
    (bit (trace_flags (trace_setup c)) 2 \<longleftrightarrow> CHR ''s'' \<in> fst ` set opts) \<and>
    (bit (trace_flags (trace_setup c)) 3 \<longleftrightarrow> CHR ''p'' \<in> fst ` set opts) \<and>
    ok_core (arm (session s)) \<and> core_mode (arm (session s)) = SVC \<and> cpsr (arm (session s)) = 0x1D3 \<and>
    mem (arm (session s)) = new_memory junk 0x20000 1 \<and> (\<forall>rg < 16. reg_val (arm (session s)) rg = 0) \<and>
    lock s = None \<and> alive s"
proof -
  have "nb_debugged_files (debugged config_init) = 0" by (simp add: config_init_def no_debug_def)
  moreover have w: "wf_debug (debugged config_init)" by (simp add: config_init_def wf_no_debug)
  ultimately obtain c where c: "parse_options name fails opts config_init = Some (Started c)"
    using parse_accepted [OF assms(1) w, of name] assms(2) by auto
  have "trace_flags (trace_setup config_init) = 0" by (simp add: config_init_def trace_init_def)
  then have f: "bit (trace_flags (trace_setup c)) n \<longleftrightarrow> (\<exists>o' \<in> set opts. bit (flag_of (fst o')) n)" for n
    unfolding parse_flags [OF c] bit_fold_flags by simp
  obtain p where p: "arm_create (new_memory junk 0x20000 1) (trace_setup c) (junk 0) = Some p" "ok_core p"
    "cpsr p = 0x1D3" "core_mode p = SVC" "mem p = new_memory junk 0x20000 1" "\<forall>rg < 16. reg_val p rg = 0"
    using arm_create_supervisor [OF wf_new_memory [of junk "0x20000" 1], of "trace_setup c" "junk 0"]
    by (auto simp: returns_iff)
  have "simulator_main name fails usable junk opts = Some (Inr (c, simulator_init p))"
    using assms(3) by (simp add: simulator_main_def memory_create_def c p(1))
  moreover have "arm (session (simulator_init p)) = p" "lock (simulator_init p) = None" "alive (simulator_init p)"
    by (simp_all add: simulator_init_def gdb_init_data_def)
  moreover have "(\<exists>o' \<in> set opts. fst o' = x) \<longleftrightarrow> x \<in> fst ` set opts" for x by blast
  ultimately show ?thesis
    using p(2-) by (intro exI [of _ c] exI [of _ "simulator_init p"]) (simp only: f flag_bits; simp)
qed

theorem main_starts_machine_witness:
  "\<exists>c s. simulator_main ''arm_simulator'' (\<lambda>_. None) (\<lambda>n. max n 24) (\<lambda>_. 0) [(CHR ''g'', ''5000''), (CHR ''r'', ''''), (CHR ''d'', ''trace.c'')] =
      Some (Inr (c, s)) \<and>
    bit (trace_flags (trace_setup c)) 1 \<and> \<not> bit (trace_flags (trace_setup c)) 0 \<and> core_mode (arm (session s)) = SVC"
proof -
  have "list_all (accepted (\<lambda>_. None)) [(CHR ''g'', ''5000''), (CHR ''r'', ''''), (CHR ''d'', ''trace.c'')]"
    by (simp add: accepted_def)
  from main_starts_machine [OF this, of "\<lambda>n. max n 24" "''arm_simulator''" "\<lambda>_. 0"] show ?thesis
    by (fastforce simp: MAX_FILES_NUMBER_def sizeof_memory_data_def)
qed

section \<open>Mutual exclusion\<close>

definition gdb_inside :: "simulator \<Rightarrow> bool" where
  "gdb_inside s \<longleftrightarrow> gdb_at s = G_leaving \<or> (\<exists>b. gdb_at s = G_handling b)"

definition irq_inside :: "simulator \<Rightarrow> bool" where
  "irq_inside s \<longleftrightarrow> irq_at s = I_leaving \<or> (\<exists>e. irq_at s = I_handling e)"

text \<open>The lock names the thread that is inside.\<close>

definition lock_ok :: "simulator \<Rightarrow> bool" where
  "lock_ok s \<longleftrightarrow> (gdb_inside s \<longleftrightarrow> lock s = Some Gdb_thread) \<and> (irq_inside s \<longleftrightarrow> lock s = Some Irq_thread)"

lemma step_lock_ok: "sim_step sends th s t \<Longrightarrow> lock_ok s \<Longrightarrow> lock_ok t"
  by (induction rule: sim_step.induct) (auto simp: lock_ok_def gdb_inside_def irq_inside_def)

lemma runs_lock_ok: "sim_runs sends s t \<Longrightarrow> lock_ok s \<Longrightarrow> lock_ok t"
  by (induction rule: sim_runs.induct) (auto dest: step_lock_ok)

lemma lock_ok_init [simp]: "lock_ok (simulator_init p)"
  by (simp add: lock_ok_def simulator_init_def gdb_inside_def irq_inside_def)

text \<open>
  C21. In every run of the two threads at most one is between its lock and its unlock, and no
  step of the interrupt thread touches the machine while a command is handled.
\<close>

theorem threads_exclude_each_other:
  assumes "sim_runs sends (simulator_init p) s"
  shows "\<not> (gdb_inside s \<and> irq_inside s) \<and>
    (gdb_inside s \<and> sim_step sends Irq_thread s t \<longrightarrow> session t = session s)"
proof -
  have l: "lock_ok s" using runs_lock_ok [OF assms] by simp
  moreover have "session t = session s" if "gdb_inside s" "sim_step sends Irq_thread s t"
  proof -
    have "\<not> irq_inside s" using l that(1) by (auto simp: lock_ok_def)
    with that(2) show ?thesis by (auto elim!: irq_stepE simp: irq_inside_def)
  qed
  ultimately show ?thesis by (auto simp: lock_ok_def)
qed

text \<open>An interrupt is delivered while a packet waits for the lock.\<close>

definition irq_first :: simulator where
  "irq_first = (simulator_init example_core)\<lparr>lock := Some Irq_thread, irq_at := I_handling 6\<rparr>"

lemma runs_irq_first: "sim_runs sends (simulator_init example_core) irq_first"
proof -
  let ?s = "simulator_init example_core"
  have i: "alive ?s" "irq_at ?s = I_ready" "lock ?s = None" by (simp_all add: simulator_init_def)
  have "sim_step sends Irq_thread ?s (?s\<lparr>irq_at := I_waiting 6\<rparr>)" by (rule interrupt) (rule i)+
  moreover have "sim_step sends Irq_thread (?s\<lparr>irq_at := I_waiting 6\<rparr>)
      (?s\<lparr>irq_at := I_waiting 6, lock := Some Irq_thread, irq_at := I_handling 6\<rparr>)"
    by (rule irq_lock) (use i in simp_all)
  ultimately show ?thesis
    using sim_runs.more [OF sim_runs.more [OF sim_runs.start]] by (fastforce simp: irq_first_def)
qed

theorem threads_exclude_each_other_witness:
  "irq_inside irq_first \<and> \<not> gdb_inside irq_first"
  using threads_exclude_each_other [OF runs_irq_first] by (auto simp: irq_inside_def irq_first_def)

section \<open>Interrupts, and how the machine becomes safe\<close>

fun exceptions :: "u8 list \<Rightarrow> arm_core \<Rightarrow> arm_core option" where
  "exceptions [] p = Some p"
| "exceptions (e # es) p = arm_exception e p \<bind> exceptions es"

lemma exceptions_append: "exceptions (es @ fs) p = exceptions es p \<bind> exceptions fs"
  by (induction es arbitrary: p) (auto split: bind_splits)

lemma exceptions_safe: "safe_core p \<Longrightarrow> \<exists>q. exceptions es p = Some q \<and> safe_core q"
proof (induction es arbitrary: p)
  case (Cons e es)
  from safe_exception [OF Cons.prems, of e] obtain r where "arm_exception e p = Some r" "safe_core r"
    by (auto simp: returns_iff)
  with Cons.IH show ?case by simp
qed simp

lemma exceptions_ok:
  "ok_core p \<Longrightarrow> \<exists>q. exceptions es p = Some q \<and> ok_core q \<and> (\<forall>i \<ge> 33. saved_ok i p \<longrightarrow> saved_ok i q) \<and>
    (\<forall>e \<in> set es. \<forall>m. exception_mode e = Some m \<and> e \<noteq> RESET \<longrightarrow> saved_ok (saved_slot m) q)"
proof (induction es arbitrary: p)
  case (Cons e es)
  from exception_from_ok [OF Cons.prems, of e] obtain r where r: "arm_exception e p = Some r" "ok_core r"
    "\<forall>i \<ge> 33. saved_ok i p \<longrightarrow> saved_ok i r"
    "\<forall>m. exception_mode e = Some m \<and> e \<noteq> RESET \<longrightarrow> saved_ok (saved_slot m) r"
    by (auto simp: returns_iff)
  from Cons.IH [OF r(2)] obtain q where q: "exceptions es r = Some q" "ok_core q"
    "\<forall>i \<ge> 33. saved_ok i r \<longrightarrow> saved_ok i q"
    "\<forall>e \<in> set es. \<forall>m. exception_mode e = Some m \<and> e \<noteq> RESET \<longrightarrow> saved_ok (saved_slot m) q"
    by blast
  have "33 \<le> saved_slot m" if "exception_mode e = Some m" for m
    using valid_exception_mode [OF that] getRegister_in_SPSR_range [of m] by auto
  then show ?case using r q by auto
qed simp

text \<open>One exception for each mode with a saved status register.\<close>

definition fills_saved :: "u8 list \<Rightarrow> bool" where
  "fills_saved es \<longleftrightarrow>
     {UNDEFINED_INSTRUCTION, SOFTWARE_INTERRUPT, PREFETCH_ABORT, INTERRUPT, FAST_INTERRUPT} \<subseteq> set es"

lemma exceptions_make_safe:
  assumes "ok_core p" "fills_saved es"
  shows "\<exists>q. exceptions es p = Some q \<and> safe_core q"
proof -
  obtain q where q: "exceptions es p = Some q" "ok_core q"
    "\<forall>e \<in> set es. \<forall>m. exception_mode e = Some m \<and> e \<noteq> RESET \<longrightarrow> saved_ok (saved_slot m) q"
    using exceptions_ok [OF assms(1), of es] by blast
  have m: "exception_mode UNDEFINED_INSTRUCTION = Some UND" "exception_mode SOFTWARE_INTERRUPT = Some SVC"
    "exception_mode PREFETCH_ABORT = Some ABT" "exception_mode INTERRUPT = Some IRQ"
    "exception_mode FAST_INTERRUPT = Some FIQ" by code_simp+
  have n: "UNDEFINED_INSTRUCTION \<noteq> RESET" "SOFTWARE_INTERRUPT \<noteq> RESET" "PREFETCH_ABORT \<noteq> RESET"
    "INTERRUPT \<noteq> RESET" "FAST_INTERRUPT \<noteq> RESET" by code_simp+
  have slot: "saved_slot SVC = 33" "saved_slot ABT = 34" "saved_slot UND = 35" "saved_slot IRQ = 36"
    "saved_slot FIQ = 37" by code_simp+
  have "saved_ok 33 q" "saved_ok 34 q" "saved_ok 35 q" "saved_ok 36 q" "saved_ok 37 q"
    using q(3) assms(2) m n unfolding fills_saved_def by (metis insert_subset slot)+
  moreover have "{33..37} = {33, 34, 35, 36, 37 :: nat}" by auto
  ultimately have "banked_ok q" unfolding banked_ok_def saved_ok_def by simp
  with q show ?thesis by (auto simp: safe_core_def)
qed

text \<open>What the thread of the interrupts does with a byte, and with several, when it finds the lock free.\<close>

abbreviation irq_steps :: "(string \<Rightarrow> bool) \<Rightarrow> simulator \<Rightarrow> simulator \<Rightarrow> bool" where
  "irq_steps sends \<equiv> (sim_step sends Irq_thread)\<^sup>*\<^sup>*"

lemma irq_steps_exception:
  assumes "alive s" "irq_at s = I_ready" "lock s = None" "arm_exception e (arm (session s)) = Some p"
  shows "irq_steps sends s (s\<lparr>session := (session s)\<lparr>arm := p\<rparr>\<rparr>)"
proof -
  let ?a = "s\<lparr>irq_at := I_waiting e\<rparr>"
  let ?b = "?a\<lparr>lock := Some Irq_thread, irq_at := I_handling e\<rparr>"
  let ?c = "?b\<lparr>session := (session ?b)\<lparr>arm := p\<rparr>, irq_at := I_leaving\<rparr>"
  have 1: "sim_step sends Irq_thread s ?a" using assms(1,2) by (rule interrupt)
  have 2: "sim_step sends Irq_thread ?a ?b" using assms(1,3) by (intro irq_lock) simp_all
  have 3: "sim_step sends Irq_thread ?b ?c" using assms(1,4) by (intro raise) simp_all
  have 4: "sim_step sends Irq_thread ?c (?c\<lparr>lock := None, irq_at := I_ready\<rparr>)"
    using assms(1) by (intro irq_unlock) simp_all
  have e: "?c\<lparr>lock := None, irq_at := I_ready\<rparr> = s\<lparr>session := (session s)\<lparr>arm := p\<rparr>\<rparr>"
    using assms(2,3) by simp
  note step = rtranclp.rtrancl_into_rtrancl [where r = "sim_step sends Irq_thread" and a = s]
  show ?thesis unfolding e [symmetric] by (rule step [OF step [OF step [OF step [OF rtranclp.rtrancl_refl 1] 2] 3] 4])
qed

lemma irq_steps_exceptions:
  assumes "alive s" "irq_at s = I_ready" "lock s = None" "exceptions es (arm (session s)) = Some p"
  shows "irq_steps sends s (s\<lparr>session := (session s)\<lparr>arm := p\<rparr>\<rparr>)"
  using assms
proof (induction es arbitrary: s)
  case Nil
  have "s\<lparr>session := (session s)\<lparr>arm := p\<rparr>\<rparr> = s" using Nil(4) by (cases s; cases "session s") simp
  then show ?case by simp
next
  case (Cons e es)
  then obtain r where r: "arm_exception e (arm (session s)) = Some r" "exceptions es r = Some p"
    by (auto simp: bind_eq_Some_conv)
  let ?t = "s\<lparr>session := (session s)\<lparr>arm := r\<rparr>\<rparr>"
  have "irq_steps sends ?t (?t\<lparr>session := (session ?t)\<lparr>arm := p\<rparr>\<rparr>)" using Cons.prems r(2) by (intro Cons.IH) simp_all
  moreover have "irq_steps sends s ?t" using Cons.prems r(1) by (intro irq_steps_exception) simp_all
  ultimately show ?case using rtranclp_trans by fastforce
qed

lemma irq_steps_runs: "irq_steps sends s t \<Longrightarrow> sim_runs sends s t"
  by (induction rule: rtranclp.induct) (auto intro: sim_runs.intros)

lemma machine_becomes_safe:
  assumes "ok_core p" "fills_saved es"
  shows "\<exists>q. exceptions es p = Some q \<and> safe_core q \<and>
    irq_steps sends (simulator_init p) ((simulator_init p)\<lparr>session := (session (simulator_init p))\<lparr>arm := q\<rparr>\<rparr>)"
proof -
  obtain q where q: "exceptions es p = Some q" "safe_core q" using exceptions_make_safe [OF assms] by blast
  have "alive (simulator_init p)" "irq_at (simulator_init p) = I_ready" "lock (simulator_init p) = None"
    "arm (session (simulator_init p)) = p" by (simp_all add: simulator_init_def gdb_init_data_def)
  with irq_steps_exceptions [of "simulator_init p" es q] q show ?thesis by auto
qed


section \<open>Safety\<close>

text \<open>The commands on their way to a handler do not write the status register.\<close>

definition harmless :: "simulator \<Rightarrow> bool" where
  "harmless s \<longleftrightarrow> (\<forall>b. gdb_at s = G_waiting b \<or> gdb_at s = G_handling b \<longrightarrow> b ! 0 \<noteq> CHR ''G'')"

lemma command_buffer_head: "take 1 (payload pk) \<noteq> ''G'' \<Longrightarrow> command_buffer pk ! 0 \<noteq> CHR ''G''"
  by (cases "payload pk") (auto simp: command_buffer_def NUL_def)

lemma sends_arm:
  "gdb_require_retransmission g = Some (st, h) \<Longrightarrow> arm h = arm g"
  "gdb_transmit_packet g = Some (st, h) \<Longrightarrow> arm h = arm g"
  "gdb_send_ack g = Some (st, h) \<Longrightarrow> arm h = arm g"
  "and_then (gdb_send_ack g) (gdb_send_data s) = Some (st, h) \<Longrightarrow> arm h = arm g"
  by (auto simp: gdb_transmit_packet_def write_all_def and_then_def bind_eq_Some_conv dest!: send_arm split: if_splits)

lemma step_harmless:
  assumes "sim_step sends th s t" "harmless s" "\<forall>pk. sends pk \<longrightarrow> take 1 (payload pk) \<noteq> ''G''"
  shows "harmless t"
  using assms by cases (auto simp: harmless_def command_buffer_head split: if_splits)

lemma runs_harmless:
  "sim_runs sends s t \<Longrightarrow> harmless s \<Longrightarrow> \<forall>pk. sends pk \<longrightarrow> take 1 (payload pk) \<noteq> ''G'' \<Longrightarrow> harmless t"
  by (induction rule: sim_runs.induct) (auto dest: step_harmless)

lemma step_safe_core:
  assumes "sim_step sends th s t" "safe_core (arm (session s))" "harmless s"
  shows "safe_core (arm (session t))"
  using assms
proof cases
  case (handle b h u js st g)
  have "b ! 0 \<noteq> CHR ''G''" using assms(3) handle(4) by (simp add: harmless_def)
  then show ?thesis
    using handler_keeps [OF handle(5) assms(2), of u js "drop 1 b"] handle by simp
next
  case (raise e p)
  then show ?thesis using safe_exception [OF assms(2), of e] by simp
qed (use assms in \<open>auto simp: sends_arm\<close>)

lemma runs_safe_core:
  "sim_runs sends s t \<Longrightarrow> safe_core (arm (session s)) \<Longrightarrow> harmless s \<Longrightarrow>
    \<forall>pk. sends pk \<longrightarrow> take 1 (payload pk) \<noteq> ''G'' \<Longrightarrow> safe_core (arm (session t))"
proof (induction rule: sim_runs.induct)
  case (more s t th v)
  then show ?case using step_safe_core [OF more.hyps(2)] runs_harmless [OF more.hyps(1)] by blast
qed

text \<open>
  C6. From any reachable state of the two threads in which the shared processor is safe (valid
  modes in all five saved status registers: not the machine main starts, whose saved status
  registers are null, but for instance that machine after an exception of every kind, see
  interrupts_make_machine_safe), every interleaving of packets, noise and interrupts of any
  number, without the command that writes all registers, keeps it safe: a step and any exception
  are defined.
\<close>

theorem simulator_stays_safe:
  assumes "sim_runs sends (simulator_init p) s" "safe_core (arm (session s))" "sim_runs sends s t"
    "\<forall>pk. sends pk \<longrightarrow> take 1 (payload pk) \<noteq> ''G''"
  shows "safe_core (arm (session t)) \<and>
    (\<forall>e. returns (arm_exception e (arm (session t))) safe_core) \<and> returns (arm_step u (arm (session t))) (\<lambda>r. True)"
proof -
  have "harmless (simulator_init p)" by (simp add: simulator_init_def harmless_def)
  then have "harmless s" using runs_harmless [OF assms(1) _ assms(4)] by blast
  then have "safe_core (arm (session t))" using runs_safe_core [OF assms(3,2) _ assms(4)] by blast
  then show ?thesis using safe_exception returns_mono [OF safe_step] by simp
qed

text \<open>The machine \<^verbatim>\<open>main\<close> starts, and an order of the exceptions that makes it safe.\<close>

definition main_core :: arm_core where
  "main_core = the (arm_create example_memory trace_init 0)"

definition one_of_each :: "u8 list" where
  "one_of_each = [UNDEFINED_INSTRUCTION, SOFTWARE_INTERRUPT, PREFETCH_ABORT, INTERRUPT, FAST_INTERRUPT]"

lemma main_core: "arm_create example_memory trace_init 0 = Some main_core" "ok_core main_core"
  using arm_create_ok [OF wf_example_memory, of trace_init 0] by (auto simp: main_core_def returns_iff)

lemma fills_one_of_each: "fills_saved one_of_each"
  by (simp add: fills_saved_def one_of_each_def)


theorem simulator_stays_safe_witness:
  "\<exists>s t. sim_runs (\<lambda>pk. pk = packet_of ''s'') (simulator_init main_core) s \<and> safe_core (arm (session s)) \<and>
    sim_step (\<lambda>pk. pk = packet_of ''s'') Irq_thread s t \<and> safe_core (arm (session t)) \<and>
    returns (arm_step (\<lambda>_. 0) (arm (session t))) (\<lambda>r. True)"
proof -
  let ?sends = "\<lambda>pk. pk = packet_of ''s''"
  obtain q where q: "safe_core q" "irq_steps ?sends (simulator_init main_core)
      ((simulator_init main_core)\<lparr>session := (session (simulator_init main_core))\<lparr>arm := q\<rparr>\<rparr>)"
    using machine_becomes_safe [OF main_core(2) fills_one_of_each] by blast
  let ?s = "(simulator_init main_core)\<lparr>session := (session (simulator_init main_core))\<lparr>arm := q\<rparr>\<rparr>"
  have r: "sim_runs ?sends (simulator_init main_core) ?s" using irq_steps_runs [OF q(2)] .
  have s: "safe_core (arm (session ?s))" "alive ?s" "irq_at ?s = I_ready"
    using q(1) by (simp_all add: simulator_init_def)
  have st: "sim_step ?sends Irq_thread ?s (?s\<lparr>irq_at := I_waiting 6\<rparr>)" using s(2,3) by (rule interrupt)
  have g: "\<forall>pk. ?sends pk \<longrightarrow> take 1 (payload pk) \<noteq> ''G''" by simp
  show ?thesis
    using simulator_stays_safe [OF r s(1) sim_runs.more [OF sim_runs.start st] g, of "\<lambda>_. 0"] r s(1) st by blast
qed

end
