(* ===== verification/Net.thy ===== *)
theory Net
  imports Rio Simulator
begin

text \<open>
  The sockets: the wrappers of \<^verbatim>\<open>csapp.c\<close>, its helpers for clients and servers, \<^verbatim>\<open>create_server\<close> and the two listeners
  of \<^verbatim>\<open>arm_simulator.c\<close>, and the connection of \<^verbatim>\<open>send_irq.c\<close>. The operating system is a parameter: what it answers
  to a call may depend on all the calls before.
\<close>

section \<open>Calls and their answers\<close>

datatype call =
    c_socket
  | c_setsockopt int
  | c_bind int u16
  | c_getsockname int
  | c_listen int int
  | c_accept int
  | c_connect int int u16  \<comment> \<open>the socket, the host and its port\<close>
  | c_gethostbyname string
  | c_write int u8
  | c_shutdown int
  | c_close int

type_synonym os = "call list \<Rightarrow> call \<Rightarrow> int"

text \<open>A process: what it ends with, and the calls made, the first one first.\<close>

type_synonym 'a process = "call list \<Rightarrow> 'a ending \<times> call list"

definition return_value :: "'a \<Rightarrow> 'a process" where
  "return_value x h = (Returns x, h)"

definition then_process :: "'a process \<Rightarrow> ('a \<Rightarrow> 'b process) \<Rightarrow> 'b process" where
  "then_process m f h = (case m h of (Exits n, h) \<Rightarrow> (Exits n, h) | (Returns x, h) \<Rightarrow> f x h)"

text \<open>A call whose answer is looked at by the caller; the wrappers below end the program with an error.\<close>

definition plain_call :: "os \<Rightarrow> call \<Rightarrow> int process" where
  "plain_call os c h = (Returns (os h c), h @ [c])"

definition dns_error :: "'a ending" where
  "dns_error = Exits 0"

definition Socket :: "os \<Rightarrow> int process" where
  "Socket os = then_process (plain_call os c_socket)
     (\<lambda>rc h. (if rc < 0 then unix_error else Returns rc, h))"

definition Setsockopt :: "os \<Rightarrow> int \<Rightarrow> unit process" where
  "Setsockopt os s = then_process (plain_call os (c_setsockopt s))
     (\<lambda>rc h. (if rc < 0 then unix_error else Returns (), h))"

definition Bind :: "os \<Rightarrow> int \<Rightarrow> u16 \<Rightarrow> unit process" where
  "Bind os s port = then_process (plain_call os (c_bind s port))
     (\<lambda>rc h. (if rc < 0 then unix_error else Returns (), h))"

definition Listen :: "os \<Rightarrow> int \<Rightarrow> int \<Rightarrow> unit process" where
  "Listen os s backlog = then_process (plain_call os (c_listen s backlog))
     (\<lambda>rc h. (if rc < 0 then unix_error else Returns (), h))"

definition Accept :: "os \<Rightarrow> int \<Rightarrow> int process" where
  "Accept os s = then_process (plain_call os (c_accept s))
     (\<lambda>rc h. (if rc < 0 then unix_error else Returns rc, h))"

definition Connect :: "os \<Rightarrow> int \<Rightarrow> int \<Rightarrow> u16 \<Rightarrow> unit process" where
  "Connect os s host port = then_process (plain_call os (c_connect s host port))
     (\<lambda>rc h. (if rc < 0 then unix_error else Returns (), h))"

text \<open>A host is a number; a null pointer is a negative one.\<close>

definition Gethostbyname :: "os \<Rightarrow> string \<Rightarrow> int process" where
  "Gethostbyname os name = then_process (plain_call os (c_gethostbyname name))
     (\<lambda>p h. (if p < 0 then dns_error else Returns p, h))"

definition Write_byte :: "os \<Rightarrow> int \<Rightarrow> u8 \<Rightarrow> int process" where
  "Write_byte os s b = then_process (plain_call os (c_write s b))
     (\<lambda>rc h. (if rc < 0 then unix_error else Returns rc, h))"

section \<open>Servers\<close>

text \<open>The port is the one asked for, or the one the system has chosen; the answer of \<^verbatim>\<open>getsockname\<close> is not tested.\<close>

definition create_server :: "os \<Rightarrow> u16 \<Rightarrow> (int \<times> u16) process" where
  "create_server os port =
     then_process (Socket os) (\<lambda>socket.
     then_process (Setsockopt os socket) (\<lambda>_.
     then_process (Bind os socket port) (\<lambda>_.
     then_process (plain_call os (c_getsockname socket)) (\<lambda>p.
     let port = (if p < 0 then port else word_of_int p) in
     then_process (Listen os socket 1) (\<lambda>_.
     return_value (socket, port))))))"

definition LISTENQ :: int where "LISTENQ = 1024"

text \<open>The helpers of the library answer an error by a negative number, without closing the socket.\<close>

definition open_listenfd :: "os \<Rightarrow> int \<Rightarrow> int process" where
  "open_listenfd os port =
     then_process (plain_call os c_socket) (\<lambda>listenfd.
     if listenfd < 0 then return_value (- 1) else
     then_process (plain_call os (c_setsockopt listenfd)) (\<lambda>rc.
     if rc < 0 then return_value (- 1) else
     then_process (plain_call os (c_bind listenfd (word_of_int port))) (\<lambda>rc.
     if rc < 0 then return_value (- 1) else
     then_process (plain_call os (c_listen listenfd LISTENQ)) (\<lambda>rc.
     if rc < 0 then return_value (- 1) else return_value listenfd))))"

definition open_clientfd :: "os \<Rightarrow> string \<Rightarrow> int \<Rightarrow> int process" where
  "open_clientfd os hostname port =
     then_process (plain_call os c_socket) (\<lambda>clientfd.
     if clientfd < 0 then return_value (- 1) else
     then_process (plain_call os (c_gethostbyname hostname)) (\<lambda>hp.
     if hp < 0 then return_value (- 2) else
     then_process (plain_call os (c_connect clientfd hp (word_of_int port))) (\<lambda>rc.
     if rc < 0 then return_value (- 1) else return_value clientfd)))"

definition Open_clientfd :: "os \<Rightarrow> string \<Rightarrow> int \<Rightarrow> int process" where
  "Open_clientfd os hostname port = then_process (open_clientfd os hostname port)
     (\<lambda>rc h. (if rc < 0 then if rc = - 1 then unix_error else dns_error else Returns rc, h))"

definition Open_listenfd :: "os \<Rightarrow> int \<Rightarrow> int process" where
  "Open_listenfd os port = then_process (open_listenfd os port)
     (\<lambda>rc h. (if rc < 0 then unix_error else Returns rc, h))"

text \<open>
  The thread that serves gdb, up to the end of the scanner, and after it. \<open>scanner\<close> is what becomes of the
  connection: \<open>generated_gdb_scanner\<close> on what it delivers.
\<close>

definition gdb_listener :: "os \<Rightarrow> u16 \<Rightarrow> (int \<Rightarrow> 'a) \<Rightarrow> (u16 \<times> 'a) process" where
  "gdb_listener os port scanner =
     then_process (create_server os port) (\<lambda>(socket, port).
     then_process (Accept os socket) (\<lambda>connection.
     let result = scanner connection in
     then_process (plain_call os (c_shutdown connection)) (\<lambda>_.
     then_process (plain_call os (c_close socket)) (\<lambda>_.
     return_value (port, result)))))"

text \<open>
  The inner loop of the other thread: it raises the exception of every byte a connection delivers, until
  its end. The lock it takes around \<^verbatim>\<open>arm_exception\<close> is the subject of \<open>sim_step\<close>.
\<close>

partial_function (option) irq_loop :: "sys \<Rightarrow> arm_core \<Rightarrow> (unit ending \<times> sys \<times> arm_core) option" where
  "irq_loop s p = do {
     (r, s) \<leftarrow> Read 1 s;
     case r of
       Exits n \<Rightarrow> Some (Exits n, s, p)
     | Returns (rc, d) \<Rightarrow>
         if rc > 0 then do {
           irq \<leftarrow> arr_get d 0;
           p \<leftarrow> arm_exception (of_char irq) p;
           irq_loop s p
         } else Some (Returns (), s, p) }"

text \<open>The outer loop, over the connections that are accepted; it waits for ever for the next one.\<close>

fun irq_connections :: "incoming list list \<Rightarrow> arm_core \<Rightarrow> (int option \<times> arm_core) option" where
  "irq_connections [] p = Some (None, p)"
| "irq_connections (c # cs) p = do {
     (r, _, p) \<leftarrow> irq_loop \<lparr>errno = 0, incoming = c, outgoing = [], written = ''''\<rparr> p;
     case r of Exits n \<Rightarrow> Some (Some n, p) | Returns _ \<Rightarrow> irq_connections cs p }"

section \<open>The sender of interrupts\<close>

text \<open>\<^verbatim>\<open>main\<close> of \<^verbatim>\<open>send_irq.c\<close> from the first call on, when \<open>send_irq\<close> has found the number to write.\<close>

definition send_irq_main :: "os \<Rightarrow> string list \<Rightarrow> (unit process) option" where
  "send_irq_main os argv = do {
     r \<leftarrow> send_irq argv;
     case r of
       Usage message \<Rightarrow> Some (\<lambda>h. (Exits 1, h))
     | Unknown message \<Rightarrow> Some (\<lambda>h. (Exits 2, h))
     | Written (name, port, bytes) \<Rightarrow> do {
         irq \<leftarrow> arr_get bytes 0;
         Some (
           then_process (Socket os) (\<lambda>sock.
           then_process (Setsockopt os sock) (\<lambda>_.
           then_process (Gethostbyname os name) (\<lambda>host.
           then_process (Connect os sock host port) (\<lambda>_.
           then_process (Write_byte os sock irq) (\<lambda>_.
           then_process (plain_call os (c_shutdown sock)) (\<lambda>_.
           then_process (plain_call os (c_close sock)) (\<lambda>_.
           return_value ())))))))) } }"

section \<open>Starting a server\<close>

lemmas process_defs = then_process_def plain_call_def return_value_def Socket_def Setsockopt_def Bind_def Listen_def
  Accept_def Connect_def Gethostbyname_def Write_byte_def unix_error_def dns_error_def

definition server_calls :: "int \<Rightarrow> u16 \<Rightarrow> call list" where
  "server_calls s port = [c_socket, c_setsockopt s, c_bind s port, c_getsockname s, c_listen s 1]"

text \<open>
  Either every call succeeds, and the server listens on the socket with room for one client, or the
  first that fails is the last one made, and the program ends with the status 0.
\<close>

theorem create_server_calls:
  "case create_server os port [] of
      (Returns (s, q), h) \<Rightarrow> s = os [] c_socket \<and> h = server_calls s port \<and>
        (\<forall>i \<in> {0, 1, 2, 4}. 0 \<le> os (take i h) (h ! i))
    | (Exits n, h) \<Rightarrow> n = 0 \<and> (\<exists>i \<in> {0, 1, 2, 4}. h = take (Suc i) (server_calls (os [] c_socket) port) \<and>
        os (take i h) (h ! i) < 0)"
  by (simp add: create_server_def process_defs server_calls_def Let_def not_less split: if_split)

section \<open>The interrupts of a connection\<close>

lemma irq_loop_char:
  assumes "incoming s = Data (c # d) # is"
  shows "irq_loop s p = arm_exception (of_char c) p \<bind> irq_loop (s\<lparr>incoming := if d = '''' then is else Data d # is\<rparr>)"
  using assms by (subst irq_loop.simps) (cases d; simp add: Read_def sys_read_def)

text \<open>The bytes of a piece are handled one after the other.\<close>

lemma irq_loop_piece:
  assumes "incoming s = Data d # is" "d \<noteq> ''''"
  shows "irq_loop s p = exceptions (map of_char d) p \<bind> irq_loop (s\<lparr>incoming := is\<rparr>)"
  using assms
proof (induction d arbitrary: s p)
  case (Cons c d)
  show ?case
  proof (cases "d = ''''")
    case False
    have "irq_loop (s\<lparr>incoming := Data d # is\<rparr>) q =
        exceptions (map of_char d) q \<bind> irq_loop (s\<lparr>incoming := is\<rparr>)" for q
      using Cons.IH [of "s\<lparr>incoming := Data d # is\<rparr>"] False by simp
    with False show ?thesis using irq_loop_char [OF Cons.prems(1)] by (simp split: bind_splits)
  qed (use irq_loop_char [OF Cons.prems(1)] in simp)
qed simp

fun reading_ends :: "incoming \<Rightarrow> bool" where
  "reading_ends (Data d) = (d = '''')"
| "reading_ends (Read_fails e) = True"

lemma irq_loop_connection:
  assumes "'''' \<notin> set ps" "incoming s = map Data ps @ l # rest" "reading_ends l"
  shows "irq_loop s p = map_option
    (\<lambda>q. case l of Data d \<Rightarrow> (Returns (), s\<lparr>incoming := rest\<rparr>, q) | Read_fails e \<Rightarrow> (Exits 0, s\<lparr>incoming := rest, errno := e\<rparr>, q))
    (exceptions (map of_char (concat ps)) p)"
  using assms(1,2)
proof (induction ps arbitrary: s p)
  case Nil
  then show ?case using assms(3)
    by (subst irq_loop.simps) (auto simp: Read_def sys_read_def unix_error_def split: incoming.splits)
next
  case (Cons d ps)
  then have "irq_loop s p = exceptions (map of_char d) p \<bind> irq_loop (s\<lparr>incoming := map Data ps @ l # rest\<rparr>)"
    by (intro irq_loop_piece) auto
  with Cons show ?case
    by (cases "exceptions (map of_char d) p"; cases l) (auto simp: exceptions_append)
qed

definition connection :: "string list \<Rightarrow> incoming list" where
  "connection ps = map Data ps @ [Data '''']"

lemma irq_connections_exceptions:
  assumes "\<forall>ps \<in> set cs. '''' \<notin> set ps"
  shows "irq_connections (map connection cs) p =
    map_option (\<lambda>q. (None, q)) (exceptions (map of_char (concat (concat cs))) p)"
  using assms
proof (induction cs arbitrary: p)
  case (Cons ps cs)
  let ?s = "\<lparr>errno = 0, incoming = connection ps, outgoing = [], written = ''''\<rparr>"
  have "irq_loop ?s p = map_option (\<lambda>q. (Returns (), ?s\<lparr>incoming := []\<rparr>, q)) (exceptions (map of_char (concat ps)) p)"
    using irq_loop_connection [of ps ?s "Data ''''" "[]" p] Cons.prems by (simp add: connection_def)
  with Cons show ?case
    by (cases "exceptions (map of_char (concat ps)) p") (auto simp: exceptions_append)
qed simp

text \<open>
  C20. The thread of the interrupts raises the exception of every byte that its connections
  deliver, once and in order, however the bytes are cut into non-empty reads and into
  connections that end without an error; from any state of the running simulator with a valid
  mode, the thread ready and the lock free, these are steps of this thread alone; they leave a
  processor with a valid mode, and a safe one if it was safe.
\<close>

theorem irq_bytes_raise_exceptions:
  assumes "\<forall>ps \<in> set cs. '''' \<notin> set ps" "ok_core (arm (session s))" "alive s" "irq_at s = I_ready" "lock s = None"
  shows "\<exists>q. irq_connections (map connection cs) (arm (session s)) = Some (None, q) \<and>
    exceptions (map of_char (concat (concat cs))) (arm (session s)) = Some q \<and>
    ok_core q \<and> (safe_core (arm (session s)) \<longrightarrow> safe_core q) \<and>
    (sim_step sends Irq_thread)\<^sup>*\<^sup>* s (s\<lparr>session := (session s)\<lparr>arm := q\<rparr>\<rparr>)"
proof -
  let ?es = "map of_char (concat (concat cs))"
  obtain q where q: "exceptions ?es (arm (session s)) = Some q" "ok_core q"
    using exceptions_ok [OF assms(2), of ?es] by blast
  moreover have "safe_core q" if "safe_core (arm (session s))"
    using exceptions_safe [OF that, of ?es] q(1) by simp
  ultimately show ?thesis
    using irq_connections_exceptions [OF assms(1)] irq_steps_exceptions [OF assms(3-5) q(1)] by simp
qed

theorem irq_bytes_raise_exceptions_witness:
  "\<exists>q. irq_connections (map connection [[[CHR 0x06], [CHR 0x07]], [], [[CHR 0x06, CHR 0x01]]]) main_core = Some (None, q) \<and>
    exceptions [6, 7, 6, 1] main_core = Some q \<and> ok_core q \<and>
    (sim_step (\<lambda>_. True) Irq_thread)\<^sup>*\<^sup>* (simulator_init main_core)
      ((simulator_init main_core)\<lparr>session := (session (simulator_init main_core))\<lparr>arm := q\<rparr>\<rparr>)"
  using irq_bytes_raise_exceptions [of "[[[CHR 0x06], [CHR 0x07]], [], [[CHR 0x06, CHR 0x01]]]" "simulator_init main_core" "\<lambda>_. True"]
    main_core(2)
  by (auto simp: simulator_init_def gdb_init_data_def simp del: irq_connections.simps exceptions.simps)

text \<open>A read that fails, an interrupted one included, ends the whole simulator with the status 0.\<close>

theorem irq_read_failure_exits:
  assumes "'''' \<notin> set ps" "exceptions (map of_char (concat ps)) p = Some q"
  shows "irq_connections ((map Data ps @ [Read_fails e]) # cs) p = Some (Some 0, q)"
  using irq_loop_connection [OF assms(1), of _ "Read_fails e" "[]"] assms(2) by simp

section \<open>The calls of a client\<close>

text \<open>With a system that answers every call, the sender of an interrupt writes its byte and nothing else.\<close>

theorem send_irq_calls:
  assumes "send_irq argv = Some (Written (name, port, [e]))" "\<forall>h c. 0 \<le> os h c"
  shows "\<exists>m. send_irq_main os argv = Some m \<and>
    m [] = (Returns (),
      let s = os [] c_socket; host = os [c_socket, c_setsockopt s] (c_gethostbyname name) in
      [c_socket, c_setsockopt s, c_gethostbyname name, c_connect s host port, c_write s e, c_shutdown s, c_close s])"
  using assms by (simp add: send_irq_main_def process_defs not_less [symmetric] Let_def)

text \<open>The helper for clients leaves its socket open when it fails after the socket has been made.\<close>

theorem open_clientfd_leaks:
  assumes "open_clientfd os hostname port [] = (Returns r, h)" "r < 0" "0 \<le> os [] c_socket"
  shows "c_socket \<in> set h" "c_close s \<notin> set h"
  using assms by (auto simp: open_clientfd_def process_defs split: if_splits)

end
