(* ===== verification/Csapp.thy ===== *)
theory Csapp
  imports Rio Printf
begin

text \<open>
  The other wrappers of \<^verbatim>\<open>csapp.c\<close>: processes, signals, files, memory, streams, threads and semaphores. The
  C library is a parameter, what it answers to a request in a world \<open>'w\<close>, which holds all it changes.
  Pointers, identifiers and handlers are numbers, the null pointer is 0.
\<close>

section \<open>The library\<close>

type_synonym pointer = int

datatype request =
    r_fork
  | r_execve string "string list" "string list"
  | r_wait pointer
  | r_waitpid int pointer int
  | r_kill int int
  | r_pause
  | r_sleep u32
  | r_alarm u32
  | r_setpgid int int
  | r_getpgrp
  | r_sigaction int pointer int  \<comment> \<open>the handler and the flags, with an empty mask\<close>
  | r_sigprocmask int pointer pointer
  | r_sigemptyset pointer
  | r_sigfillset pointer
  | r_sigaddset pointer int
  | r_sigdelset pointer int
  | r_sigismember pointer int
  | r_open string int int
  | r_lseek int int int
  | r_close int
  | r_select int pointer pointer pointer pointer
  | r_dup2 int int
  | r_stat string pointer
  | r_fstat int pointer
  | r_mmap pointer nat int int int int
  | r_munmap pointer nat
  | r_malloc nat
  | r_realloc pointer nat
  | r_calloc nat nat
  | r_free pointer
  | r_fclose pointer
  | r_fdopen int string
  | r_fgets pointer int pointer
  | r_ferror pointer
  | r_fopen string string
  | r_fputs string pointer
  | r_fread pointer nat nat pointer
  | r_fwrite pointer nat nat pointer
  | r_gethostbyaddr string int int
  | r_pthread_create pointer pointer pointer pointer
  | r_pthread_cancel int
  | r_pthread_join int pointer
  | r_pthread_detach int
  | r_pthread_exit pointer
  | r_pthread_self
  | r_pthread_once pointer pointer
  | r_sem_init pointer int u32
  | r_sem_wait pointer
  | r_sem_post pointer

text \<open>\<open>old_handler\<close>: what \<^verbatim>\<open>sigaction\<close> has stored in \<^verbatim>\<open>old_action.sa_handler\<close>.\<close>

record 'w libc =
  answer :: "request \<Rightarrow> 'w \<Rightarrow> int \<times> 'w"
  errno_of :: "'w \<Rightarrow> int"
  h_errno_of :: "'w \<Rightarrow> int"
  old_handler :: "'w \<Rightarrow> pointer"
  strerror :: "int \<Rightarrow> string"

record 'w program =
  world :: 'w
  stderr :: string

type_synonym ('w, 'a) run = "'w program \<Rightarrow> 'a ending \<times> 'w program"

definition ask :: "'w libc \<Rightarrow> request \<Rightarrow> ('w, int) run" where
  "ask l r p = (let (rc, w) = answer l r (world p) in (Returns rc, p\<lparr>world := w\<rparr>))"

definition result :: "'a \<Rightarrow> ('w, 'a) run" where
  "result x p = (Returns x, p)"

definition and_then :: "('w, 'a) run \<Rightarrow> ('a \<Rightarrow> ('w, 'b) run) \<Rightarrow> ('w, 'b) run" where
  "and_then m f p = (case m p of (Exits n, p) \<Rightarrow> (Exits n, p) | (Returns x, p) \<Rightarrow> f x p)"

definition void :: "('w, 'a) run \<Rightarrow> ('w, unit) run" where
  "void m = and_then m (\<lambda>_. result ())"

section \<open>Errors\<close>

definition new_line :: string where
  "new_line = [CHR 0x0A]"

text \<open>All of them end the program with the status 0.\<close>

definition unix_error_message :: "'w libc \<Rightarrow> string \<Rightarrow> ('w, 'a) run" where
  "unix_error_message l msg p =
     (Exits 0, p\<lparr>stderr := stderr p @ msg @ '': '' @ strerror l (errno_of l (world p)) @ new_line\<rparr>)"

definition posix_error :: "'w libc \<Rightarrow> int \<Rightarrow> string \<Rightarrow> ('w, 'a) run" where
  "posix_error l code msg p = (Exits 0, p\<lparr>stderr := stderr p @ msg @ '': '' @ strerror l code @ new_line\<rparr>)"

definition dns_error_message :: "'w libc \<Rightarrow> string \<Rightarrow> ('w, 'a) run" where
  "dns_error_message l msg p =
     (Exits 0, p\<lparr>stderr := stderr p @ msg @ '': DNS error '' @ fmt_d (h_errno_of l (world p)) @ new_line\<rparr>)"

definition app_error :: "string \<Rightarrow> ('w, 'a) run" where
  "app_error msg p = (Exits 0, p\<lparr>stderr := stderr p @ msg @ new_line\<rparr>)"

text \<open>The tests of the wrappers: a negative answer, a null pointer, a code of \<^verbatim>\<open>pthread\<close>.\<close>

definition not_negative :: "'w libc \<Rightarrow> string \<Rightarrow> ('w, int) run \<Rightarrow> ('w, int) run" where
  "not_negative l msg m = and_then m (\<lambda>rc. if rc < 0 then unix_error_message l msg else result rc)"

definition not_null :: "'w libc \<Rightarrow> string \<Rightarrow> ('w, int) run \<Rightarrow> ('w, int) run" where
  "not_null l msg m = and_then m (\<lambda>p. if p = 0 then unix_error_message l msg else result p)"

definition code_zero :: "'w libc \<Rightarrow> string \<Rightarrow> ('w, int) run \<Rightarrow> ('w, unit) run" where
  "code_zero l msg m = and_then m (\<lambda>rc. if rc \<noteq> 0 then posix_error l rc msg else result ())"

section \<open>Processes\<close>

definition Fork :: "'w libc \<Rightarrow> ('w, int) run" where
  "Fork l = not_negative l ''Fork error'' (ask l r_fork)"

definition Execve :: "'w libc \<Rightarrow> string \<Rightarrow> string list \<Rightarrow> string list \<Rightarrow> ('w, unit) run" where
  "Execve l filename argv envp = void (not_negative l ''Execve error'' (ask l (r_execve filename argv envp)))"

definition Wait :: "'w libc \<Rightarrow> pointer \<Rightarrow> ('w, int) run" where
  "Wait l status = not_negative l ''Wait error'' (ask l (r_wait status))"

definition Waitpid :: "'w libc \<Rightarrow> int \<Rightarrow> pointer \<Rightarrow> int \<Rightarrow> ('w, int) run" where
  "Waitpid l pid iptr options = not_negative l ''Waitpid error'' (ask l (r_waitpid pid iptr options))"

definition Kill :: "'w libc \<Rightarrow> int \<Rightarrow> int \<Rightarrow> ('w, unit) run" where
  "Kill l pid signum = void (not_negative l ''Kill error'' (ask l (r_kill pid signum)))"

definition Pause :: "'w libc \<Rightarrow> ('w, unit) run" where
  "Pause l = void (ask l r_pause)"

text \<open>The answer is assigned to an unsigned variable before it is tested.\<close>

definition Sleep :: "'w libc \<Rightarrow> u32 \<Rightarrow> ('w, u32) run" where
  "Sleep l secs = and_then (ask l (r_sleep secs)) (\<lambda>n.
     let rc = word_of_int n in if rc < 0 then unix_error_message l ''Sleep error'' else result rc)"

definition Alarm :: "'w libc \<Rightarrow> u32 \<Rightarrow> ('w, u32) run" where
  "Alarm l seconds = and_then (ask l (r_alarm seconds)) (\<lambda>n. result (word_of_int n))"

definition Setpgid :: "'w libc \<Rightarrow> int \<Rightarrow> int \<Rightarrow> ('w, unit) run" where
  "Setpgid l pid pgid = void (not_negative l ''Setpgid error'' (ask l (r_setpgid pid pgid)))"

definition Getpgrp :: "'w libc \<Rightarrow> ('w, int) run" where
  "Getpgrp l = ask l r_getpgrp"

section \<open>Signals\<close>

definition SA_RESTART :: int where "SA_RESTART = 0x10000000"

definition Signal :: "'w libc \<Rightarrow> int \<Rightarrow> pointer \<Rightarrow> ('w, pointer) run" where
  "Signal l signum handler =
     and_then (not_negative l ''Signal error'' (ask l (r_sigaction signum handler SA_RESTART)))
       (\<lambda>_ p. (Returns (old_handler l (world p)), p))"

definition Sigprocmask :: "'w libc \<Rightarrow> int \<Rightarrow> pointer \<Rightarrow> pointer \<Rightarrow> ('w, unit) run" where
  "Sigprocmask l how sigs oldsigs = void (not_negative l ''Sigprocmask error'' (ask l (r_sigprocmask how sigs oldsigs)))"

definition Sigemptyset :: "'w libc \<Rightarrow> pointer \<Rightarrow> ('w, unit) run" where
  "Sigemptyset l sigs = void (not_negative l ''Sigemptyset error'' (ask l (r_sigemptyset sigs)))"

definition Sigfillset :: "'w libc \<Rightarrow> pointer \<Rightarrow> ('w, unit) run" where
  "Sigfillset l sigs = void (not_negative l ''Sigfillset error'' (ask l (r_sigfillset sigs)))"

definition Sigaddset :: "'w libc \<Rightarrow> pointer \<Rightarrow> int \<Rightarrow> ('w, unit) run" where
  "Sigaddset l sigs signum = void (not_negative l ''Sigaddset error'' (ask l (r_sigaddset sigs signum)))"

definition Sigdelset :: "'w libc \<Rightarrow> pointer \<Rightarrow> int \<Rightarrow> ('w, unit) run" where
  "Sigdelset l sigs signum = void (not_negative l ''Sigdelset error'' (ask l (r_sigdelset sigs signum)))"

definition Sigismember :: "'w libc \<Rightarrow> pointer \<Rightarrow> int \<Rightarrow> ('w, int) run" where
  "Sigismember l sigs signum = not_negative l ''Sigismember error'' (ask l (r_sigismember sigs signum))"

section \<open>Files\<close>

definition Open :: "'w libc \<Rightarrow> string \<Rightarrow> int \<Rightarrow> int \<Rightarrow> ('w, int) run" where
  "Open l pathname flags mode = not_negative l ''Open error'' (ask l (r_open pathname flags mode))"

definition Lseek :: "'w libc \<Rightarrow> int \<Rightarrow> int \<Rightarrow> int \<Rightarrow> ('w, int) run" where
  "Lseek l fildes off whence = not_negative l ''Lseek error'' (ask l (r_lseek fildes off whence))"

definition Close :: "'w libc \<Rightarrow> int \<Rightarrow> ('w, unit) run" where
  "Close l fd = void (not_negative l ''Close error'' (ask l (r_close fd)))"

definition Select :: "'w libc \<Rightarrow> int \<Rightarrow> pointer \<Rightarrow> pointer \<Rightarrow> pointer \<Rightarrow> pointer \<Rightarrow> ('w, int) run" where
  "Select l n readfds writefds exceptfds timeout =
     not_negative l ''Select error'' (ask l (r_select n readfds writefds exceptfds timeout))"

definition Dup2 :: "'w libc \<Rightarrow> int \<Rightarrow> int \<Rightarrow> ('w, int) run" where
  "Dup2 l fd1 fd2 = not_negative l ''Dup2 error'' (ask l (r_dup2 fd1 fd2))"

definition Stat :: "'w libc \<Rightarrow> string \<Rightarrow> pointer \<Rightarrow> ('w, unit) run" where
  "Stat l filename buf = void (not_negative l ''Stat error'' (ask l (r_stat filename buf)))"

definition Fstat :: "'w libc \<Rightarrow> int \<Rightarrow> pointer \<Rightarrow> ('w, unit) run" where
  "Fstat l fd buf = void (not_negative l ''Fstat error'' (ask l (r_fstat fd buf)))"

section \<open>Memory\<close>

definition Mmap :: "'w libc \<Rightarrow> pointer \<Rightarrow> nat \<Rightarrow> int \<Rightarrow> int \<Rightarrow> int \<Rightarrow> int \<Rightarrow> ('w, pointer) run" where
  "Mmap l addr len prot flags fd off = and_then (ask l (r_mmap addr len prot flags fd off)) (\<lambda>ptr.
     if ptr = - 1 then unix_error_message l ''mmap error'' else result ptr)"

definition Munmap :: "'w libc \<Rightarrow> pointer \<Rightarrow> nat \<Rightarrow> ('w, unit) run" where
  "Munmap l start len = void (not_negative l ''munmap error'' (ask l (r_munmap start len)))"

definition Malloc :: "'w libc \<Rightarrow> nat \<Rightarrow> ('w, pointer) run" where
  "Malloc l sz = not_null l ''Malloc error'' (ask l (r_malloc sz))"

definition Realloc :: "'w libc \<Rightarrow> pointer \<Rightarrow> nat \<Rightarrow> ('w, pointer) run" where
  "Realloc l ptr sz = not_null l ''Realloc error'' (ask l (r_realloc ptr sz))"

definition Calloc :: "'w libc \<Rightarrow> nat \<Rightarrow> nat \<Rightarrow> ('w, pointer) run" where
  "Calloc l nmemb sz = not_null l ''Calloc error'' (ask l (r_calloc nmemb sz))"

definition Free :: "'w libc \<Rightarrow> pointer \<Rightarrow> ('w, unit) run" where
  "Free l ptr = void (ask l (r_free ptr))"

section \<open>Streams\<close>

definition Fclose :: "'w libc \<Rightarrow> pointer \<Rightarrow> ('w, unit) run" where
  "Fclose l fp = and_then (ask l (r_fclose fp)) (\<lambda>rc.
     if rc \<noteq> 0 then unix_error_message l ''Fclose error'' else result ())"

definition Fdopen :: "'w libc \<Rightarrow> int \<Rightarrow> string \<Rightarrow> ('w, pointer) run" where
  "Fdopen l fd typ = not_null l ''Fdopen error'' (ask l (r_fdopen fd typ))"

text \<open>\<^verbatim>\<open>ferror\<close> is asked only when there is nothing, or not enough.\<close>

definition Fgets :: "'w libc \<Rightarrow> pointer \<Rightarrow> int \<Rightarrow> pointer \<Rightarrow> ('w, pointer) run" where
  "Fgets l ptr n stream = and_then (ask l (r_fgets ptr n stream)) (\<lambda>rptr.
     if rptr = 0 then and_then (ask l (r_ferror stream)) (\<lambda>e. if e \<noteq> 0 then app_error ''Fgets error'' else result rptr)
     else result rptr)"

definition Fopen :: "'w libc \<Rightarrow> string \<Rightarrow> string \<Rightarrow> ('w, pointer) run" where
  "Fopen l filename mode = not_null l ''Fopen error'' (ask l (r_fopen filename mode))"

definition EOF :: int where "EOF = - 1"

definition Fputs :: "'w libc \<Rightarrow> string \<Rightarrow> pointer \<Rightarrow> ('w, unit) run" where
  "Fputs l ptr stream = and_then (ask l (r_fputs ptr stream)) (\<lambda>rc.
     if rc = EOF then unix_error_message l ''Fputs error'' else result ())"

definition Fread :: "'w libc \<Rightarrow> pointer \<Rightarrow> nat \<Rightarrow> nat \<Rightarrow> pointer \<Rightarrow> ('w, nat) run" where
  "Fread l ptr sz nmemb stream = and_then (ask l (r_fread ptr sz nmemb stream)) (\<lambda>n.
     if nat n < nmemb then and_then (ask l (r_ferror stream)) (\<lambda>e.
       if e \<noteq> 0 then unix_error_message l ''Fread error'' else result (nat n))
     else result (nat n))"

definition Fwrite :: "'w libc \<Rightarrow> pointer \<Rightarrow> nat \<Rightarrow> nat \<Rightarrow> pointer \<Rightarrow> ('w, unit) run" where
  "Fwrite l ptr sz nmemb stream = and_then (ask l (r_fwrite ptr sz nmemb stream)) (\<lambda>n.
     if nat n < nmemb then unix_error_message l ''Fwrite error'' else result ())"

section \<open>Hosts\<close>

definition Gethostbyaddr :: "'w libc \<Rightarrow> string \<Rightarrow> int \<Rightarrow> int \<Rightarrow> ('w, pointer) run" where
  "Gethostbyaddr l addr len typ = and_then (ask l (r_gethostbyaddr addr len typ)) (\<lambda>p.
     if p = 0 then dns_error_message l ''Gethostbyaddr error'' else result p)"

section \<open>Threads and semaphores\<close>

definition Pthread_create :: "'w libc \<Rightarrow> pointer \<Rightarrow> pointer \<Rightarrow> pointer \<Rightarrow> pointer \<Rightarrow> ('w, unit) run" where
  "Pthread_create l tidp attrp routine argp =
     code_zero l ''Pthread_create error'' (ask l (r_pthread_create tidp attrp routine argp))"

definition Pthread_cancel :: "'w libc \<Rightarrow> int \<Rightarrow> ('w, unit) run" where
  "Pthread_cancel l tid = code_zero l ''Pthread_cancel error'' (ask l (r_pthread_cancel tid))"

definition Pthread_join :: "'w libc \<Rightarrow> int \<Rightarrow> pointer \<Rightarrow> ('w, unit) run" where
  "Pthread_join l tid thread_return = code_zero l ''Pthread_join error'' (ask l (r_pthread_join tid thread_return))"

definition Pthread_detach :: "'w libc \<Rightarrow> int \<Rightarrow> ('w, unit) run" where
  "Pthread_detach l tid = code_zero l ''Pthread_detach error'' (ask l (r_pthread_detach tid))"

text \<open>\<^verbatim>\<open>pthread_exit\<close> does not come back: its world is the last one of the thread.\<close>

definition Pthread_exit :: "'w libc \<Rightarrow> pointer \<Rightarrow> ('w, unit) run" where
  "Pthread_exit l retval = void (ask l (r_pthread_exit retval))"

definition Pthread_self :: "'w libc \<Rightarrow> ('w, int) run" where
  "Pthread_self l = ask l r_pthread_self"

definition Pthread_once :: "'w libc \<Rightarrow> pointer \<Rightarrow> pointer \<Rightarrow> ('w, unit) run" where
  "Pthread_once l once_control init_function = void (ask l (r_pthread_once once_control init_function))"

definition Sem_init :: "'w libc \<Rightarrow> pointer \<Rightarrow> int \<Rightarrow> u32 \<Rightarrow> ('w, unit) run" where
  "Sem_init l sem pshared val = void (not_negative l ''Sem_init error'' (ask l (r_sem_init sem pshared val)))"

definition P :: "'w libc \<Rightarrow> pointer \<Rightarrow> ('w, unit) run" where
  "P l sem = void (not_negative l ''P error'' (ask l (r_sem_wait sem)))"

definition V :: "'w libc \<Rightarrow> pointer \<Rightarrow> ('w, unit) run" where
  "V l sem = void (not_negative l ''V error'' (ask l (r_sem_post sem)))"

section \<open>What the wrappers do\<close>

text \<open>Who returns has printed nothing; who does not has printed a message, and leaves with the status of success.\<close>

definition reports :: "('w, 'a) run \<Rightarrow> bool" where
  "reports m \<longleftrightarrow> (\<forall>p. case m p of
      (Returns x, p') \<Rightarrow> stderr p' = stderr p
    | (Exits n, p') \<Rightarrow> n = 0 \<and> (\<exists>t. t \<noteq> '''' \<and> stderr p' = stderr p @ t))"

named_theorems reporting

lemma reports_ask [reporting]: "reports (ask l r)"
  by (simp add: reports_def ask_def split: prod.splits)

lemma reports_result [reporting]: "reports (result x)"
  by (simp add: reports_def result_def)

lemma reports_errors [reporting]: "reports (unix_error_message l msg)" "reports (posix_error l c msg)"
  "reports (dns_error_message l msg)" "reports (app_error msg)"
  by (simp_all add: reports_def unix_error_message_def posix_error_def dns_error_message_def app_error_def new_line_def)

lemma reports_and_then [reporting]:
  assumes "reports m" "\<And>x. reports (f x)"
  shows "reports (and_then m f)"
  unfolding reports_def
proof
  fix p
  obtain r p1 where m: "m p = (r, p1)" by (cases "m p")
  have r: "case (r, p1) of (Returns x, p') \<Rightarrow> stderr p' = stderr p
    | (Exits n, p') \<Rightarrow> n = 0 \<and> (\<exists>t. t \<noteq> '''' \<and> stderr p' = stderr p @ t)"
    using assms(1) [unfolded reports_def, rule_format, of p] m by simp
  show "case and_then m f p of (Returns x, p') \<Rightarrow> stderr p' = stderr p
    | (Exits n, p') \<Rightarrow> n = 0 \<and> (\<exists>t. t \<noteq> '''' \<and> stderr p' = stderr p @ t)"
  proof (cases r)
    case (Returns x)
    then have "stderr p1 = stderr p" using r by simp
    moreover have "case f x p1 of (Returns x, p') \<Rightarrow> stderr p' = stderr p1
      | (Exits n, p') \<Rightarrow> n = 0 \<and> (\<exists>t. t \<noteq> '''' \<and> stderr p' = stderr p1 @ t)"
      using assms(2) [of x, unfolded reports_def, rule_format, of p1] .
    ultimately show ?thesis by (simp add: and_then_def m Returns split: prod.splits ending.splits)
  next
    case (Exits n)
    then show ?thesis using r by (simp add: and_then_def m)
  qed
qed

lemma reports_if [reporting]: "reports m \<Longrightarrow> reports n \<Longrightarrow> reports (if c then m else n)"
  by simp

lemma reports_wrapped [reporting]: "reports m \<Longrightarrow> reports (void m)" "reports k \<Longrightarrow> reports (not_negative l msg k)"
  "reports k \<Longrightarrow> reports (not_null l msg k)" "reports k \<Longrightarrow> reports (code_zero l msg k)"
  by (simp_all add: void_def not_negative_def not_null_def code_zero_def reporting)

lemma streams_report: "reports (Fgets l ptr n stream)" "reports (Fread l ptr sz nmemb stream)" "reports (Fputs l t stream)"
  "reports (Fwrite l ptr sz nmemb stream)" "reports (Fclose l stream)" "reports (Mmap l addr len prot flags fd off)"
  "reports (Gethostbyaddr l bytes k typ)" "reports (Sleep l secs)"
  by (simp_all add: Fgets_def Fread_def Fputs_def Fwrite_def Fclose_def Mmap_def Gethostbyaddr_def Sleep_def Let_def reporting)

text \<open>The test of \<^verbatim>\<open>Sleep\<close> is never true: an unsigned number is not negative.\<close>

lemma sleep_returns: "Sleep l secs p =
    (let (n, w) = answer l (r_sleep secs) (world p) in (Returns (word_of_int n), p\<lparr>world := w\<rparr>))"
  by (simp add: Sleep_def and_then_def ask_def result_def Let_def split: prod.splits)

text \<open>The library may answer a request for 0 bytes with a null pointer, which is then taken for an error.\<close>

lemma malloc_of_nothing:
  assumes "answer l (r_malloc 0) (world p) = (0, w)"
  shows "fst (Malloc l 0 p) = Exits 0"
  using assms by (simp add: Malloc_def not_null_def and_then_def ask_def unix_error_message_def)

end
