(* ===== verification/Flex.thy ===== *)
theory Flex
  imports Scanner
begin

text \<open>
  \<^verbatim>\<open>scanner.c\<close>: the automaton \<^verbatim>\<open>flex\<close> generates from the rules, with its compressed tables, the
  backing up to the last match, the two null characters behind the buffer and the refilling of the
  buffer by \<^verbatim>\<open>read\<close>.
\<close>

section \<open>Tables\<close>

definition yy_accept :: "nat list" where
  "yy_accept =
    [0, 0, 0, 6, 4, 5, 4, 1, 2, 0, 0, 0, 3, 0]"

definition yy_ec :: "nat list" where
  "yy_ec =
    [0, 1, 1, 1, 1, 1, 1, 1, 1, 1, 2, 1, 1, 1, 1, 1, 1, 1, 1, 1, 1, 1, 1, 1, 1, 1, 1, 1, 1, 1,
     1, 1, 1, 1, 1, 3, 4, 1, 1, 1, 1, 1, 1, 5, 1, 6, 1, 1, 7, 7, 7, 7, 7, 7, 7, 7, 7, 7, 1, 1,
     1, 1, 1, 1, 1, 7, 7, 7, 7, 7, 7, 1, 1, 1, 1, 1, 1, 1, 1, 1, 1, 1, 1, 1, 1, 1, 1, 1, 1, 1,
     1, 1, 1, 1, 1, 1, 1, 7, 7, 7, 7, 7, 7, 1, 1, 1, 1, 1, 1, 1, 1, 1, 1, 1, 1, 1, 1, 1, 1, 1,
     1, 1, 1, 1, 1, 1, 1, 1, 1, 1, 1, 1, 1, 1, 1, 1, 1, 1, 1, 1, 1, 1, 1, 1, 1, 1, 1, 1, 1, 1,
     1, 1, 1, 1, 1, 1, 1, 1, 1, 1, 1, 1, 1, 1, 1, 1, 1, 1, 1, 1, 1, 1, 1, 1, 1, 1, 1, 1, 1, 1,
     1, 1, 1, 1, 1, 1, 1, 1, 1, 1, 1, 1, 1, 1, 1, 1, 1, 1, 1, 1, 1, 1, 1, 1, 1, 1, 1, 1, 1, 1,
     1, 1, 1, 1, 1, 1, 1, 1, 1, 1, 1, 1, 1, 1, 1, 1, 1, 1, 1, 1, 1, 1, 1, 1, 1, 1, 1, 1, 1, 1,
     1, 1, 1, 1, 1, 1, 1, 1, 1, 1, 1, 1, 1, 1, 1, 1]"

definition yy_meta :: "nat list" where
  "yy_meta =
    [0, 1, 1, 1, 2, 1, 1, 1]"

definition yy_base :: "nat list" where
  "yy_base =
    [0, 0, 0, 13, 14, 14, 9, 14, 14, 8, 3, 2, 14, 14, 7]"

definition yy_def :: "nat list" where
  "yy_def =
    [0, 13, 1, 13, 13, 13, 14, 13, 13, 14, 13, 13, 13, 0, 13]"

definition yy_nxt :: "nat list" where
  "yy_nxt =
    [0, 4, 5, 4, 6, 7, 8, 4, 9, 12, 11, 10, 10, 13, 3, 13, 13, 13, 13, 13, 13, 13]"

definition yy_chk :: "nat list" where
  "yy_chk =
    [0, 1, 1, 1, 1, 1, 1, 1, 14, 11, 10, 9, 6, 3, 13, 13, 13, 13, 13, 13, 13, 13]"

section \<open>The automaton\<close>

text \<open>
  A transition: through the defaults until the entry belongs to the state. From a state that is
  in no table, or from state 0, whose default it is itself, there is no result.
\<close>

partial_function (option) yy_trans :: "nat \<Rightarrow> nat \<Rightarrow> nat option" where
  "yy_trans q yc = do {
     b \<leftarrow> arr_get yy_base q;
     k \<leftarrow> arr_get yy_chk (b + yc);
     if k \<noteq> q then do {
       q \<leftarrow> arr_get yy_def q;
       yc \<leftarrow> (if q \<ge> 14 then arr_get yy_meta yc else Some yc);
       yy_trans q yc
     } else arr_get yy_nxt (b + yc) }"

declare yy_trans.simps [code]

text \<open>
  A position is an offset from \<^verbatim>\<open>yytext_ptr\<close>, the start of the token. The last accepting state is
  a state with the position at which it was reached.
\<close>

type_synonym accepting = "nat \<times> nat"

definition note_accepting :: "nat \<Rightarrow> nat \<Rightarrow> accepting \<Rightarrow> accepting option" where
  "note_accepting q cp la = do {
     a \<leftarrow> arr_get yy_accept q;
     Some (if a \<noteq> 0 then (q, cp) else la) }"

text \<open>The loop at \<^verbatim>\<open>yy_match\<close>, on the characters from \<^verbatim>\<open>yy_cp\<close> to the second end of the buffer.\<close>

fun yy_match :: "string \<Rightarrow> nat \<Rightarrow> nat \<Rightarrow> accepting \<Rightarrow> (nat \<times> nat \<times> accepting) option" where
  "yy_match [] q cp la = None"
| "yy_match (c # cs) q cp la = do {
     yc \<leftarrow> arr_get yy_ec (of_char c);
     la \<leftarrow> note_accepting q cp la;
     q \<leftarrow> yy_trans q yc;
     b \<leftarrow> arr_get yy_base q;
     if b \<noteq> 14 then yy_match cs q (cp + 1) la else Some (q, cp + 1, la) }"

text \<open>At \<^verbatim>\<open>yy_find_action\<close>: the action and the end of the text, after backing up if necessary.\<close>

definition yy_find_action :: "nat \<Rightarrow> nat \<Rightarrow> accepting \<Rightarrow> (nat \<times> nat) option" where
  "yy_find_action q cp la = do {
     act \<leftarrow> arr_get yy_accept q;
     if act = 0 then do {
       act \<leftarrow> arr_get yy_accept (fst la);
       Some (act, snd la)
     } else Some (act, cp) }"

text \<open>The state before the end of the buffer, from the text scanned so far.\<close>

fun previous_loop :: "string \<Rightarrow> nat \<Rightarrow> nat \<Rightarrow> accepting \<Rightarrow> (nat \<times> accepting) option" where
  "previous_loop [] q cp la = Some (q, la)"
| "previous_loop (c # cs) q cp la = do {
     yc \<leftarrow> (if c \<noteq> NUL then arr_get yy_ec (of_char c) else Some 1);
     la \<leftarrow> note_accepting q cp la;
     q \<leftarrow> yy_trans q yc;
     previous_loop cs q (cp + 1) la }"

definition yy_get_previous_state :: "string \<Rightarrow> accepting \<Rightarrow> (nat \<times> accepting) option" where
  "yy_get_previous_state text la = previous_loop text 1 0 la"

definition yy_try_NUL_trans :: "nat \<Rightarrow> nat \<Rightarrow> accepting \<Rightarrow> (nat \<times> accepting) option" where
  "yy_try_NUL_trans q cp la = do {
     la \<leftarrow> note_accepting q cp la;
     q \<leftarrow> yy_trans q 1;
     Some (if q = 13 then 0 else q, la) }"

section \<open>The buffer\<close>

text \<open>
  \<open>ahead\<close> is what \<^verbatim>\<open>yy_ch_buf\<close> holds from \<^verbatim>\<open>yytext_ptr\<close> to \<^verbatim>\<open>yy_n_chars\<close>; two null characters follow.
  \<open>source\<close> is what the connection delivers, piece by piece; an empty piece is the end of the file,
  and so is every read when there is no more. That the buffer moves is not visible in offsets, and
  its allocation does not fail; its size is an int, whose overflow is undefined.
\<close>

record yyguts =
  ahead :: string
  buf_size :: int
  eof_pending :: bool
  source :: "string list"
  last_accepting :: accepting

definition YY_BUF_SIZE :: int where "YY_BUF_SIZE = 16384"
definition YY_READ_BUF_SIZE :: int where "YY_READ_BUF_SIZE = 8192"

text \<open>\<^verbatim>\<open>YY_INPUT\<close>: at most \<open>max_size\<close> characters of the next piece; the rest is read later.\<close>

definition yy_input :: "int \<Rightarrow> string list \<Rightarrow> string \<times> string list" where
  "yy_input max_size src =
     (case src of [] \<Rightarrow> ('''', [])
      | r # rs \<Rightarrow> if int (length r) \<le> max_size then (r, rs)
                else (take (nat max_size) r, drop (nat max_size) r # rs))"

text \<open>The loop that doubles the buffer until something can be read behind what is kept.\<close>

partial_function (option) make_room :: "int \<Rightarrow> int \<Rightarrow> int option" where
  "make_room number_to_move sz =
     (if sz - number_to_move - 1 \<le> 0 then
        if 2 * sz < 2 ^ 31 then make_room number_to_move (2 * sz) else None
      else Some sz)"

declare make_room.simps [code]

datatype refill = EOB_ACT_CONTINUE_SCAN | EOB_ACT_END_OF_FILE | EOB_ACT_LAST_MATCH

definition yy_get_next_buffer :: "nat \<Rightarrow> yyguts \<Rightarrow> (refill \<times> yyguts) option" where
  "yy_get_next_buffer number_to_move g = do {
     let kept = take number_to_move (ahead g);
     (new, rest, sz) \<leftarrow>
       (if eof_pending g then Some ('''', source g, buf_size g)
        else do {
          sz \<leftarrow> make_room (int number_to_move) (buf_size g);
          let num_to_read = min (sz - int number_to_move - 1) YY_READ_BUF_SIZE;
          let (new, rest) = yy_input num_to_read (source g);
          Some (new, rest, sz) });
     let n_chars = int (length new);
     let sz = (if n_chars + int number_to_move > sz
               then n_chars + int number_to_move + n_chars div 2 - 2 else sz);
     let g = g\<lparr>ahead := kept @ new, source := rest, buf_size := sz\<rparr>;
     Some (if new = '''' then
             if number_to_move = 0 then (EOB_ACT_END_OF_FILE, g\<lparr>eof_pending := False\<rparr>)
             else (EOB_ACT_LAST_MATCH, g\<lparr>eof_pending := True\<rparr>)
           else (EOB_ACT_CONTINUE_SCAN, g)) }"

section \<open>The scanner\<close>

datatype label = Match | Find

text \<open>
  One token, from a label of \<^verbatim>\<open>yylex\<close>, the current state and \<^verbatim>\<open>yy_cp\<close>: the number of the action with its
  text, or nothing at the end of the file.
\<close>

partial_function (option) yy_token :: "label \<Rightarrow> nat \<Rightarrow> nat \<Rightarrow> yyguts \<Rightarrow> ((nat \<times> string) option \<times> yyguts) option" where
  "yy_token l q cp g = do {
     (q, cp, la) \<leftarrow> (if l = Match then yy_match (drop cp (ahead g) @ [NUL, NUL]) q cp (last_accepting g)
                     else Some (q, cp, last_accepting g));
     let g = g\<lparr>last_accepting := la\<rparr>;
     (act, cp) \<leftarrow> yy_find_action q cp la;
     if act = 0 then yy_token Find (fst la) (snd la) g
     else if act \<noteq> 6 then Some (Some (act, take cp (ahead g)), g\<lparr>ahead := drop cp (ahead g)\<rparr>)
     else let amount = cp - 1 in
       if cp \<le> length (ahead g) then do {
         (q, la) \<leftarrow> yy_get_previous_state (take amount (ahead g)) la;
         (q', la) \<leftarrow> yy_try_NUL_trans q amount la;
         let g = g\<lparr>last_accepting := la\<rparr>;
         if q' \<noteq> 0 then yy_token Match q' (amount + 1) g else yy_token Find q amount g
       } else do {
         (r, g) \<leftarrow> yy_get_next_buffer amount g;
         case r of
           EOB_ACT_END_OF_FILE \<Rightarrow> Some (None, g)
         | EOB_ACT_CONTINUE_SCAN \<Rightarrow> do {
             (q, la) \<leftarrow> yy_get_previous_state (take amount (ahead g)) la;
             yy_token Match q amount (g\<lparr>last_accepting := la\<rparr>) }
         | EOB_ACT_LAST_MATCH \<Rightarrow> do {
             (q, la) \<leftarrow> yy_get_previous_state (ahead g) la;
             yy_token Find q (length (ahead g)) (g\<lparr>last_accepting := la\<rparr>) } } }"

text \<open>\<^verbatim>\<open>yylex\<close> to the end of the file: the actions it executes, with their texts.\<close>

partial_function (option) yylex :: "yyguts \<Rightarrow> (nat \<times> string) list option" where
  "yylex g = do {
     (r, g) \<leftarrow> yy_token Match 1 0 g;
     case r of
       None \<Rightarrow> Some []
     | Some t \<Rightarrow> do { ts \<leftarrow> yylex g; Some (t # ts) } }"

text \<open>The \<^verbatim>\<open>switch\<close> over the actions, for the actions of the rules.\<close>

definition do_action :: "(nat \<Rightarrow> u32) \<Rightarrow> (nat \<Rightarrow> u32) list \<Rightarrow> nat \<times> string \<Rightarrow> parser \<Rightarrow> (status \<times> parser) option" where
  "do_action u js t d =
     (let (act, text) = t in
      if act = 1 then handle_error d
      else if act = 2 then then_do (handle_error d) (on_server gdb_transmit_packet)
      else if act = 3 then then_do (handle_error d) (on_server (gdb_packet_analysis u js text))
      else if act = 4 then do {
        c \<leftarrow> arr_get text 0;
        add_character_to_error c d }
      else if act = 5 then Some (Running, d\<lparr>echoed := echoed d @ text\<rparr>)
      else None)"

text \<open>
  The actions in the order in which they are executed, then the one of the end of the file. The
  lists give, for each token, what the program does not determine.
\<close>

fun do_actions :: "((nat \<Rightarrow> u32) \<times> (nat \<Rightarrow> u32) list) list \<Rightarrow> (nat \<times> string) list \<Rightarrow> parser \<Rightarrow> (status \<times> parser) option" where
  "do_actions us [] d = handle_error d"
| "do_actions [] (t # ts) d = Some (Looping, d)"
| "do_actions ((u, js) # us) (t # ts) d = then_do (do_action u js t d) (do_actions us ts)"

definition yy_init :: "string list \<Rightarrow> yyguts" where
  "yy_init reads = \<lparr>ahead = '''', buf_size = YY_BUF_SIZE, eof_pending = False, source = reads, last_accepting = (0, 0)\<rparr>"

text \<open>\<^verbatim>\<open>gdb_scanner\<close> with the generated scanner, on what the connection delivers.\<close>

definition generated_gdb_scanner ::
  "((nat \<Rightarrow> u32) \<times> (nat \<Rightarrow> u32) list) list \<Rightarrow> string list \<Rightarrow> arm_core \<Rightarrow> (status \<times> parser) option" where
  "generated_gdb_scanner us reads p = do {
     ts \<leftarrow> yylex (yy_init reads);
     do_actions us ts \<lparr>server = gdb_init_data p, errors = '''', echoed = ''''\<rparr> }"

section \<open>What the tables say\<close>

text \<open>The states: 1 at the start, 4, 5, 7, 8 a single character, 6 a dollar sign, 9 the payload, 10 behind
  \<^verbatim>\<open>#\<close>, 11 and 12 behind its digits, 13 none; 3 is the end of the buffer.\<close>

definition delta :: "nat \<Rightarrow> nat \<Rightarrow> nat" where
  "delta q yc =
     (if yc = 0 then 3
      else if q = 1 then [0, 4, 5, 4, 6, 7, 8, 4] ! yc
      else if q = 6 \<or> q = 9 then (if yc = 3 then 10 else if yc = 4 then 13 else 9)
      else if q = 10 then (if yc = 7 then 11 else 13)
      else if q = 11 then (if yc = 7 then 12 else 13)
      else 13)"

definition states :: "nat set" where
  "states = {1, 4, 5, 6, 7, 8, 9, 10, 11, 12}"

lemma yy_trans_delta:
  assumes "q \<in> states" "yc < 8"
  shows "yy_trans q yc = Some (delta q yc)"
proof -
  have "list_all (\<lambda>q. list_all (\<lambda>yc. yy_trans q yc = Some (delta q yc)) [0..<8]) [1, 4, 5, 6, 7, 8, 9, 10, 11, 12]"
    by code_simp
  with assms show ?thesis by (auto simp: list_all_iff states_def)
qed

text \<open>The classes of the characters, those of the rules.\<close>

definition class_of :: "char \<Rightarrow> nat" where
  "class_of c =
     (if c = CHR 0x0A then 2 else if c = CHR ''#'' then 3 else if c = CHR ''$'' then 4
      else if c = CHR ''+'' then 5 else if c = CHR ''-'' then 6 else if isxdigit c then 7 else 1)"

lemma class_of_bounds [simp]: "class_of c < 8" "class_of c \<noteq> 0"
  by (simp_all add: class_of_def)

lemma class_of_NUL [simp]: "class_of NUL = 1"
  by code_simp

lemma yy_ec_class:
  "arr_get yy_ec (of_char c) = Some (if c = NUL then 0 else class_of c)"
proof -
  have "yy_ec = 0 # tl (map class_of Enum.enum)" by code_simp
  then have ec: "yy_ec = 0 # tl (map (\<lambda>n. class_of (char_of n)) [0..<256])"
    by (simp add: enum_char_unfold comp_def del: upt_Suc)
  have n: "(of_char c :: nat) < 256" by simp
  have "(of_char NUL :: nat) = 0" by (simp add: NUL_def)
  then have "c = NUL \<longleftrightarrow> (of_char c :: nat) = 0" by (metis char_of_char)
  moreover have "char_of (of_char c :: nat) = c" by simp
  ultimately show ?thesis
    using n by (cases "of_char c :: nat") (simp_all add: ec nth_tl del: upt_Suc char_of_char)
qed

abbreviation accept :: "nat \<Rightarrow> nat" where
  "accept q \<equiv> yy_accept ! q"

lemma accept_get [simp]: "q < 14 \<Longrightarrow> arr_get yy_accept q = Some (accept q)"
  by (simp add: yy_accept_def)

definition final_states :: "nat set" where
  "final_states = {4, 5, 7, 8, 12, 13}"

lemma state_facts:
  assumes "q \<in> states"
  shows "q < 14" "q \<noteq> 13" "q \<noteq> 3" "q \<noteq> 0"
  using assms by (auto simp: states_def)

lemma delta_states: "0 < yc \<Longrightarrow> yc < 8 \<Longrightarrow> q \<in> states \<Longrightarrow> delta q yc \<in> states \<or> delta q yc = 13"
  by (auto simp: delta_def states_def less_Suc_eq numeral_eq_Suc)

lemma delta_class: "q \<in> states \<Longrightarrow> delta q (class_of c) \<noteq> 13 \<Longrightarrow> delta q (class_of c) \<in> states"
  using delta_states [of "class_of c" q] by (metis class_of_bounds neq0_conv)

lemma delta_13 [simp]: "delta 13 (class_of c) = 13"
  by (simp add: delta_def)

lemma base_get:
  assumes "q \<in> states \<or> q = 13"
  shows "\<exists>b. arr_get yy_base q = Some b \<and> (b = 14 \<longleftrightarrow> q \<in> final_states)"
  using assms by (auto simp: states_def final_states_def yy_base_def)

lemma end_of_buffer [simp]:
  "arr_get yy_base 3 = Some 13" "arr_get yy_base 13 = Some 14" "accept 3 = 6" "accept 13 = 0"
  by (simp_all add: yy_base_def yy_accept_def)

lemma trans_3: "yc < 8 \<Longrightarrow> yy_trans 3 yc = Some 13"
proof -
  have "list_all (\<lambda>yc. yy_trans 3 yc = Some 13) [0..<8]" by code_simp
  then show "yc < 8 \<Longrightarrow> yy_trans 3 yc = Some 13" by (simp add: list_all_iff)
qed

section \<open>The longest match\<close>

text \<open>The reference: the automaton on a text that is all there, with the last accepting state.\<close>

definition upd :: "nat \<Rightarrow> nat \<Rightarrow> accepting \<Rightarrow> accepting" where
  "upd q k l = (if accept q \<noteq> 0 then (q, k) else l)"

fun munch :: "nat \<Rightarrow> nat \<Rightarrow> accepting \<Rightarrow> string \<Rightarrow> accepting" where
  "munch q k l [] = upd q k l"
| "munch q k l (c # w) = (if q = 13 then l else munch (delta q (class_of c)) (k + 1) (upd q k l) w)"

definition adv :: "char \<Rightarrow> nat \<times> nat \<times> accepting \<Rightarrow> nat \<times> nat \<times> accepting" where
  "adv c s = (let (q, k, l) = s in (delta q (class_of c), k + 1, upd q k l))"

lemma upd_13 [simp]: "upd 13 k l = l"
  by (simp add: upd_def)

lemma munch_13 [simp]: "munch 13 k l w = l"
  by (cases w) simp_all

lemma munch_append:
  "munch q k l (z @ w) = (let (q, k, l) = fold adv z (q, k, l) in munch q k l w)"
proof (induction z arbitrary: q k l)
  case (Cons c z)
  show ?case
  proof (cases "q = 13")
    case True
    have "fold adv z (13, k, l) = (13, k + length z, l)" for k
      by (induction z arbitrary: k) (simp_all add: adv_def)
    from this [of "Suc k"] show ?thesis by (simp add: True adv_def [of c])
  qed (simp add: Cons adv_def)
qed simp

lemma accepting_first:
  "accept (delta 1 (class_of c)) \<noteq> 0" "delta 1 (class_of c) \<in> states" "accept 1 = 0"
  by (auto simp: delta_def class_of_def yy_accept_def states_def)

lemma upd_1 [simp]: "upd (Suc 0) k l = l"
  using accepting_first(3) by (simp add: upd_def)

lemma munch_last:
  assumes "w \<noteq> []"
  shows "munch 1 0 l w = munch 1 0 l' w"
proof -
  obtain c v where w: "w = c # v" using assms by (cases w) auto
  have "munch q k l v = munch q k l' v" if "accept q \<noteq> 0" "q \<in> states" for q k
    using that state_facts(2) [OF that(2)] by (cases v) (simp_all add: upd_def)
  then show ?thesis using accepting_first by (simp add: w upd_def)
qed

lemma fold_adv_fields:
  assumes "fold adv z (q, k, l) = (q', k', l')"
  shows "k' = k + length z" "\<exists>l''. fold adv z (q, k, m) = (q', k', l'')"
proof -
  have "\<exists>l''. fold adv z (q, k, m) = (q', k', l'')" if "fold adv z (q, k, l) = (q', k', l')" for m k' l l' q k
    using that by (induction z arbitrary: q k l m) (auto simp: adv_def)
  with assms show "\<exists>l''. fold adv z (q, k, m) = (q', k', l'')" by blast
  show "k' = k + length z" using assms
    by (induction z arbitrary: q k l) (fastforce simp: adv_def)+
qed

section \<open>The loop computes the longest match\<close>

text \<open>The loop on characters that are not null: whether it ends at a state without successors.\<close>

fun run :: "string \<Rightarrow> nat \<Rightarrow> nat \<Rightarrow> accepting \<Rightarrow> bool \<times> nat \<times> nat \<times> accepting" where
  "run [] q k l = (False, q, k, l)"
| "run (c # cs) q k l =
     (let q' = delta q (class_of c) in
      if q' \<in> final_states then (True, q', k + 1, upd q k l) else run cs q' (k + 1) (upd q k l))"

lemma note_accepting_upd [simp]: "q < 14 \<Longrightarrow> note_accepting q k l = Some (upd q k l)"
  by (simp add: note_accepting_def upd_def)

lemma yy_match_run:
  assumes "q \<in> states" "NUL \<notin> set z"
  shows "yy_match (z @ NUL # d # ds) q k l =
    (case run z q k l of (True, r) \<Rightarrow> Some r | (False, q', k', l') \<Rightarrow> Some (13, k' + 2, (3, k' + 1)))"
  using assms
proof (induction z arbitrary: q k l)
  case Nil
  have "yy_trans q 0 = Some 3" using yy_trans_delta [OF Nil(1), of 0] by (simp add: delta_def)
  moreover have "yy_trans 3 (if d = NUL then 0 else class_of d) = Some 13" by (rule trans_3) simp
  ultimately show ?case
    using state_facts [OF Nil(1)] by (simp add: yy_ec_class upd_def cong: if_cong)
next
  case (Cons c z)
  let ?q = "delta q (class_of c)"
  have t: "yy_trans q (class_of c) = Some ?q" by (rule yy_trans_delta [OF Cons.prems(1)]) simp
  have s: "?q \<in> states \<or> ?q = 13" using delta_class [OF Cons.prems(1)] by blast
  obtain b where b: "arr_get yy_base ?q = Some b" "b = 14 \<longleftrightarrow> ?q \<in> final_states"
    using base_get [OF s] by blast
  have "?q \<in> states" if "?q \<notin> final_states" using s that by (auto simp: final_states_def)
  then show ?case
    using Cons t b state_facts [OF Cons.prems(1)] not_sym by (auto simp: yy_ec_class Let_def)
qed

lemma run_ends:
  assumes "run z q k l = (False, q', k', l')" "q \<in> states"
  shows "fold adv z (q, k, l) = (q', k', l') \<and> q' \<in> states"
  using assms
proof (induction z arbitrary: q k l)
  case (Cons c z)
  then have "delta q (class_of c) \<notin> final_states" by (auto simp: Let_def split: if_splits)
  with Cons delta_class [OF Cons.prems(2), of c] show ?case
    by (auto simp: Let_def adv_def final_states_def)
qed simp

lemma munch_final: "q \<in> final_states \<Longrightarrow> munch q k l w = upd q k l"
proof (cases w)
  case (Cons c v)
  assume "q \<in> final_states"
  then have "delta q (class_of c) = 13" by (auto simp: final_states_def delta_def)
  then show ?thesis using Cons by (simp add: upd_def)
qed simp

lemma run_stops:
  assumes "run z q k l = (True, q', k', l')" "q \<in> states"
  shows "\<exists>j \<le> length z. 0 < j \<and> fold adv (take j z) (q, k, l) = (q', k', l') \<and> k' = k + j \<and> q' \<in> final_states"
  using assms
proof (induction z arbitrary: q k l)
  case (Cons c z)
  let ?q = "delta q (class_of c)"
  show ?case
  proof (cases "?q \<in> final_states")
    case True
    with Cons.prems show ?thesis by (intro exI [of _ 1]) (auto simp: Let_def adv_def)
  next
    case False
    with delta_class [OF Cons.prems(2), of c] have "?q \<in> states" by (auto simp: final_states_def)
    with Cons.IH [of ?q "k + 1" "upd q k l"] Cons.prems(1) False obtain j where
      "j \<le> length z" "fold adv (take j z) (?q, k + 1, upd q k l) = (q', k', l')" "k' = k + 1 + j" "q' \<in> final_states"
      by (auto simp: Let_def)
    then show ?thesis by (intro exI [of _ "Suc j"]) (simp add: adv_def [of c])
  qed
qed simp

lemma previous_loop_fold:
  assumes "fold adv z (q, k, l) = (q', k', l')" "q' \<noteq> 13" "q \<in> states"
  shows "previous_loop z q k l = Some (q', l')"
  using assms
proof (induction z arbitrary: q k l)
  case (Cons c z)
  let ?q = "delta q (class_of c)"
  have "yy_trans q (class_of c) = Some ?q" by (rule yy_trans_delta [OF Cons.prems(3)]) simp
  moreover have "?q \<noteq> 13"
  proof
    assume "?q = 13"
    moreover have "fst (fold adv z (13, m)) = 13" for m
      by (induction z arbitrary: m) (auto simp: adv_def)
    ultimately have "fst (fold adv (c # z) (q, k, l)) = 13" by (simp add: adv_def [of c])
    with Cons.prems(1,2) show False by simp
  qed
  moreover have "(if c \<noteq> NUL then arr_get yy_ec (of_char c) else Some 1) = Some (class_of c)"
    by (simp add: yy_ec_class)
  ultimately show ?case
    using Cons.IH [of ?q "k + 1" "upd q k l"] Cons.prems delta_class [OF Cons.prems(3), of c] state_facts [OF Cons.prems(3)]
    by (simp add: adv_def)
qed simp

lemma find_action_upd:
  "q < 14 \<Longrightarrow> fst (upd q k l) < 14 \<Longrightarrow> yy_find_action q k l = Some (accept (fst (upd q k l)), snd (upd q k l))"
  by (auto simp: yy_find_action_def upd_def split: if_splits)

section \<open>The buffer is filled in time\<close>

text \<open>The characters the scanner has not used: those in the buffer and those to be read.\<close>

definition unread :: "yyguts \<Rightarrow> string" where
  "unread g = ahead g @ (if eof_pending g then '''' else concat (source g))"

text \<open>The buffer may double; a length below \<open>2 ^ 29\<close> keeps its size an int.\<close>

definition wf_source :: "yyguts \<Rightarrow> bool" where
  "wf_source g \<longleftrightarrow> '''' \<notin> set (source g) \<and> (eof_pending g \<or> 0 < buf_size g) \<and> length (unread g) < 2 ^ 29"

lemma unread_accepting [simp]:
  "unread (g\<lparr>last_accepting := l\<rparr>) = unread g" "wf_source (g\<lparr>last_accepting := l\<rparr>) = wf_source g"
  by (simp_all add: unread_def wf_source_def cong: if_cong)

lemma wf_source_drop: "wf_source g \<Longrightarrow> wf_source (g\<lparr>ahead := drop n (ahead g)\<rparr>)"
  by (auto simp: unread_def wf_source_def split: if_splits)

lemma munch_bounds:
  assumes "w \<noteq> []"
  shows "accept (fst (munch 1 0 l w)) \<in> {1, 2, 3, 4, 5} \<and> fst (munch 1 0 l w) < 14 \<and>
    0 < snd (munch 1 0 l w) \<and> snd (munch 1 0 l w) \<le> length w"
proof -
  define P where "P = (\<lambda>n (q, k :: nat). accept q \<in> {1, 2, 3, 4, 5} \<and> q < 14 \<and> 0 < k \<and> k \<le> (n :: nat))"
  have acc: "accept q \<in> {0, 1, 2, 3, 4, 5} \<and> q < 14" if "q \<in> states" for q
    using that by (auto simp: states_def yy_accept_def)
  have upd: "P k' (upd q k' l)" if "q \<in> states" "P k l \<or> accept q \<noteq> 0" "0 < k'" "k \<le> k'" for q k k' l
    using acc [OF that(1)] that(2-) by (cases "accept q = 0") (auto simp: P_def upd_def)
  have step: "P (k + length v) (munch q k l v)" if "q \<in> states" "P k (upd q k l)" for q k l v
    using that
  proof (induction v arbitrary: q k l)
    case (Cons c v)
    show ?case
    proof (cases "delta q (class_of c) = 13")
      case True
      with Cons.prems state_facts show ?thesis by (auto simp: P_def)
    next
      case False
      then have s: "delta q (class_of c) \<in> states" by (rule delta_class [OF Cons.prems(1)])
      have "P (Suc k) (upd (delta q (class_of c)) (Suc k) (upd q k l))"
        by (rule upd [OF s]) (use Cons.prems(2) in auto)
      from Cons.IH [OF s this] show ?thesis using state_facts [OF Cons.prems(1)] by simp
    qed
  qed simp
  obtain c v where w: "w = c # v" using assms by (cases w) auto
  have "P 1 (upd (delta 1 (class_of c)) 1 l)"
    by (rule upd [OF accepting_first(2), of 0]) (use accepting_first(1) in auto)
  from step [OF accepting_first(2) this, of v] show ?thesis
    using accepting_first(3) by (auto simp: P_def w upd_def split: prod.splits)
qed

lemma previous_state_fold:
  assumes "fold adv z (1, 0, l) = (q, k, l')" "q \<in> states"
  shows "\<exists>l''. yy_get_previous_state z m = Some (q, l'') \<and> fold adv z (1, 0, m) = (q, k, l'')"
proof -
  obtain l'' where "fold adv z (1, 0, m) = (q, k, l'')" using fold_adv_fields(2) [OF assms(1)] by blast
  then show ?thesis
    using previous_loop_fold [of z 1 0 m q k l''] state_facts [OF assms(2)]
    by (simp add: yy_get_previous_state_def) (simp add: states_def)
qed

text \<open>Behind the buffer: the next read, or the last match.\<close>

lemma make_room_enough:
  assumes "0 < sz" "m < 2 ^ 29"
  shows "\<exists>sz'. make_room m sz = Some sz' \<and> m + 1 < sz'"
  using assms(1)
proof (induction "nat (m + 2 - sz)" arbitrary: sz rule: less_induct)
  case less
  show ?case
  proof (cases "sz - m - 1 \<le> 0")
    case True
    then have "2 * sz < 2 ^ 31" using assms(2) by simp
    with True have "make_room m sz = make_room m (2 * sz)" by (subst make_room.simps) simp
    moreover have "nat (m + 2 - 2 * sz) < nat (m + 2 - sz)" using True less.prems by simp
    ultimately show ?thesis using less.hyps [of "2 * sz"] less.prems by simp
  next
    case False
    then show ?thesis by (subst make_room.simps) simp
  qed
qed

lemma yy_input_splits:
  assumes "yy_input n src = (new, rest)" "0 < n" "'''' \<notin> set src"
  shows "concat src = new @ concat rest" "int (length new) \<le> n" "'''' \<notin> set rest" "src \<noteq> [] \<longleftrightarrow> new \<noteq> ''''"
  using assms by (auto simp: yy_input_def split: list.splits if_splits)

text \<open>A refill that reads: the characters read follow those in the buffer, whatever size it has
  grown to, and none means the input is at its end.\<close>

lemma refill_reads:
  assumes "wf_source g" "\<not> eof_pending g"
  obtains new rest sz where "concat (source g) = new @ concat rest" "source g \<noteq> [] \<longleftrightarrow> new \<noteq> ''''"
    "new = '''' \<Longrightarrow> rest = []"
    "unread (g\<lparr>ahead := ahead g @ new, source := rest, buf_size := sz\<rparr>) = unread g"
    "wf_source (g\<lparr>ahead := ahead g @ new, source := rest, buf_size := sz\<rparr>)"
    "let h = g\<lparr>ahead := ahead g @ new, source := rest, buf_size := sz\<rparr> in
     yy_get_next_buffer (length (ahead g)) g = Some (
       if new \<noteq> '''' then (EOB_ACT_CONTINUE_SCAN, h)
       else if ahead g = '''' then (EOB_ACT_END_OF_FILE, h\<lparr>eof_pending := False\<rparr>)
       else (EOB_ACT_LAST_MATCH, h\<lparr>eof_pending := True\<rparr>))"
proof -
  have w: "0 < buf_size g" "int (length (ahead g)) < 2 ^ 29" "'''' \<notin> set (source g)"
    using assms by (simp_all add: wf_source_def unread_def)
  obtain sz where sz: "make_room (int (length (ahead g))) (buf_size g) = Some sz" "int (length (ahead g)) + 1 < sz"
    using make_room_enough [OF w(1,2)] by blast
  define n where "n = min (sz - int (length (ahead g)) - 1) YY_READ_BUF_SIZE"
  have n: "0 < n" "n \<le> sz - int (length (ahead g)) - 1" using sz(2) by (simp_all add: n_def YY_READ_BUF_SIZE_def)
  obtain new rest where io: "yy_input n (source g) = (new, rest)" by (cases "yy_input n (source g)")
  note i = yy_input_splits [OF io n(1) w(3)]
  show thesis
  proof (rule that [OF i(1,4)])
    show "rest = []" if "new = ''''" using that i(4) io by (cases "source g") (simp_all add: yy_input_def)
    show "unread (g\<lparr>ahead := ahead g @ new, source := rest, buf_size := sz\<rparr>) = unread g"
      "wf_source (g\<lparr>ahead := ahead g @ new, source := rest, buf_size := sz\<rparr>)"
      using assms i(1,3) sz(2) by (simp_all add: unread_def wf_source_def)
  qed (use assms(2) sz(1) io i(2) n(2) in \<open>simp add: yy_get_next_buffer_def Let_def n_def [symmetric]\<close>)
qed

lemma refill:
  assumes "wf_source g"
  obtains (last_read) h where "eof_pending g \<or> source g = []"
      "yy_get_next_buffer (length (ahead g)) g =
        Some (if ahead g = '''' then EOB_ACT_END_OF_FILE else EOB_ACT_LAST_MATCH, h)"
      "ahead g \<noteq> '''' \<Longrightarrow> ahead h = ahead g" "ahead g \<noteq> '''' \<Longrightarrow> unread h = unread g"
      "ahead g \<noteq> '''' \<Longrightarrow> wf_source h"
  | (more) h s where "\<not> (eof_pending g \<or> source g = [])"
      "yy_get_next_buffer (length (ahead g)) g = Some (EOB_ACT_CONTINUE_SCAN, h)"
      "ahead h = ahead g @ s" "unread h = unread g" "wf_source h"
      "length (concat (source h)) < length (concat (source g))"
proof (cases "eof_pending g")
  case True
  obtain h where h: "yy_get_next_buffer (length (ahead g)) g =
      Some (if ahead g = '''' then EOB_ACT_END_OF_FILE else EOB_ACT_LAST_MATCH, h)"
    "ahead g \<noteq> '''' \<Longrightarrow> ahead h = ahead g \<and> unread h = unread g \<and> wf_source h"
    using True assms
    by (intro that [of "snd (the (yy_get_next_buffer (length (ahead g)) g))"])
      (simp_all add: yy_get_next_buffer_def Let_def wf_source_def unread_def)
  then show thesis using last_read True by blast
next
  case False
  obtain new rest sz where r: "concat (source g) = new @ concat rest" "source g \<noteq> [] \<longleftrightarrow> new \<noteq> ''''"
      "new = '''' \<Longrightarrow> rest = []"
    and h: "unread (g\<lparr>ahead := ahead g @ new, source := rest, buf_size := sz\<rparr>) = unread g"
      "wf_source (g\<lparr>ahead := ahead g @ new, source := rest, buf_size := sz\<rparr>)"
    and b: "let h = g\<lparr>ahead := ahead g @ new, source := rest, buf_size := sz\<rparr> in
      yy_get_next_buffer (length (ahead g)) g = Some (
        if new \<noteq> '''' then (EOB_ACT_CONTINUE_SCAN, h)
        else if ahead g = '''' then (EOB_ACT_END_OF_FILE, h\<lparr>eof_pending := False\<rparr>)
        else (EOB_ACT_LAST_MATCH, h\<lparr>eof_pending := True\<rparr>))"
    using refill_reads [OF assms False] by blast
  show thesis
  proof (cases "source g = []")
    case True
    then show thesis using r h b assms False
      by (intro last_read [of "g\<lparr>source := [], buf_size := sz, eof_pending := ahead g \<noteq> ''''\<rparr>"])
        (auto simp: Let_def unread_def wf_source_def)
  next
    case False
    then show thesis using r h b \<open>\<not> eof_pending g\<close>
      by (intro more [of "g\<lparr>ahead := ahead g @ new, source := rest, buf_size := sz\<rparr>" new]) (auto simp: Let_def)
  qed
qed

text \<open>What a token is: the longest match at the start of what is unread.\<close>

definition cut :: "yyguts \<Rightarrow> ((nat \<times> string) option \<times> yyguts) option \<Rightarrow> bool" where
  "cut g r \<longleftrightarrow> (let m = munch 1 0 (0, 0) (unread g) in
     \<exists>g'. r = Some (Some (accept (fst m), take (snd m) (unread g)), g') \<and>
       unread g' = drop (snd m) (unread g) \<and> wf_source g')"

text \<open>A state behind a text in the buffer from which nothing longer is accepted.\<close>

definition longest :: "yyguts \<Rightarrow> nat \<Rightarrow> nat \<Rightarrow> yyguts \<Rightarrow> bool" where
  "longest g q k h \<longleftrightarrow> unread g \<noteq> '''' \<and> unread h = unread g \<and> wf_source h \<and> q < 14 \<and> 0 < k \<and> k \<le> length (ahead h) \<and>
     (\<exists>l la. fold adv (take k (ahead h)) (1, 0, l) = (q, k, la) \<and>
       munch q k la (drop k (unread g)) = upd q k la \<and> upd q k (last_accepting h) = upd q k la)"

lemma longestI:
  "fold adv (take k (ahead h)) (1, 0, l) = (q, k, la) \<Longrightarrow> munch q k la (drop k (unread g)) = upd q k la \<Longrightarrow>
    upd q k (last_accepting h) = upd q k la \<Longrightarrow> unread g \<noteq> '''' \<Longrightarrow> unread h = unread g \<Longrightarrow> wf_source h \<Longrightarrow>
    q < 14 \<Longrightarrow> 0 < k \<Longrightarrow> k \<le> length (ahead h) \<Longrightarrow> longest g q k h"
  unfolding longest_def by blast

lemma take_unread: "k \<le> length (ahead g) \<Longrightarrow> take k (unread g) = take k (ahead g)"
  by (simp add: unread_def)

lemma longestD:
  assumes "longest g q k h"
  shows "munch 1 0 (0, 0) (unread g) = upd q k (last_accepting h)"
    "accept (fst (upd q k (last_accepting h))) \<in> {1, 2, 3, 4, 5}" "fst (upd q k (last_accepting h)) < 14"
    "snd (upd q k (last_accepting h)) \<le> length (ahead h)"
proof -
  let ?m = "upd q k (last_accepting h)"
  obtain l la where l: "fold adv (take k (ahead h)) (1, 0, l) = (q, k, la)"
    "munch q k la (drop k (unread g)) = upd q k la" "?m = upd q k la"
    using assms unfolding longest_def by blast
  have t: "take k (unread g) = take k (ahead h)"
    using assms take_unread [of k h] by (simp add: longest_def)
  have "munch 1 0 l (take k (unread g) @ drop k (unread g)) = ?m"
    unfolding munch_append t l(1) by (simp add: l(2,3))
  then show m: "munch 1 0 (0, 0) (unread g) = ?m"
    using munch_last [of "unread g" l] assms by (simp add: longest_def)
  show "accept (fst ?m) \<in> {1, 2, 3, 4, 5}" "fst ?m < 14"
    using munch_bounds [of "unread g" "(0, 0)"] m assms by (simp_all add: longest_def)
  have "munch 1 0 l (take k (ahead h) @ '''') = ?m" unfolding munch_append l(1) by (simp add: l(3))
  moreover have k: "0 < k" "k \<le> length (ahead h)" using assms by (simp_all add: longest_def)
  moreover have "take k (ahead h) \<noteq> ''''" using k by auto
  ultimately show "snd ?m \<le> length (ahead h)" using munch_bounds [of "take k (ahead h)" l] by simp
qed

lemma longest_action:
  assumes "longest g q k h"
  shows "yy_find_action q k (last_accepting h) =
    Some (accept (fst (upd q k (last_accepting h))), snd (upd q k (last_accepting h)))"
  using longestD(3) [OF assms] assms by (intro find_action_upd) (simp_all add: longest_def)

lemma longest_cut:
  assumes "longest g q k h" "m = upd q k (last_accepting h)"
  shows "cut g (Some (Some (accept (fst m), take (snd m) (ahead h)), h\<lparr>ahead := drop (snd m) (ahead h)\<rparr>))"
proof -
  have u: "unread g = unread h" using assms(1) by (simp add: longest_def)
  note d = longestD [OF assms(1), folded assms(2)]
  have "take (snd m) (unread h) = take (snd m) (ahead h)"
    "drop (snd m) (unread h) = unread (h\<lparr>ahead := drop (snd m) (ahead h)\<rparr>)"
    using d(4) by (simp_all add: unread_def)
  moreover have "wf_source (h\<lparr>ahead := drop (snd m) (ahead h)\<rparr>)"
    using assms(1) by (simp add: longest_def wf_source_drop)
  ultimately show ?thesis using d(1) by (simp add: cut_def Let_def u)
qed

text \<open>The last steps: at \<^verbatim>\<open>yy_find_action\<close> in such a state.\<close>

lemma cut_find:
  assumes "longest g q k h"
  shows "cut g (yy_token Find q k h)"
proof -
  have "yy_token Find q k h = Some (Some (accept (fst (upd q k (last_accepting h))), take (snd (upd q k (last_accepting h))) (ahead h)),
      h\<lparr>ahead := drop (snd (upd q k (last_accepting h))) (ahead h)\<rparr>)"
    using longestD(2) [OF assms] longest_action [OF assms] by (subst yy_token.simps) auto
  with longest_cut [OF assms] show ?thesis by simp
qed

text \<open>The first part of a round: up to a state without successors, or behind a null character.\<close>

lemma match_round:
  assumes "q \<in> states" "k \<le> length (ahead g)"
  obtains (jam) q' k' l' where "run (takeWhile (\<lambda>c. c \<noteq> NUL) (drop k (ahead g))) q k (last_accepting g) = (True, q', k', l')"
      "yy_match (drop k (ahead g) @ [NUL, NUL]) q k (last_accepting g) = Some (q', k', l')"
  | (null) q' k' l' where "run (takeWhile (\<lambda>c. c \<noteq> NUL) (drop k (ahead g))) q k (last_accepting g) = (False, q', k', l')"
      "yy_match (drop k (ahead g) @ [NUL, NUL]) q k (last_accepting g) = Some (13, k' + 2, (3, k' + 1))"
proof -
  let ?z = "takeWhile (\<lambda>c. c \<noteq> NUL) (drop k (ahead g))" and ?r = "dropWhile (\<lambda>c. c \<noteq> NUL) (drop k (ahead g))"
  have "\<exists>d ds. ?r @ [NUL, NUL] = NUL # d # ds"
  proof (cases ?r)
    case (Cons c s)
    then have "c = NUL" by (simp only: dropWhile_eq_Cons_conv not_not)
    then show ?thesis unfolding Cons by (cases s) auto
  next
    case Nil
    then show ?thesis unfolding Nil by simp
  qed
  then obtain d ds where d: "?r @ [NUL, NUL] = NUL # d # ds" by blast
  have e: "drop k (ahead g) @ [NUL, NUL] = ?z @ NUL # d # ds"
    unfolding d [symmetric] append.assoc [symmetric] takeWhile_dropWhile_id ..
  have "NUL \<notin> set ?z" by (auto dest: set_takeWhileD)
  then have y: "yy_match (drop k (ahead g) @ [NUL, NUL]) q k (last_accepting g) =
      (case run ?z q k (last_accepting g) of (True, r) \<Rightarrow> Some r | (False, q', k', l') \<Rightarrow> Some (13, k' + 2, (3, k' + 1)))"
    unfolding e by (rule yy_match_run [OF assms(1)])
  obtain b q' k' l' where "run ?z q k (last_accepting g) = (b, q', k', l')" by (metis prod_cases4)
  with y show thesis using jam null by (cases b) simp_all
qed

text \<open>The state at \<^verbatim>\<open>yy_match\<close>: the one behind the text, reached from the start of the token.\<close>

definition reached :: "nat \<Rightarrow> nat \<Rightarrow> yyguts \<Rightarrow> bool" where
  "reached q k g \<longleftrightarrow> q \<in> states \<and> k \<le> length (ahead g) \<and>
     (\<exists>l. fold adv (take k (ahead g)) (1, 0, l) = (q, k, last_accepting g))"

lemma reachedI:
  "fold adv (take k (ahead g)) (1, 0, l) = (q, k, last_accepting g) \<Longrightarrow> q \<in> states \<Longrightarrow> k \<le> length (ahead g) \<Longrightarrow> reached q k g"
  unfolding reached_def by blast

lemma reached_more:
  assumes "reached q k g" "j \<le> length (ahead g) - k" "fold adv (take j (drop k (ahead g))) (q, k, last_accepting g) = t"
  shows "\<exists>l. fold adv (take (k + j) (ahead g)) (1, 0, l) = t"
proof -
  obtain l where "fold adv (take k (ahead g)) (1, 0, l) = (q, k, last_accepting g)"
    using assms(1) by (auto simp: reached_def)
  then have "fold adv (take (k + j) (ahead g)) (1, 0, l) = t" using assms(3) by (simp add: take_add)
  then show ?thesis by blast
qed

lemma take_takeWhile: "j \<le> length (takeWhile P xs) \<Longrightarrow> take j (takeWhile P xs) = take j xs"
proof (induction xs arbitrary: j)
  case (Cons x xs)
  then show ?case by (cases j) (auto split: if_splits)
qed simp

text \<open>The round that ends at a state without successors.\<close>

lemma round_jam:
  assumes "unread g \<noteq> ''''" "wf_source g" "reached q k g"
    "run (takeWhile (\<lambda>c. c \<noteq> NUL) (drop k (ahead g))) q k (last_accepting g) = (True, q', k', l')"
    "yy_match (drop k (ahead g) @ [NUL, NUL]) q k (last_accepting g) = Some (q', k', l')"
  shows "cut g (yy_token Match q k g)"
proof -
  let ?z = "takeWhile (\<lambda>c. c \<noteq> NUL) (drop k (ahead g))" and ?h = "g\<lparr>last_accepting := l'\<rparr>"
  have s: "q \<in> states" "k \<le> length (ahead g)" using assms(3) by (simp_all add: reached_def)
  obtain j where j: "j \<le> length ?z" "0 < j" "fold adv (take j ?z) (q, k, last_accepting g) = (q', k', l')"
    "k' = k + j" "q' \<in> final_states"
    using run_stops [OF assms(4) s(1)] by blast
  have "length ?z \<le> length (ahead g) - k" using length_takeWhile_le [of _ "drop k (ahead g)"] by simp
  with j(1) have jl: "j \<le> length (ahead g) - k" by simp
  have "take j ?z = take j (drop k (ahead g))"
    by (rule take_takeWhile [OF j(1)])
  then have "fold adv (take j (drop k (ahead g))) (q, k, last_accepting g) = (q', k', l')" using j(3) by simp
  from reached_more [OF assms(3) jl this] obtain l where "fold adv (take k' (ahead ?h)) (1, 0, l) = (q', k', l')"
    unfolding j(4) by auto
  then have L: "longest g q' k' ?h"
    by (rule longestI) (use assms(1,2) munch_final [OF j(5)] j(2,4,5) jl s(2) in \<open>auto simp: unread_def wf_source_def final_states_def\<close>)
  have "yy_token Match q k g = Some (Some (accept (fst (upd q' k' l')), take (snd (upd q' k' l')) (ahead ?h)),
      ?h\<lparr>ahead := drop (snd (upd q' k' l')) (ahead ?h)\<rparr>)"
    using longestD(2) [OF L] longest_action [OF L] by (subst yy_token.simps) (auto simp: assms(5))
  with longest_cut [OF L] show ?thesis by simp
qed

text \<open>The round that ends at a null character of the input.\<close>

lemma round_null:
  assumes "unread g \<noteq> ''''" "wf_source g" "reached q k g"
    "run (takeWhile (\<lambda>c. c \<noteq> NUL) (drop k (ahead g))) q k (last_accepting g) = (False, q', k', l')"
  shows "k' = k + length (takeWhile (\<lambda>c. c \<noteq> NUL) (drop k (ahead g)))" "k' \<le> length (ahead g)" "q' \<in> states"
    "\<exists>l. yy_get_previous_state (take k' (ahead g)) m = Some (q', l) \<and> fold adv (take k' (ahead g)) (1, 0, m) = (q', k', l)"
proof -
  let ?z = "takeWhile (\<lambda>c. c \<noteq> NUL) (drop k (ahead g))"
  have s: "q \<in> states" "k \<le> length (ahead g)" using assms(3) by (simp_all add: reached_def)
  have f: "fold adv ?z (q, k, last_accepting g) = (q', k', l')" "q' \<in> states"
    using run_ends [OF assms(4) s(1)] by simp_all
  then show k': "k' = k + length ?z" and "q' \<in> states" using fold_adv_fields(1) by simp_all
  have zl: "length ?z \<le> length (ahead g) - k" using length_takeWhile_le [of _ "drop k (ahead g)"] by simp
  with s(2) k' show "k' \<le> length (ahead g)" by simp
  have "take (length ?z) (drop k (ahead g)) = ?z" using take_takeWhile [OF le_refl, of "\<lambda>c. c \<noteq> NUL"] by simp
  then have "fold adv (take (length ?z) (drop k (ahead g))) (q, k, last_accepting g) = (q', k', l')" using f(1) by simp
  from reached_more [OF assms(3) zl this] obtain l where "fold adv (take k' (ahead g)) (1, 0, l) = (q', k', l')"
    unfolding k' by blast
  from previous_state_fold [OF this f(2)] show
    "\<exists>l. yy_get_previous_state (take k' (ahead g)) m = Some (q', l) \<and> fold adv (take k' (ahead g)) (1, 0, m) = (q', k', l)"
    by blast
qed

text \<open>At the end of the buffer, behind a text that has no longer match.\<close>

lemma yy_token_end:
  assumes "yy_match (drop k (ahead g) @ [NUL, NUL]) q k (last_accepting g) = Some (13, k' + 2, (3, k' + 1))"
  shows "yy_token Match q k g =
    (let la = (3, k' + 1); g = g\<lparr>last_accepting := la\<rparr> in
     if k' + 1 \<le> length (ahead g) then do {
       (q, la) \<leftarrow> yy_get_previous_state (take k' (ahead g)) la;
       (q', la) \<leftarrow> yy_try_NUL_trans q k' la;
       let g = g\<lparr>last_accepting := la\<rparr>;
       if q' \<noteq> 0 then yy_token Match q' (k' + 1) g else yy_token Find q k' g
     } else do {
       (r, g) \<leftarrow> yy_get_next_buffer k' g;
       case r of
         EOB_ACT_END_OF_FILE \<Rightarrow> Some (None, g)
       | EOB_ACT_CONTINUE_SCAN \<Rightarrow> do {
           (q, la) \<leftarrow> yy_get_previous_state (take k' (ahead g)) la;
           yy_token Match q k' (g\<lparr>last_accepting := la\<rparr>) }
       | EOB_ACT_LAST_MATCH \<Rightarrow> do {
           (q, la) \<leftarrow> yy_get_previous_state (ahead g) la;
           yy_token Find q (length (ahead g)) (g\<lparr>last_accepting := la\<rparr>) } })"
proof -
  have "yy_find_action 13 (k' + 2) (3, k' + 1) = Some (6, k' + 1)" by (simp add: yy_find_action_def)
  then show ?thesis by (subst yy_token.simps) (simp add: assms Let_def cong: if_cong refill.case_cong)
qed

lemma try_NUL_delta:
  assumes "q \<in> states"
  shows "yy_try_NUL_trans q k l = Some (if delta q 1 = 13 then 0 else delta q 1, upd q k l)"
  using yy_trans_delta [OF assms, of 1] state_facts [OF assms] by (simp add: yy_try_NUL_trans_def)

text \<open>The three ways on from there.\<close>

lemma null_jams:
  assumes "unread g \<noteq> ''''" "wf_source g" "q \<in> states" "k < length (ahead g)" "ahead g ! k = NUL"
    "fold adv (take k (ahead g)) (1, 0, m) = (q, k, la)" "delta q 1 = 13"
  shows "longest g q k (g\<lparr>last_accepting := upd q k la\<rparr>)"
proof -
  have "k \<noteq> 0" using assms(6,7) by (cases k) (auto simp: delta_def)
  moreover have d: "drop k (unread g) = NUL # drop (Suc k) (unread g)"
    using assms(4,5) by (simp add: unread_def Cons_nth_drop_Suc [symmetric])
  have "munch q k la (drop k (unread g)) = upd q k la"
    unfolding d using assms(7) state_facts [OF assms(3)] by simp
  moreover have "upd q k (upd q k la) = upd q k la" by (simp add: upd_def)
  ultimately show ?thesis
    using assms state_facts [OF assms(3)] by (intro longestI [of _ _ m _ la]) simp_all
qed

lemma null_goes_on:
  assumes "q \<in> states" "k < length (ahead g)" "ahead g ! k = NUL"
    "fold adv (take k (ahead g)) (1, 0, m) = (q, k, la)" "delta q 1 \<noteq> 13"
  shows "reached (delta q 1) (k + 1) (g\<lparr>last_accepting := upd q k la\<rparr>)"
proof -
  have "fold adv (take (k + 1) (ahead g)) (1, 0, m) = (delta q 1, k + 1, upd q k la)"
    using assms(2-4) by (simp add: take_Suc_conv_app_nth adv_def [of NUL])
  moreover have "delta q 1 \<in> states" using delta_class [OF assms(1), of NUL] assms(5) by simp
  ultimately show ?thesis using assms(2) by (intro reachedI [of _ _ m]) simp_all
qed

lemma cut_unread: "unread h = unread g \<Longrightarrow> cut h r \<Longrightarrow> cut g r"
  by (simp add: cut_def)

lemma cut_accepting [simp]: "cut (g\<lparr>last_accepting := l\<rparr>) r = cut g r"
  by (simp add: cut_def)

text \<open>What a round achieves: the token, or a later position in it from which less is left.\<close>

definition left_over :: "yyguts \<Rightarrow> nat \<Rightarrow> nat" where
  "left_over g k = length (concat (source g)) + (length (unread g) - k)"

definition proceeds :: "nat \<Rightarrow> nat \<Rightarrow> yyguts \<Rightarrow> bool" where
  "proceeds q k g \<longleftrightarrow> cut g (yy_token Match q k g) \<or>
     (\<exists>q' k' h. yy_token Match q k g = yy_token Match q' k' h \<and> reached q' k' h \<and> unread h = unread g \<and>
       wf_source h \<and> left_over h k' < left_over g k)"

lemma proceedsI:
  "yy_token Match q k g = yy_token Match q' k' h \<Longrightarrow> reached q' k' h \<Longrightarrow> unread h = unread g \<Longrightarrow> wf_source h \<Longrightarrow>
    left_over h k' < left_over g k \<Longrightarrow> proceeds q k g"
  unfolding proceeds_def by blast

lemma round_in_buffer:
  assumes "unread g \<noteq> ''''" "wf_source g" "reached q k g"
    "run (takeWhile (\<lambda>c. c \<noteq> NUL) (drop k (ahead g))) q k (last_accepting g) = (False, q', k', l')"
    "yy_match (drop k (ahead g) @ [NUL, NUL]) q k (last_accepting g) = Some (13, k' + 2, (3, k' + 1))"
    "k' < length (ahead g)"
  shows "proceeds q k g"
proof -
  let ?z = "takeWhile (\<lambda>c. c \<noteq> NUL) (drop k (ahead g))"
  have s: "k \<le> length (ahead g)" using assms(3) by (simp add: reached_def)
  note n = round_null [OF assms(1-4)]
  note t = yy_token_end [OF assms(5)]
  obtain la where la: "yy_get_previous_state (take k' (ahead g)) (3, k' + 1) = Some (q', la)"
    "fold adv (take k' (ahead g)) (1, 0, (3, k' + 1)) = (q', k', la)"
    using n(4) by blast
  let ?h = "g\<lparr>last_accepting := upd q' k' la\<rparr>"
  have "length ?z < length (drop k (ahead g))" using assms(6) n(1) s by simp
  then have "drop k (ahead g) ! length ?z = NUL" using nth_length_takeWhile by fastforce
  then have nul: "ahead g ! k' = NUL" using s n(1) by simp
  have e: "yy_token Match q k g =
      (if delta q' 1 \<noteq> 13 then yy_token Match (delta q' 1) (k' + 1) ?h else yy_token Find q' k' ?h)"
    using assms(6) la(1) by (simp add: t try_NUL_delta [OF n(3)]) (simp add: delta_def)
  show ?thesis
  proof (cases "delta q' 1 = 13")
    case True
    with e cut_find [OF null_jams [OF assms(1,2) n(3) assms(6) nul la(2)]] show ?thesis
      by (simp add: proceeds_def)
  next
    case False
    have "length (unread g) \<ge> length (ahead g)" "k \<le> k'" using n(1) by (simp_all add: unread_def)
    then have "left_over ?h (k' + 1) < left_over g k"
      using assms(6) unfolding left_over_def unread_accepting by simp
    with e False assms(2) null_goes_on [OF n(3) assms(6) nul la(2) False] show ?thesis
      by (intro proceedsI) simp_all
  qed
qed

lemma round_at_end:
  assumes "unread g \<noteq> ''''" "wf_source g" "reached q k g"
    "run (takeWhile (\<lambda>c. c \<noteq> NUL) (drop k (ahead g))) q k (last_accepting g) = (False, q', k', l')"
    "yy_match (drop k (ahead g) @ [NUL, NUL]) q k (last_accepting g) = Some (13, k' + 2, (3, k' + 1))"
    "k' = length (ahead g)"
  shows "proceeds q k g"
proof -
  note n = round_null [OF assms(1-4)]
  note t = yy_token_end [OF assms(5)]
  obtain la where la: "yy_get_previous_state (take k' (ahead g)) (3, k' + 1) = Some (q', la)"
    "fold adv (take k' (ahead g)) (1, 0, (3, k' + 1)) = (q', k', la)"
    using n(4) by blast
  have w: "wf_source (g\<lparr>last_accepting := (3, k' + 1)\<rparr>)" using assms(2) by simp
  then show ?thesis
  proof (cases rule: refill)
    case (last_read h)
    let ?h = "h\<lparr>last_accepting := la\<rparr>"
    have "unread g = ahead g" using last_read(1) by (auto simp: unread_def)
    moreover from this have "ahead g \<noteq> ''''" using assms(1) by simp
    ultimately have u: "unread ?h = unread g" "wf_source ?h" "unread g = ahead g" "ahead ?h = ahead g"
      using last_read(3-) by simp_all
    have "fold adv (take k' (ahead ?h)) (1, 0, (3, k' + 1)) = (q', k', la)" using la(2) u(4) by simp
    then have "longest g q' k' ?h"
      by (rule longestI) (use assms(1,6) state_facts [OF n(3)] u in auto)
    then have "cut g (yy_token Find q' k' ?h)" by (rule cut_find)
    then show ?thesis using last_read(2) assms(1,6) u(3,4) la(1) by (simp add: t proceeds_def)
  next
    case (more h s)
    let ?h = "h\<lparr>last_accepting := la\<rparr>"
    have u: "unread ?h = unread g" "wf_source ?h" "ahead ?h = ahead g @ s"
      "length (concat (source ?h)) < length (concat (source g))"
      using more(3-) by simp_all
    have "fold adv (take k' (ahead ?h)) (1, 0, (3, k' + 1)) = (q', k', la)" using la(2) assms(6) u(3) by simp
    then have r: "reached q' k' ?h" using n(3) assms(6) u(3) by (intro reachedI) simp_all
    have "yy_token Match q k g = yy_token Match q' k' ?h" using more(2,3) la(1) assms(6) by (simp add: t)
    moreover have "left_over ?h k' < left_over g k" using u(1,4) n(1) by (simp add: left_over_def)
    ultimately show ?thesis using r u(1,2) by (intro proceedsI)
  qed
qed

text \<open>One token, from any position in it.\<close>

lemma token_cut:
  assumes "unread g \<noteq> ''''" "wf_source g" "reached q k g"
  shows "cut g (yy_token Match q k g)"
  using assms
proof (induction "left_over g k" arbitrary: q k g rule: less_induct)
  case less
  have s: "q \<in> states" "k \<le> length (ahead g)" using less.prems(3) by (simp_all add: reached_def)
  then have "proceeds q k g"
  proof (cases rule: match_round)
    case (jam q' k' l')
    with round_jam [OF less.prems] show ?thesis by (simp add: proceeds_def)
  next
    case (null q' k' l')
    then show ?thesis
      using round_in_buffer [OF less.prems null] round_at_end [OF less.prems null] round_null(2) [OF less.prems null(1)]
      by linarith
  qed
  then show ?case
    unfolding proceeds_def by (metis cut_unread less.hyps less.prems(1))
qed

section \<open>The longest match is the token of the rules\<close>

fun token_action_number :: "token \<Rightarrow> nat" where
  "token_action_number Ack = 1"
| "token_action_number Nak = 2"
| "token_action_number (Packet p) = 3"
| "token_action_number (Other c) = 4"
| "token_action_number (Echo c) = 5"

lemma class_of_chars:
  "class_of c = 3 \<longleftrightarrow> c = CHR ''#''" "class_of c = 4 \<longleftrightarrow> c = CHR ''$''" "class_of c = 7 \<longleftrightarrow> isxdigit c"
proof -
  have "\<forall>c \<in> set [CHR 0x0A, CHR ''#'', CHR ''$'', CHR ''+'', CHR ''-'']. \<not> isxdigit c" by code_simp
  then show "class_of c = 3 \<longleftrightarrow> c = CHR ''#''" "class_of c = 4 \<longleftrightarrow> c = CHR ''$''" "class_of c = 7 \<longleftrightarrow> isxdigit c"
    by (auto simp: class_of_def)
qed

lemma munch_digit:
  assumes "q = 10 \<and> q' = 11 \<or> q = 11 \<and> q' = 12"
  shows "munch q k l [] = l" "munch q k l (c # w) = (if isxdigit c then munch q' (Suc k) l w else l)"
  using assms class_of_chars(3) [of c]
  by (auto simp: upd_def yy_accept_def) (auto simp: delta_def)

lemma munch_12 [simp]: "munch 12 k l w = (12, k)"
  using munch_final [of 12] by (simp add: final_states_def upd_def yy_accept_def)

text \<open>From the dollar sign or in the payload, whose characters are counted.\<close>

lemma munch_hash:
  "munch 10 k l t = (if 2 \<le> length t \<and> isxdigit (t ! 0) \<and> isxdigit (t ! 1) then (12, k + 2) else l)"
proof (cases t)
  case (Cons c u)
  then show ?thesis by (cases u) (simp_all add: munch_digit del: munch.simps)
qed (simp add: munch_digit del: munch.simps)

lemma upd_6_9 [simp]: "upd 6 k l = (6, k)" "upd 9 k l = l"
  by (simp_all add: upd_def yy_accept_def)

definition payload_length :: "string \<Rightarrow> nat" where
  "payload_length t = length (takeWhile (\<lambda>d. d \<noteq> CHR ''$'' \<and> d \<noteq> CHR ''#'') t)"

definition closes :: "string \<Rightarrow> bool" where
  "closes r \<longleftrightarrow> 3 \<le> length r \<and> r ! 0 = CHR ''#'' \<and> isxdigit (r ! 1) \<and> isxdigit (r ! 2)"

lemma munch_payload:
  assumes "q = 6 \<or> q = 9"
  shows "munch q k l t =
    (if closes (drop (payload_length t) t) then (12, k + payload_length t + 3) else upd q k l)"
  using assms
proof (induction t arbitrary: q k l)
  case (Cons d t)
  have q: "q \<noteq> 13" using Cons.prems by auto
  consider "d = CHR ''$''" | "d = CHR ''#''" | "d \<noteq> CHR ''$''" "d \<noteq> CHR ''#''" by blast
  then show ?case
  proof cases
    case 1
    then have "delta q (class_of d) = 13" using Cons.prems by (auto simp: delta_def class_of_def)
    with 1 q show ?thesis by (simp add: payload_length_def closes_def)
  next
    case 2
    then have "delta q (class_of d) = 10" using Cons.prems by (auto simp: delta_def class_of_def)
    with 2 q show ?thesis by (auto simp: payload_length_def closes_def munch_hash numeral_3_eq_3 numeral_2_eq_2)
  next
    case 3
    then have "delta q (class_of d) = 9" using Cons.prems class_of_chars [of d] class_of_bounds [of d] by (auto simp: delta_def)
    with 3 q Cons.IH [of 9 "k + 1" "upd q k l"] show ?thesis by (simp add: payload_length_def)
  qed
qed (simp add: payload_length_def closes_def)

lemma munch_single:
  assumes "c \<noteq> CHR ''$''"
  shows "munch 1 0 l (c # t) = (delta 1 (class_of c), 1)"
proof -
  have "delta 1 (class_of c) \<in> final_states"
    using assms by (auto simp: delta_def class_of_def final_states_def)
  from munch_final [OF this] show ?thesis using accepting_first(1) by (simp add: upd_def)
qed

text \<open>The reference cuts as the rules do.\<close>

lemma munch_next_token:
  assumes "next_token s = Some (t, r)"
  shows "let m = munch 1 0 (0, 0) s in
    accept (fst m) = token_action_number t \<and> take (snd m) s = token_text t \<and> drop (snd m) s = r"
proof -
  obtain c u where s: "s = c # u" using assms by (cases s) (auto simp: next_token_def)
  show ?thesis
  proof (cases "c = CHR ''$''")
    case True
    define n where "n = payload_length u"
    have "munch 1 0 (0, 0) s = munch 6 1 (0, 0) u" by (simp add: s True delta_def class_of_def)
    also have "\<dots> = (if closes (drop n u) then (12, n + 4) else (6, 1))"
      by (simp add: munch_payload n_def)
    finally have m: "munch 1 0 (0, 0) s = (if closes (drop n u) then (12, n + 4) else (6, 1))" .
    have tw: "takeWhile (\<lambda>d. d \<noteq> CHR ''$'' \<and> d \<noteq> CHR ''#'') u = take n u"
      by (metis n_def payload_length_def takeWhile_eq_take)
    have n_le: "n \<le> length u" by (simp add: n_def payload_length_def length_takeWhile_le)
    have nt: "next_token s = (if closes (drop n u) then Some (Packet (c # take n u @ take 3 (drop n u)), drop 3 (drop n u))
        else Some (Other c, u))"
      using n_le by (simp add: s True next_token_def Let_def closes_def tw min_def del: nth_drop)
    have acc: "accept 12 = 3" "accept 6 = 4" by (simp_all add: yy_accept_def)
    show ?thesis
    proof (cases "closes (drop n u)")
      case True
      have four: "n + 4 = Suc (n + 3)" by simp
      have "take (n + 4) s = c # take n u @ take 3 (drop n u)" "drop (n + 4) s = drop 3 (drop n u)"
        unfolding s four take_Suc_Cons drop_Suc_Cons take_add by (simp_all only: drop_drop add.commute)
      with True assms nt m acc show ?thesis by (auto simp: Let_def)
    next
      case False
      with assms nt m acc show ?thesis by (auto simp: Let_def s)
    qed
  next
    case False
    have acc: "accept 4 = 4" "accept 5 = 5" "accept 7 = 1" "accept 8 = 2" by (simp_all add: yy_accept_def)
    from False munch_single [OF False, of "(0, 0)" u] assms show ?thesis
      by (auto simp: s next_token_def delta_def class_of_def acc Let_def split: if_splits)
  qed
qed

section \<open>Properties\<close>

lemma reached_start: "reached 1 0 g"
  unfolding reached_def by (simp add: states_def)

lemma token_at_end:
  assumes "unread g = ''''" "wf_source g"
  shows "\<exists>g'. yy_token Match 1 0 g = Some (None, g')"
proof -
  let ?g = "g\<lparr>last_accepting := (3, 0 + 1)\<rparr>"
  have a: "ahead g = ''''" using assms(1) by (simp add: unread_def)
  have m: "yy_match (drop 0 (ahead g) @ [NUL, NUL]) 1 0 (last_accepting g) = Some (13, 0 + 2, (3, 0 + 1))"
    using yy_match_run [of 1 "''''" NUL "[]" 0 "last_accepting g"] a by (simp add: states_def)
  have "wf_source ?g" using assms(2) by simp
  then show ?thesis
  proof (cases rule: refill)
    case (more h s)
    then show ?thesis using assms by (cases "source g") (auto simp: unread_def wf_source_def)
  qed (use a yy_token_end [OF m] in auto)
qed

definition action_of :: "token \<Rightarrow> nat \<times> string" where
  "action_of t = (token_action_number t, token_text t)"

lemma yylex_tokens:
  assumes "wf_source g"
  shows "yylex g = Some (map action_of (tokens (unread g)))"
  using assms
proof (induction "length (unread g)" arbitrary: g rule: less_induct)
  case less
  show ?case
  proof (cases "next_token (unread g)")
    case None
    then have u: "unread g = ''''" by (auto simp: next_token_def Let_def split: list.splits if_splits)
    obtain g' where "yy_token Match 1 0 g = Some (None, g')" using token_at_end [OF u less.prems] by blast
    moreover have "tokens (unread g) = []" using None by (subst tokens.simps) simp
    ultimately show ?thesis by (subst yylex.simps) simp
  next
    case (Some x)
    obtain t r where t: "next_token (unread g) = Some (t, r)" using Some by (cases x) simp
    then have u: "unread g \<noteq> ''''" by (auto simp: next_token_def)
    from token_cut [OF u less.prems reached_start] munch_next_token [OF t]
    obtain g' where g': "yy_token Match 1 0 g = Some (Some (action_of t), g')" "unread g' = r" "wf_source g'"
      by (auto simp: cut_def Let_def action_of_def)
    moreover have "length (unread g') < length (unread g)" using next_token_text [OF t] g'(2) by simp
    from less.hyps [OF this g'(3)] have "yylex g' = Some (map action_of (tokens r))" using g'(2) by simp
    moreover have "tokens (unread g) = t # tokens r" using t by (subst tokens.simps) simp
    ultimately show ?thesis by (subst yylex.simps) simp
  qed
qed

lemma do_action_of: "do_action u js (action_of t) d = token_action u js t d"
  by (cases t) (simp_all add: do_action_def action_of_def)

lemma do_actions_of: "do_actions us (map action_of ts) d = scan_tokens us ts d"
proof (induction us ts d rule: scan_tokens.induct)
  case (3 u js us t ts d)
  then show ?case by (auto simp: then_do_def do_action_of split: bind_splits)
qed simp_all

lemma generated_actions:
  assumes "'''' \<notin> set reads" "length (concat reads) < 2 ^ 29"
  shows "yylex (yy_init reads) = Some (map action_of (tokens (concat reads)))"
proof -
  have u: "unread (yy_init reads) = concat reads" by (simp add: yy_init_def unread_def)
  have "wf_source (yy_init reads)"
    unfolding wf_source_def u using assms by (simp add: yy_init_def YY_BUF_SIZE_def)
  from yylex_tokens [OF this] show ?thesis unfolding u .
qed

lemma generated_session:
  assumes "'''' \<notin> set reads" "length (concat reads) < 2 ^ 29"
  shows "generated_gdb_scanner us reads p = gdb_scanner us (concat reads) p"
  by (simp add: generated_gdb_scanner_def gdb_scanner_def do_actions_of generated_actions [OF assms])

text \<open>
  C3. However the input, of less than 2^29 characters over the whole connection, is cut into
  reads that all deliver something, the table automaton of the generated scanner, with its
  backing up, its null characters and its refilled buffer, executes exactly the actions of the
  rules of scanner.l, so that a connection handled by it behaves as the rules say.
\<close>

theorem generated_scanner_follows_rules:
  assumes "'''' \<notin> set reads" "length (concat reads) < 2 ^ 29"
  shows "yylex (yy_init reads) = Some (map action_of (tokens (concat reads))) \<and>
    generated_gdb_scanner us reads p = gdb_scanner us (concat reads) p"
  using generated_actions [OF assms] generated_session [OF assms] by blast

theorem generated_scanner_follows_rules_witness:
  "yylex (yy_init [''+$'', ''g#6'', ''7x$'']) = Some [(1, ''+''), (3, ''$g#67''), (4, ''x''), (4, ''$'')]"
proof -
  have "map action_of (tokens (concat [''+$'', ''g#6'', ''7x$''])) = [(1, ''+''), (3, ''$g#67''), (4, ''x''), (4, ''$'')]"
    by code_simp
  then show ?thesis
    using generated_scanner_follows_rules [of "[''+$'', ''g#6'', ''7x$'']" "[]" example_core] by simp
qed

end
