(* ===== verification/Gdb_Connection.thy ===== *)
theory Gdb_Connection
  imports Flex
begin

text \<open>
  A connection from its bytes to the machine: the generated scanner, the actions of the rules and the
  protocol together serve the packets of a client in the order in which they are sent, however the bytes arrive.
\<close>

text \<open>The server as the client sees it: acknowledgements are ignored, the last packet is sent again on request.\<close>

fun serve :: "((nat \<Rightarrow> u32) \<times> (nat \<Rightarrow> u32) list) list \<Rightarrow> token list \<Rightarrow> gdb \<Rightarrow> result" where
  "serve us [] g = Some (Running, g)"
| "serve [] (t # ts) g = Some (Looping, g)"
| "serve ((u, js) # us) (t # ts) g =
     and_then
       (case t of
          Nak \<Rightarrow> gdb_transmit_packet g
        | Packet p \<Rightarrow> gdb_packet_analysis u js p g
        | _ \<Rightarrow> Some (Running, g)) (serve us ts)"

lemma action_serves:
  assumes "sendable t" "errors d = ''''"
  shows "token_action u js t d =
    map_option (\<lambda>(st, g). (st, d\<lparr>server := g\<rparr>))
      (case t of Nak \<Rightarrow> gdb_transmit_packet (server d) | Packet p \<Rightarrow> gdb_packet_analysis u js p (server d)
       | _ \<Rightarrow> Some (Running, server d))"
  using assms by (cases t) (auto simp: handle_error_def then_do_def on_server_def split: bind_splits)

lemma scan_tokens_serve:
  assumes "list_all sendable ts" "errors d = ''''"
  shows "scan_tokens us ts d = map_option (\<lambda>(st, g). (st, d\<lparr>server := g\<rparr>)) (serve us ts (server d))"
  using assms
proof (induction us ts d rule: scan_tokens.induct)
  case (1 us d)
  then show ?case by (simp add: handle_error_def)
next
  case (3 u js us t ts d)
  have e: "token_action u js t d =
      map_option (\<lambda>(st, g). (st, d\<lparr>server := g\<rparr>))
        (case t of Nak \<Rightarrow> gdb_transmit_packet (server d) | Packet p \<Rightarrow> gdb_packet_analysis u js p (server d)
         | _ \<Rightarrow> Some (Running, server d))" (is "_ = map_option _ ?r")
    using 3(2,3) by (intro action_serves) simp_all
  show ?case
  proof (cases ?r)
    case (Some x)
    obtain st g where x: "x = (st, g)" by (cases x)
    have "scan_tokens us ts (d\<lparr>server := g\<rparr>) = map_option (\<lambda>(st, g). (st, d\<lparr>server := g\<rparr>)) (serve us ts g)"
      using 3(1) [of "d\<lparr>server := g\<rparr>"] 3(2,3) by simp
    then show ?thesis using e Some x by (auto simp: then_do_def and_then_def)
  qed (use e in \<open>simp add: then_do_def and_then_def\<close>)
qed simp

text \<open>What a connection does is what the server does with the packets of the client.\<close>

lemma connection_serves:
  assumes "list_all sendable ts" "concat reads = concat (map token_text ts)" "'''' \<notin> set reads"
    "length (concat reads) < 2 ^ 29"
  shows "generated_gdb_scanner us reads p =
    map_option (\<lambda>(st, g). (st, \<lparr>server = g, errors = '''', echoed = ''''\<rparr>)) (serve us ts (gdb_init_data p))"
  using generated_session [OF assms(3,4), of us p]
  by (simp add: gdb_scanner_def assms(2) tokens_sendable [OF assms(1)] scan_tokens_serve [OF assms(1)])

section \<open>Writing and reading memory over a connection\<close>

lemma escaped_chars: "CHR ''$'' \<notin> set (escaped b)" "CHR ''#'' \<notin> set (escaped b)"
proof -
  let ?c = "char_of (unat b) :: char"
  have b: "b = of_char c" if "?c = c" for c
    unfolding that [symmetric] by simp
  have "CHR ''$'' \<notin> set (escaped b) \<and> CHR ''#'' \<notin> set (escaped b)"
  proof (cases "?c \<in> {CHR ''$'', CHR ''#'', CHR 0x7d}")
    case True
    then consider "b = of_char CHR ''$''" | "b = of_char CHR ''#''" | "b = of_char CHR 0x7d" using b by blast
    then show ?thesis by cases (simp; code_simp)+
  next
    case False
    then have "escaped b = [?c]" by (simp add: escaped_def Let_def)
    with False show ?thesis by auto
  qed
  then show "CHR ''$'' \<notin> set (escaped b)" "CHR ''#'' \<notin> set (escaped b)" by simp_all
qed

lemma hex_arg_chars:
  assumes "hex_arg ds n"
  shows "CHR ''$'' \<notin> set ds" "CHR ''#'' \<notin> set ds"
proof -
  have "\<not> isxdigit CHR ''$''" "\<not> isxdigit CHR ''#''" by code_simp+
  then show "CHR ''$'' \<notin> set ds" "CHR ''#'' \<notin> set ds" using assms by (auto simp: hex_arg_def list_all_iff)
qed

definition write_request :: "string \<Rightarrow> string \<Rightarrow> u8 list \<Rightarrow> token" where
  "write_request da dn bs = Packet (packet_of (CHR ''X'' # da @ '','' @ dn @ '':'' @ concat (map escaped bs)))"

definition read_request :: "string \<Rightarrow> string \<Rightarrow> token" where
  "read_request da dn = Packet (packet_of (CHR ''m'' # da @ '','' @ dn))"

lemma requests_sendable:
  assumes "hex_arg da a" "hex_arg dn n"
  shows "sendable (write_request da dn bs)" "sendable (read_request da dn)"
  using hex_arg_chars [OF assms(1)] hex_arg_chars [OF assms(2)] escaped_chars
  by (auto simp: write_request_def read_request_def)

text \<open>
  C5. From bytes to bytes, for 1 to 509 bytes inside the memory (memory_reply_overflows says
  what happens beyond) and less than 2^29 characters in all: a client that writes memory with X
  and reads it back with m, giving address and length in hexadecimal, its packets and
  acknowledgements cut into non-empty reads in any way, gets OK and then the bytes it wrote in
  hexadecimal; the memory holds them, the registers are untouched, nothing else is sent.
\<close>

theorem debugger_session_round_trip:
  assumes "wf_memory (mem p)" "hex_arg da (unat a)" "hex_arg dn (length bs)" "span (mem p) a (length bs)" "bs \<noteq> []"
    "length bs \<le> 509" "concat reads = concat (map token_text [Ack, write_request da dn bs, Ack, read_request da dn, Ack])"
    "'''' \<notin> set reads" "length (concat reads) < 2 ^ 29" "5 \<le> length us"
  shows "\<exists>d. generated_gdb_scanner us reads p = Some (Running, d) \<and>
    rev (sent (server d)) = [''+'', packet_of ''OK'', ''+'', packet_of (concat (map fmt_02x bs))] \<and>
    byte_at (mem (arm (server d))) = store_bytes (byte_at (mem p)) (unat a) bs \<and>
    regs (arm (server d)) = regs p \<and> errors d = '''' \<and> echoed d = ''''"
proof -
  let ?g = "gdb_init_data p" and ?ts = "[Ack, write_request da dn bs, Ack, read_request da dn, Ack]"
  have g: "arm ?g = p" "\<not> closed ?g" "sent ?g = []" by (simp_all add: gdb_init_data_def)
  obtain u1 u2 js2 u3 u4 u5 us' where us: "us = u1 # (u2, js2) # u3 # u4 # u5 # us'"
    using assms(10) by (auto simp: numeral_eq_Suc Suc_le_length_iff)
  obtain m where m: "gdb_packet_analysis u2 js2 (packet_of (CHR ''X'' # da @ '','' @ dn @ '':'' @ concat (map escaped bs))) ?g =
      Some (Running, answered ''OK'' ((acked ?g)\<lparr>arm := p\<lparr>mem := m\<rparr>\<rparr>))"
    "same_shape (mem p) m" "byte_at m = store_bytes (byte_at (mem p)) (unat a) bs"
    using write_packet [of ?g da a dn bs u2 js2] assms(1-5) g by auto
  let ?h = "answered ''OK'' ((acked ?g)\<lparr>arm := p\<lparr>mem := m\<rparr>\<rparr>)"
  have "wf_memory m" "span m a (length bs)"
    using same_shape_wf [OF m(2)] span_shape [OF m(2)] assms(1,4) by simp_all
  moreover have "load_bytes (byte_at m) (unat a) (length bs) = bs" by (simp add: m(3) load_store_bytes)
  ultimately have r: "gdb_packet_analysis u js (packet_of (CHR ''m'' # da @ '','' @ dn)) ?h =
      Some (Running, answered (concat (map fmt_02x bs)) (acked ?h))" for u js
    using read_packet [of ?h da a dn "length bs"] assms(2,3,6) g by simp
  have "serve us ?ts ?g = Some (Running, answered (concat (map fmt_02x bs)) (acked ?h))"
    using m(1) r by (cases u1; cases u3; cases u4; cases u5) (simp add: us write_request_def read_request_def and_then_def)
  moreover have "list_all sendable ?ts" using requests_sendable [OF assms(2,3)] by simp
  ultimately show ?thesis
    using connection_serves [OF _ assms(7-9), of us p] m(3) g by simp
qed

theorem debugger_session_round_trip_witness:
  "\<exists>d. generated_gdb_scanner (replicate 5 (\<lambda>_. 0, []))
      [''+'', token_text (write_request ''10'' ''2'' [0x24, 0x41]) @ ''+'', token_text (read_request ''10'' ''2'') @ ''+'']
      example_core = Some (Running, d) \<and>
    rev (sent (server d)) = [''+'', packet_of ''OK'', ''+'', packet_of (concat (map fmt_02x [0x24, 0x41]))] \<and>
    byte_at (mem (arm (server d))) = store_bytes (byte_at (mem example_core)) (unat (0x10 :: u32)) [0x24, 0x41] \<and>
    regs (arm (server d)) = regs example_core \<and> errors d = '''' \<and> echoed d = ''''"
proof (rule debugger_session_round_trip)
  show "wf_memory (mem example_core)" "span (mem example_core) 0x10 (length [0x24, 0x41 :: u8])"
    by (simp_all add: span_def example_memory_def new_memory_def Let_def wf_memory_def)
  show "hex_arg ''10'' (unat (0x10 :: u32))" "hex_arg ''2'' (length [0x24, 0x41 :: u8])"
    using hex_arg_example(1) hex_arg_example(2) [unfolded numeral_2_eq_2] by simp_all
qed (simp_all add: write_request_def read_request_def escaped_def Let_def)

end
