(* ===== verification/Self_Tests.thy ===== *)
theory Self_Tests
  imports Memory Registers Printf Loops
begin

text \<open>
  \<^verbatim>\<open>memory_test.c\<close> and \<^verbatim>\<open>registers_test.c\<close>: the two test programs of the repository, as functions to
  what they print, a string for each call of \<^verbatim>\<open>printf\<close>. What they test once is proved here for all values.
\<close>

section \<open>The test of the memory\<close>

text \<open>The bytes of a variable of the host in the order of their addresses.\<close>

definition word_object :: "u32 \<Rightarrow> u8 list" where
  "word_object v = word_bytes (is_big_endian) v"

definition half_object :: "u16 \<Rightarrow> u8 list" where
  "half_object v = half_bytes (is_big_endian) v"

definition print_test :: "int \<Rightarrow> string" where
  "print_test result = (if result \<noteq> 0 then ''Test succeded'' @ [CHR 0x0A] else ''TEST FAILED !!'' @ [CHR 0x0A])"

text \<open>The loop of \<open>compare\<close>, for the number of rounds that are left.\<close>

fun compare_loop :: "u8 list \<Rightarrow> u8 list \<Rightarrow> int \<Rightarrow> nat \<Rightarrow> nat \<Rightarrow> int \<Rightarrow> int option" where
  "compare_loop a b j_step 0 i j = Some 1"
| "compare_loop a b j_step (Suc left) i j = do {
     x \<leftarrow> arr_get a i;
     y \<leftarrow> arr_get b (nat j);
     if x \<noteq> y then Some 0 else compare_loop a b j_step left (i + 1) (j + j_step) }"

definition compare :: "u8 list \<Rightarrow> u8 list \<Rightarrow> nat \<Rightarrow> bool \<Rightarrow> int option" where
  "compare a b sz reverse =
     (let (j, j_step) = (if reverse then (int sz - 1, - 1) else (0, 1)) in compare_loop a b j_step sz 0 j)"

fun compare_with_sim_loop :: "u8 list \<Rightarrow> memory \<Rightarrow> int \<Rightarrow> u8 \<Rightarrow> nat \<Rightarrow> nat \<Rightarrow> int \<Rightarrow> int option" where
  "compare_with_sim_loop a m j_step value 0 i j = Some 1"
| "compare_with_sim_loop a m j_step value (Suc left) i j = do {
     (_, value) \<leftarrow> memory_read_byte m (word_of_int j) value;
     x \<leftarrow> arr_get a i;
     if x \<noteq> value then Some 0 else compare_with_sim_loop a m j_step value left (i + 1) (j + j_step) }"

definition compare_with_sim :: "u8 \<Rightarrow> u8 list \<Rightarrow> memory \<Rightarrow> nat \<Rightarrow> bool \<Rightarrow> int option" where
  "compare_with_sim junk a m sz reverse =
     (let (j, j_step) = (if reverse then (int sz - 1, - 1) else (0, 1)) in
      compare_with_sim_loop a m j_step junk sz 0 j)"

text \<open>A call on \<^verbatim>\<open>m[k]\<close>, which leaves the status aside.\<close>

definition call_at :: "nat \<Rightarrow> (memory \<Rightarrow> (int \<times> memory) option) \<Rightarrow> memory list \<Rightarrow> memory list option" where
  "call_at k f m = do {
     x \<leftarrow> arr_get m k;
     (_, x) \<leftarrow> f x;
     arr_set m k x }"

definition write_bytes :: "u8 list \<Rightarrow> memory list \<Rightarrow> memory list option" where
  "write_bytes position m =
     for_each (\<lambda>i m. do {
       b \<leftarrow> arr_get position i;
       m \<leftarrow> call_at 0 (\<lambda>x. memory_write_byte x (of_nat i) b) m;
       call_at 1 (\<lambda>x. memory_write_byte x (of_nat i) b) m }) [0, 1, 2, 3] m"

text \<open>
  The tests, for any contents of \<^verbatim>\<open>word_value\<close> and \<^verbatim>\<open>half_value\<close>. \<open>wr\<close>, \<open>hr\<close> and \<open>br\<close> are what the variables
  for the results hold before the first read.
\<close>

definition memory_tests :: "u32 \<Rightarrow> u16 \<Rightarrow> u32 \<Rightarrow> u16 \<Rightarrow> u8 \<Rightarrow> memory list \<Rightarrow> string list option" where
  "memory_tests word_value half_value wr hr br m = do {
     let same = nat is_big_endian;
     let other = nat (1 - is_big_endian);
     let position = word_object word_value;
     m \<leftarrow> write_bytes position m;
     x \<leftarrow> arr_get m same;
     (_, wr) \<leftarrow> memory_read_word x 0 wr;
     t1 \<leftarrow> compare position (word_object wr) 4 False;
     (_, hr) \<leftarrow> memory_read_half x 0 hr;
     t2 \<leftarrow> compare position (half_object hr) 2 False;
     y \<leftarrow> arr_get m other;
     (_, wr) \<leftarrow> memory_read_word y 0 wr;
     t3 \<leftarrow> compare position (word_object wr) 4 True;
     (_, hr) \<leftarrow> memory_read_half y 0 hr;
     t4 \<leftarrow> compare position (half_object hr) 2 True;
     m \<leftarrow> call_at same (\<lambda>x. memory_write_word x 0 word_value) m;
     x \<leftarrow> arr_get m same;
     t5 \<leftarrow> compare_with_sim br (word_object word_value) x 4 False;
     m \<leftarrow> call_at same (\<lambda>x. memory_write_half x 0 half_value) m;
     x \<leftarrow> arr_get m same;
     t6 \<leftarrow> compare_with_sim br (half_object half_value) x 2 False;
     m \<leftarrow> call_at other (\<lambda>x. memory_write_word x 0 word_value) m;
     y \<leftarrow> arr_get m other;
     t7 \<leftarrow> compare_with_sim br (word_object word_value) y 4 True;
     m \<leftarrow> call_at other (\<lambda>x. memory_write_half x 0 half_value) m;
     y \<leftarrow> arr_get m other;
     t8 \<leftarrow> compare_with_sim br (half_object half_value) y 2 True;
     Some
       [''Writing 4 bytes at address 0, then reading the word and half, '' @
          ''the result should depend on simulated memory endianess :'' @ [CHR 0x0A],
        ''- word read with the same endianess as me, '', print_test t1,
        ''- half read with the same endianess as me, '', print_test t2,
        ''- word read with a different endianess than me, '', print_test t3,
        ''- half read with a different endianess than me, '', print_test t4,
        ''Writing word and half at address 0, then reading the bytes, '' @
          ''the result should depend on simulated memory endianess :'' @ [CHR 0x0A],
        ''- word write with the same endianess as me, '', print_test t5,
        ''- half write with the same endianess as me, '', print_test t6,
        ''- word write with a different endianess than me, '', print_test t7,
        ''- half write with a different endianess than me, '', print_test t8] }"

definition memory_test_main ::
  "(nat \<Rightarrow> nat) \<Rightarrow> (nat \<Rightarrow> u32) \<Rightarrow> (nat \<Rightarrow> u32) \<Rightarrow> u32 \<Rightarrow> u16 \<Rightarrow> u8 \<Rightarrow> string list option" where
  "memory_test_main usable junk0 junk1 wr hr br = do {
     endianess \<leftarrow> arr_get [''little'', ''big''] (nat is_big_endian);
     m0 \<leftarrow> memory_create usable junk0 4 0;
     m1 \<leftarrow> memory_create usable junk1 4 1;
     ts \<leftarrow> memory_tests 0x11223344 0x5566 wr hr br [m0, m1];
     Some ((''I'' @ [CHR 0x27] @ ''m a '' @ endianess @ '' endian host'' @ [CHR 0x0A]) # ts) }"

section \<open>Every test succeeds\<close>

lemma compare_halves [simp]:
  "compare (a # b # as) [x, y] 2 False = Some (if a = x \<and> b = y then 1 else 0)"
  "compare (a # b # as) [x, y] 2 True = Some (if a = y \<and> b = x then 1 else 0)"
  by (simp_all add: compare_def numeral_2_eq_2)

lemma compare_words [simp]:
  "compare [a, b, c, d] [w, x, y, z] 4 False = Some (if a = w \<and> b = x \<and> c = y \<and> d = z then 1 else 0)"
  "compare [a, b, c, d] [w, x, y, z] 4 True = Some (if a = z \<and> b = y \<and> c = x \<and> d = w then 1 else 0)"
  by (simp_all add: compare_def numeral_eq_Suc)

text \<open>A memory of one word, and its bytes.\<close>

definition one_word :: "memory \<Rightarrow> bool" where
  "one_word m \<longleftrightarrow> wf_memory m \<and> mem_size m = 4"

lemma one_word_create: "one_word (new_memory junk 4 be)" "mem_be (new_memory junk 4 be) = be"
  by (simp_all add: one_word_def wf_new_memory) (simp_all add: new_memory_def)

lemma one_word_accesses:
  assumes "one_word m"
  shows "k < 4 \<Longrightarrow> memory_read_byte m (of_nat k) v = Some (SUCCESS, byte_at m k)"
    "memory_read_half m 0 h = Some (SUCCESS, half_at m 0)"
    "memory_read_word m 0 w = Some (SUCCESS, word_at m 0)"
    "k < 4 \<Longrightarrow> memory_write_byte m (of_nat k) v = Some (SUCCESS, set_byte m k v)"
    "memory_write_half m 0 h = Some (SUCCESS, set_half m 0 h)"
    "memory_write_word m 0 w = Some (SUCCESS, set_word m 0 w)"
proof -
  have w: "wf_memory m" and i: "in_memory m a \<longleftrightarrow> unat a < 4" for a
    using assms by (simp_all add: one_word_def in_memory_def)
  have k: "unat (of_nat k :: u32) = k" if "k < 4" for k
    using that by (simp add: unat_of_nat)
  show "k < 4 \<Longrightarrow> memory_read_byte m (of_nat k) v = Some (SUCCESS, byte_at m k)"
    "memory_read_half m 0 h = Some (SUCCESS, half_at m 0)"
    "memory_read_word m 0 w = Some (SUCCESS, word_at m 0)"
    "k < 4 \<Longrightarrow> memory_write_byte m (of_nat k) v = Some (SUCCESS, set_byte m k v)"
    "memory_write_half m 0 h = Some (SUCCESS, set_half m 0 h)"
    "memory_write_word m 0 w = Some (SUCCESS, set_word m 0 w)"
    by (simp_all add: memory_read_byte_eq [OF w] memory_read_half_eq [OF w] memory_read_word_eq [OF w]
        memory_write_byte_eq [OF w] memory_write_half_eq [OF w] memory_write_word_eq [OF w] i k)
qed

lemma one_word_bytes:
  assumes "one_word m"
  shows "k < 4 \<Longrightarrow> byte_at (set_byte m k v) = (byte_at m)(k := v)"
    "byte_at (set_half m 0 h) = store_bytes (byte_at m) 0 (half_bytes (mem_be m) h)"
    "byte_at (set_word m 0 w) = store_bytes (byte_at m) 0 (word_bytes (mem_be m) w)"
proof -
  have "0 < length (mem_data m)" using assms by (simp add: one_word_def wf_memory_def)
  then show "k < 4 \<Longrightarrow> byte_at (set_byte m k v) = (byte_at m)(k := v)"
    "byte_at (set_half m 0 h) = store_bytes (byte_at m) 0 (half_bytes (mem_be m) h)"
    "byte_at (set_word m 0 w) = store_bytes (byte_at m) 0 (word_bytes (mem_be m) w)"
    by (simp_all add: byte_at_set_byte byte_at_set_half byte_at_set_word)
qed

lemma one_word_set [simp]:
  "one_word (set_byte m k v) = one_word m" "one_word (set_half m a h) = one_word m"
  "one_word (set_word m a w) = one_word m"
  by (simp_all add: one_word_def)

text \<open>A variable read from the simulated memory has its bytes, reversed if the byte orders differ.\<close>

lemma objects_read:
  "half_object (half_at m 0) = (if mem_be m = 0 then [byte_at m 0, byte_at m 1] else [byte_at m 1, byte_at m 0])"
  "word_object (word_at m 0) =
     (if mem_be m = 0 then [byte_at m 0, byte_at m 1, byte_at m 2, byte_at m 3]
      else [byte_at m 3, byte_at m 2, byte_at m 1, byte_at m 0])"
  using half_at_bytes [of 0 m] word_at_bytes [of 0 m]
  by (auto simp: half_object_def word_object_def is_big_endian_def load_bytes_def upt_2 upt_4
      half_bytes_be [of "mem_be m"] word_bytes_be [of "mem_be m"] rev_swap)

lemma compare_with_sim_simps:
  assumes "one_word m"
  shows "compare_with_sim v [a, b] m 2 False = Some (if a = byte_at m 0 \<and> b = byte_at m 1 then 1 else 0)"
    "compare_with_sim v [a, b] m 2 True = Some (if a = byte_at m 1 \<and> b = byte_at m 0 then 1 else 0)"
    "compare_with_sim v [a, b, c, d] m 4 False =
      Some (if a = byte_at m 0 \<and> b = byte_at m 1 \<and> c = byte_at m 2 \<and> d = byte_at m 3 then 1 else 0)"
    "compare_with_sim v [a, b, c, d] m 4 True =
      Some (if a = byte_at m 3 \<and> b = byte_at m 2 \<and> c = byte_at m 1 \<and> d = byte_at m 0 then 1 else 0)"
proof -
  note byte_reads = one_word_accesses(1) [OF assms, of 0] one_word_accesses(1) [OF assms, of 1]
    one_word_accesses(1) [OF assms, of 2] one_word_accesses(1) [OF assms, of 3]
  show "compare_with_sim v [a, b] m 2 False = Some (if a = byte_at m 0 \<and> b = byte_at m 1 then 1 else 0)"
    "compare_with_sim v [a, b] m 2 True = Some (if a = byte_at m 1 \<and> b = byte_at m 0 then 1 else 0)"
    using byte_reads by (simp_all add: compare_with_sim_def numeral_2_eq_2)
  show "compare_with_sim v [a, b, c, d] m 4 False =
      Some (if a = byte_at m 0 \<and> b = byte_at m 1 \<and> c = byte_at m 2 \<and> d = byte_at m 3 then 1 else 0)"
    "compare_with_sim v [a, b, c, d] m 4 True =
      Some (if a = byte_at m 3 \<and> b = byte_at m 2 \<and> c = byte_at m 1 \<and> d = byte_at m 0 then 1 else 0)"
    using byte_reads by (simp_all add: compare_with_sim_def numeral_eq_Suc)
qed

lemma objects:
  "half_object h = [ucast h, ucast (drop_bit 8 h)]"
  "word_object w = [byte_of w 0, byte_of w 1, byte_of w 2, byte_of w 3]"
  by (simp_all add: half_object_def word_object_def half_bytes_def word_bytes_def is_big_endian_def)

lemma byte_writes:
  assumes "one_word m"
  shows "memory_write_byte m 0 b = Some (SUCCESS, set_byte m 0 b)" "memory_write_byte m 1 b = Some (SUCCESS, set_byte m 1 b)"
    "memory_write_byte m 2 b = Some (SUCCESS, set_byte m 2 b)" "memory_write_byte m 3 b = Some (SUCCESS, set_byte m 3 b)"
  using one_word_accesses(4) [OF assms, of 0] one_word_accesses(4) [OF assms, of 1]
    one_word_accesses(4) [OF assms, of 2] one_word_accesses(4) [OF assms, of 3] by simp_all

definition filled :: "u32 \<Rightarrow> memory \<Rightarrow> memory" where
  "filled w m = set_byte (set_byte (set_byte (set_byte m 0 (byte_of w 0)) 1 (byte_of w 1)) 2 (byte_of w 2)) 3 (byte_of w 3)"

lemma write_bytes_fills:
  assumes "one_word x" "one_word y"
  shows "write_bytes (word_object w) [x, y] = Some [filled w x, filled w y]"
  using assms by (simp add: write_bytes_def objects call_at_def byte_writes filled_def)

lemma filled_bytes:
  assumes "one_word m"
  shows "byte_at (filled w m) 0 = byte_of w 0" "byte_at (filled w m) 1 = byte_of w 1"
    "byte_at (filled w m) 2 = byte_of w 2" "byte_at (filled w m) 3 = byte_of w 3"
    "one_word (filled w m)" "mem_be (filled w m) = mem_be m"
  using assms by (simp_all add: filled_def one_word_bytes)

text \<open>The tests one by one: what is read from the bytes, and the bytes of what is written.\<close>

lemma read_tests:
  assumes "one_word m"
  shows "compare (word_object w) (word_object (word_at (filled w m) 0)) 4 (mem_be m \<noteq> 0) = Some 1"
    "compare (word_object w) (half_object (half_at (filled w m) 0)) 2 (mem_be m \<noteq> 0) = Some 1"
  unfolding objects(2) [of w] objects_read filled_bytes [OF assms]
  by (cases "mem_be m = 0"; simp only: compare_words compare_halves if_True if_False simp_thms)+

lemma write_tests:
  assumes "one_word m"
  shows "compare_with_sim v (word_object w) (set_word m 0 w) 4 (mem_be m \<noteq> 0) = Some 1"
    "compare_with_sim v (half_object h) (set_half m 0 h) 2 (mem_be m \<noteq> 0) = Some 1"
  by (cases "mem_be m = 0";
      simp add: objects compare_with_sim_simps assms one_word_bytes word_bytes_def half_bytes_def Let_def)+

definition test_report :: "string list" where
  "test_report =
     [''Writing 4 bytes at address 0, then reading the word and half, '' @
        ''the result should depend on simulated memory endianess :'' @ [CHR 0x0A],
      ''- word read with the same endianess as me, '', print_test 1,
      ''- half read with the same endianess as me, '', print_test 1,
      ''- word read with a different endianess than me, '', print_test 1,
      ''- half read with a different endianess than me, '', print_test 1,
      ''Writing word and half at address 0, then reading the bytes, '' @
        ''the result should depend on simulated memory endianess :'' @ [CHR 0x0A],
      ''- word write with the same endianess as me, '', print_test 1,
      ''- half write with the same endianess as me, '', print_test 1,
      ''- word write with a different endianess than me, '', print_test 1,
      ''- half write with a different endianess than me, '', print_test 1]"

lemma memory_tests_succeed:
  assumes x: "one_word x" "mem_be x = 0" and y: "one_word y" "mem_be y = 1"
  shows "memory_tests wv hv wr hr br [x, y] = Some test_report"
proof -
  note f = filled_bytes(5) [OF x(1), of wv] filled_bytes(5) [OF y(1), of wv]
    filled_bytes(6) [OF x(1), of wv] filled_bytes(6) [OF y(1), of wv]
  have g: "one_word (set_word (filled wv x) 0 wv)" "one_word (set_word (filled wv y) 0 wv)" using f by simp_all
  note t = read_tests [OF x(1), of wv] read_tests [OF y(1), of wv] write_tests(1) [OF f(1), of br wv]
    write_tests(1) [OF f(2), of br wv] write_tests(2) [OF g(1), of br hv] write_tests(2) [OF g(2), of br hv]
  show ?thesis
    using t [unfolded set_fields f(3,4) x(2) y(2)]
    by (simp add: memory_tests_def is_big_endian_def call_at_def write_bytes_fills x y f one_word_accesses test_report_def)
qed

text \<open>
  The report of the program does not depend on what its variables and its memories contain at first,
  nor would it on the values it writes.
\<close>

theorem memory_test_succeeds:
  "sizeof_memory_data \<le> usable sizeof_pointer \<Longrightarrow> memory_test_main usable junk0 junk1 wr hr br =
     Some ((''I'' @ [CHR 0x27] @ ''m a little endian host'' @ [CHR 0x0A]) # test_report)"
  "memory_tests wv hv wr hr br [new_memory junk0 4 0, new_memory junk1 4 1] = Some test_report"
  by (simp_all add: memory_test_main_def memory_create_def memory_tests_succeed one_word_create)
    (simp add: is_big_endian_def)

section \<open>The test of the registers\<close>

fun hex_digits :: "nat \<Rightarrow> string" where
  "hex_digits n = (if n < 16 then [hex_digit 97 n] else hex_digits (n div 16) @ [hex_digit 97 (n mod 16)])"

declare hex_digits.simps [simp del]

text \<open>\<^verbatim>\<open>%x\<close>.\<close>

definition fmt_x :: "u32 \<Rightarrow> string" where
  "fmt_x w = hex_digits (unat w)"

definition newline :: string where "newline = [CHR 0x0A]"

text \<open>The sources are in UTF-8: an e with an acute accent is two characters.\<close>

definition e_acute :: string where "e_acute = [CHR 0xC3, CHR 0xA9]"
definition a_grave :: string where "a_grave = [CHR 0xC3, CHR 0xA0]"
definition c_cedilla :: string where "c_cedilla = [CHR 0xC3, CHR 0xA7]"

definition afficher_mode :: "registers \<Rightarrow> string list" where
  "afficher_mode r =
     [''Mode courant: '',
      (let mode = get_mode r in
       if mode = 0x10 then ''USR'' @ newline
       else if mode = 0x11 then ''FIQ'' @ newline
       else if mode = 0x12 then ''IRQ'' @ newline
       else if mode = 0x13 then ''SVC'' @ newline
       else if mode = 0x17 then ''ABT'' @ newline
       else if mode = 0x1B then ''UND'' @ newline
       else if mode = 0x1F then ''SYS'' @ newline
       else ''Mode inexistant'' @ newline)]"

definition oui_non :: "bool \<Rightarrow> string" where
  "oui_non b = (if b then ''Oui'' @ newline else ''Non'' @ newline)"

text \<open>What is printed of the mode, and the loop over the registers, the CPSR and the SPSR.\<close>

definition show_mode :: "registers \<Rightarrow> string list" where
  "show_mode r = afficher_mode r @
     [''Mode courant poss'' @ [CHR 0xC3, CHR 0xA8] @ ''de un registre SPSR: '', oui_non (current_mode_has_spsr r),
      ''Mode courant privil'' @ e_acute @ ''gi'' @ e_acute @ '': '', oui_non (in_a_privileged_mode r)]"

definition show_registers :: "registers \<Rightarrow> string list option" where
  "show_registers r =
     for_each (\<lambda>i out. do {
       name \<leftarrow> arm_get_register_name (of_nat i);
       v \<leftarrow> read_register r (of_nat i);
       Some (out @ [''Le registre '' @ name @ '' contient la valeur '' @ fmt_x v @ newline]) }) [0..<18] []"

definition registers_test_main :: "string list option" where
  "registers_test_main = do {
     let r = registers_create;
     r \<leftarrow> write_cpsr r 0x1D3;
     let out = show_mode r;
     rs \<leftarrow> show_registers r;
     let out = out @ rs @
       [''On '' @ e_acute @ ''crit la valeur 0x00112233445566778899aabbccddeeff dans les registres 0 '' @ a_grave @
        '' 15, un octet par registre en commen'' @ c_cedilla @ ''ant par la gauche'' @ newline];
     (r, val) \<leftarrow> for_each (\<lambda>i (r, val). do {
       r \<leftarrow> write_register r (of_nat i) val;
       Some (r, val + 0x11) }) [0..<16] (r, 0);
     let out = out @ [''On passe le mode en USR'' @ newline];
     r \<leftarrow> write_cpsr r 0x1D0;
     rs \<leftarrow> show_registers r;
     Some (out @ show_mode r @ rs) }"

definition mode_report :: "string \<Rightarrow> string \<Rightarrow> string \<Rightarrow> string list" where
  "mode_report m has_spsr privileged =
     [''Mode courant: '', m @ newline,
      ''Mode courant poss'' @ [CHR 0xC3, CHR 0xA8] @ ''de un registre SPSR: '', has_spsr @ newline,
      ''Mode courant privil'' @ e_acute @ ''gi'' @ e_acute @ '': '', privileged @ newline]"

definition register_report :: "string list \<Rightarrow> string list" where
  "register_report vs =
     map (\<lambda>(name, v). ''Le registre '' @ name @ '' contient la valeur '' @ v @ newline) (zip arm_register_names vs)"

text \<open>
  After the switch to user mode the first thirteen registers and the program counter are those
  written in supervisor mode, the stack pointer and the link register are others. The last line is
  the first register of the bank of the fast interrupt: user mode has no saved status register.
\<close>

theorem registers_test_report:
  "registers_test_main = Some (
     mode_report ''SVC'' ''Oui'' ''Oui'' @ register_report (replicate 16 ''0'' @ [''1d3'', ''0'']) @
     [''On '' @ e_acute @ ''crit la valeur 0x00112233445566778899aabbccddeeff dans les registres 0 '' @ a_grave @
        '' 15, un octet par registre en commen'' @ c_cedilla @ ''ant par la gauche'' @ newline,
      ''On passe le mode en USR'' @ newline] @
     mode_report ''USR'' ''Non'' ''Non'' @
     register_report [''0'', ''11'', ''22'', ''33'', ''44'', ''55'', ''66'', ''77'', ''88'', ''99'', ''aa'', ''bb'', ''cc'',
       ''0'', ''0'', ''ff'', ''1d0'', ''0''])"
  "read_register \<lparr>reg_data = (replicate 38 0)[16 := 0x1D0, 17 := v]\<rparr> 17 = Some v"
  by code_simp+

end
