(* ===== verification/Arm_Run.thy ===== *)
theory Arm_Run
  imports Arm_Instruction
begin

text \<open>
  Whole steps: from the instruction word at the program counter to the state after it. The
  handlers are those of the other theories; what is added here is the fetch and the decoding.
\<close>

section \<open>The instruction to execute\<close>

definition instr :: "arm_core \<Rightarrow> u32" where
  "instr p = word_at (mem p) (unat (reg_val p 15))"

text \<open>The program counter designates a word of the memory, and the condition field is not 15.\<close>

definition fetchable :: "arm_core \<Rightarrow> bool" where
  "fetchable p \<longleftrightarrow> ok_word (mem p) (reg_val p 15) \<and> get_bits (instr p) 31 28 \<noteq> 0xF"

definition class_of :: "u32 \<Rightarrow> u32" where
  "class_of ins = get_bits ins 27 25"

lemma high_nibble: "c_shr (x AND 0xF0000000) 28 = get_bits x 31 28"
proof -
  have e: "(0xF0000000 :: u32) = push_bit 28 (mask 4)" by code_simp
  show ?thesis unfolding e by (intro word32_eqI) (auto simp: bits bit_simps get_bits_eq)
qed

lemma class_field: "c_shr (x AND 0x0E000000) 25 = class_of x"
proof -
  have e: "(0x0E000000 :: u32) = push_bit 25 (mask 3)" by code_simp
  show ?thesis unfolding e by (intro word32_eqI) (auto simp: class_of_def bits bit_simps get_bits_eq)
qed

lemma ucast_class: "(ucast (class_of x) :: u8) = k \<longleftrightarrow> unat (class_of x) = unat k"
  using get_bits_less [of 27 25 x] by (simp add: class_of_def word_unat_eq_iff unat_ucast_8)

lemma seen_pc_aligned:
  assumes "unat a mod 4 = 0"
  shows "pc_adjust 15 (a + 4) = a + 8"
proof -
  have "unat (a + 8) mod 4 = (unat a + 8) mod 4" by (simp add: unat_word_ariths mod_mod_cancel)
  also have "\<dots> = unat a mod 4" by (metis mod_add_self2 mod_mult_self2 add.assoc numeral_Bit0)
  finally have "take_bit 2 (a + 8) = 0" using assms by (simp add: take_bit_eq_mod mod_4_iff)
  then have "(a + 8) AND 0xFFFFFFFD = a + 8" by (rule pc_mask)
  then show ?thesis by (simp add: pc_adjust_def add.assoc)
qed

text \<open>The state an instruction starts from, once fetched.\<close>

lemma fetch_instr:
  assumes "ok_core p" "ok_word (mem p) (reg_val p 15)"
  shows "\<exists>q. arm_fetch v p = Some (SUCCESS, instr p, q) \<and> ok_core q \<and> cpsr q = cpsr p \<and>
    core_mode q = core_mode p \<and> spsr_val q = spsr_val p \<and> mem q = mem p \<and>
    cycle_count q = cycle_count p + 1 \<and> same_regs_but {15} p q \<and> reg_val q 15 = reg_val p 15 + 4 \<and>
    seen_pc q = reg_val p 15 + 8"
proof -
  have "reg_val p 15 mod 4 = 0" using assms(2) by (simp add: ok_word_def mod_4_iff)
  then have a: "fetch_address p = reg_val p 15" by (rule fetch_address_aligned)
  have "pc_adjust 15 (reg_val p 15 + 4) = reg_val p 15 + 8"
    using assms(2) by (intro seen_pc_aligned) (simp add: ok_word_def)
  then show ?thesis
    using assms by (simp add: arm_fetch_eq fetch_result_def a Let_def instr_def same_regs_but_def)
qed

lemma step_from_fetch:
  assumes "arm_fetch (junk 17) p = Some (SUCCESS, ins, q)" "get_bits ins 31 28 \<noteq> 0xF"
  shows "unat (class_of ins) = 5 \<Longrightarrow> arm_branch ins q = Some (0, q') \<Longrightarrow> arm_step junk p = Some (Return 0, q')"
    "unat (class_of ins) = 6 \<Longrightarrow> arm_exception UNDEFINED_INSTRUCTION q = Some q' \<Longrightarrow>
      arm_step junk p = Some (Return (uint UNDEFINED_INSTRUCTION), q')"
    "unat (class_of ins) = 7 \<Longrightarrow> arm_coprocessor_others_swi ins = Return (uint SOFTWARE_INTERRUPT) \<Longrightarrow>
      arm_exception SOFTWARE_INTERRUPT q = Some q' \<Longrightarrow> arm_step junk p = Some (Return (uint SOFTWARE_INTERRUPT), q')"
  using assms
  by (simp_all add: arm_step_def arm_execute_instruction_def high_nibble class_field ucast_class Let_def
      arm_coprocessor_load_store_def UNDEFINED_INSTRUCTION_def SOFTWARE_INTERRUPT_def)

definition example_with :: "u32 \<Rightarrow> arm_core" where
  "example_with ins = example_core\<lparr>mem := set_word example_memory 0 ins\<rparr>"

text \<open>
  C22. A step at an aligned branch instruction in memory whose condition field is not 15: the
  fetch, the decoding and the handler together go to the address of the instruction plus 8 plus
  four times the signed offset when the condition holds, except that for the least offset, field
  0x800000, the code goes forward by 2^25 instead of back, and to the next instruction
  otherwise; the return address is in the link register for BL, whether it branches or not.
\<close>

theorem branch_step:
  assumes "ok_core p" "fetchable p" "class_of (instr p) = 5"
  shows "\<exists>q. arm_step junk p = Some (Return 0, q) \<and> cpsr q = cpsr p \<and> mem q = mem p \<and>
    same_regs_but {14, 15} p q \<and>
    reg_val q 14 = (if bit (instr p) 24 then reg_val p 15 + 4 else reg_val p 14) \<and>
    reg_val q 15 =
      (if \<not> condition_holds (instr p) (cpsr p) then reg_val p 15 + 4
       else if take_bit 24 (instr p) = 2 ^ 23 then reg_val p 15 + 8 + 2 ^ 25
       else reg_val p 15 + 8 + 4 * simm24 (instr p))"
proof -
  have f: "ok_word (mem p) (reg_val p 15)" "get_bits (instr p) 31 28 \<noteq> 0xF"
    using assms(2) by (simp_all add: fetchable_def)
  obtain q where q: "arm_fetch (junk 17) p = Some (SUCCESS, instr p, q)" "ok_core q" "cpsr q = cpsr p"
    "mem q = mem p" "same_regs_but {15} p q" "reg_val q 15 = reg_val p 15 + 4" "seen_pc q = reg_val p 15 + 8"
    using fetch_instr [OF assms(1) f(1), of "junk 17"] by blast
  obtain r where r: "arm_branch (instr p) q = Some (0, r)" "cpsr r = cpsr q" "mem r = mem q"
    "same_regs_but {14, 15} q r"
    "reg_val r 14 = (if bit (instr p) 24 then seen_pc q - 4 else reg_val q 14)"
    "reg_val r 15 = (if condition_holds (instr p) (cpsr q) then seen_pc q - branch_offset (instr p) else reg_val q 15)"
    using arm_branch_effect [OF q(2), of "instr p"] by (auto simp: returns_iff)
  have "arm_step junk p = Some (Return 0, r)"
    using step_from_fetch(1) [of junk p "instr p" q r] q(1) f(2) r(1) assms(3) by simp
  moreover have "reg_val q 14 = reg_val p 14" using q(5) by (simp add: same_regs_but_def)
  moreover have "same_regs_but {14, 15} p r" using q(5) r(4) by (auto simp: same_regs_but_def)
  ultimately show ?thesis using q r by (simp add: branch_offset_eq)
qed

theorem branch_step_witness:
  "\<exists>q. arm_step (\<lambda>_. 0) (example_with 0xEB000002) = Some (Return 0, q) \<and>
    reg_val q 14 = 4 \<and> reg_val q 15 = 16"
proof -
  let ?p = "example_with 0xEB000002"
  have h: "ok_core ?p" "fetchable ?p" "class_of (instr ?p) = 5" by code_simp+
  have v: "bit (instr ?p) 24" "reg_val ?p 15 = 0" "condition_holds (instr ?p) (cpsr ?p)" "simm24 (instr ?p) = 2"
    "(take_bit 24 (instr ?p) = 2 ^ 23) = False"
    by code_simp+
  have "(0 :: u32) + 4 = 4" "(0 :: u32) + 8 + 4 * 2 = 16" by simp_all
  with branch_step [OF h, of "\<lambda>_. 0"] v show ?thesis by metis
qed

lemma step_exception:
  assumes "ok_core p" "fetchable p" "exception_mode e = Some m" "e \<noteq> RESET" "return_offset e = 0"
    "\<And>q. arm_fetch (junk 17) p = Some (SUCCESS, instr p, q) \<Longrightarrow> ok_core q \<Longrightarrow>
       (\<And>q'. arm_exception e q = Some q' \<Longrightarrow> arm_step junk p = Some (Return (uint e), q'))"
  shows "\<exists>q. arm_step junk p = Some (Return (uint e), q) \<and> ok_core q \<and>
    core_mode q = m \<and> spsr_val q = cpsr p \<and> mem q = mem p \<and>
    reg_val q 14 = reg_val p 15 + 8 \<and> reg_val q 15 = reg_val p 15 + 4"
proof -
  have f: "ok_word (mem p) (reg_val p 15)" using assms(2) by (simp add: fetchable_def)
  obtain q where q: "arm_fetch (junk 17) p = Some (SUCCESS, instr p, q)" "ok_core q" "cpsr q = cpsr p"
    "mem q = mem p" "reg_val q 15 = reg_val p 15 + 4" "seen_pc q = reg_val p 15 + 8"
    using fetch_instr [OF assms(1) f, of "junk 17"] by blast
  obtain off v pcv where v: "exception_entry e (cpsr q) = (v, off, pcv)" by (metis prod_cases3)
  have m: "valid_mode m" "m \<noteq> USR" "m \<noteq> SYS" using valid_exception_mode [OF assms(3)] by auto
  have mv: "mode_of v = m" using mode_of_entry [OF assms(3), of "cpsr q"] v by simp
  have off: "ucast off = (0 :: u32)" using entry_offset [OF assms(3), of "cpsr q"] v assms(5) by simp
  have "\<exists>q'. arm_exception e q = Some q' \<and> ok_core q' \<and> core_mode q' = m \<and> spsr_val q' = cpsr q \<and>
      mem q' = mem q \<and> reg_val q' 14 = seen_pc q \<and> reg_val q' 15 = reg_val q 15"
    using q(2) assms(4) m mv off by (simp add: arm_exception_def core_eqs v)
  then obtain q' where "arm_exception e q = Some q'" "ok_core q'" "core_mode q' = m" "spsr_val q' = cpsr q"
    "mem q' = mem q" "reg_val q' 14 = seen_pc q" "reg_val q' 15 = reg_val q 15"
    by blast
  with assms(6) [OF q(1,2)] q show ?thesis by simp
qed

text \<open>
  C30. A step at a SWI other than 0x123456 enters supervisor mode with the status saved; the
  link register is the address of the instruction plus 8 and the program counter is the next
  instruction, not the vector.
\<close>

theorem swi_step:
  assumes "ok_core p" "fetchable p" "class_of (instr p) = 7" "bit (instr p) 24"
    "take_bit 24 (instr p) \<noteq> 0x123456"
  shows "\<exists>q. arm_step junk p = Some (Return (uint SOFTWARE_INTERRUPT), q) \<and> ok_core q \<and>
    core_mode q = SVC \<and> spsr_val q = cpsr p \<and> mem q = mem p \<and>
    reg_val q 14 = reg_val p 15 + 8 \<and> reg_val q 15 = reg_val p 15 + 4"
proof (rule step_exception [OF assms(1,2)])
  have "instr p AND 0xFFFFFF = take_bit 24 (instr p)" by (simp add: take_bit_eq_mask mask_eq_exp_minus_1)
  then have "arm_coprocessor_others_swi (instr p) = Return (uint SOFTWARE_INTERRUPT)"
    using assms(4,5) by (simp add: arm_coprocessor_others_swi_def)
  then show "arm_step junk p = Some (Return (uint SOFTWARE_INTERRUPT), q')"
    if "arm_fetch (junk 17) p = Some (SUCCESS, instr p, q)" "arm_exception SOFTWARE_INTERRUPT q = Some q'" for q q'
    using step_from_fetch(3) [of junk p "instr p" q q'] that assms(2,3) by (simp add: fetchable_def)
qed (simp_all add: exception_mode_def return_offset_def exception_defs)

theorem swi_step_witness:
  "\<exists>q. arm_step (\<lambda>_. 0) (example_with 0xEF000001) = Some (Return (uint SOFTWARE_INTERRUPT), q) \<and>
    core_mode q = SVC \<and> reg_val q 15 = 4"
proof -
  let ?p = "example_with 0xEF000001"
  have h: "ok_core ?p" "fetchable ?p" "class_of (instr ?p) = 7" "bit (instr ?p) 24"
    "take_bit 24 (instr ?p) \<noteq> 0x123456" by code_simp+
  have v: "reg_val ?p 15 = 0" by code_simp
  from swi_step [OF h, of "\<lambda>_. 0"] show ?thesis by (simp add: v) blast
qed

theorem undefined_step:
  assumes "ok_core p" "fetchable p" "class_of (instr p) = 6"
  shows "\<exists>q. arm_step junk p = Some (Return (uint UNDEFINED_INSTRUCTION), q) \<and> ok_core q \<and>
    core_mode q = UND \<and> spsr_val q = cpsr p \<and> mem q = mem p \<and>
    reg_val q 14 = reg_val p 15 + 8 \<and> reg_val q 15 = reg_val p 15 + 4"
proof (rule step_exception [OF assms(1,2)])
  show "arm_step junk p = Some (Return (uint UNDEFINED_INSTRUCTION), q')"
    if "arm_fetch (junk 17) p = Some (SUCCESS, instr p, q)" "arm_exception UNDEFINED_INSTRUCTION q = Some q'" for q q'
    using step_from_fetch(2) [of junk p "instr p" q q'] that assms(2,3) by (simp add: fetchable_def)
qed (simp_all add: exception_mode_def return_offset_def exception_defs)

theorem undefined_step_witness:
  "\<exists>q. arm_step (\<lambda>_. 0) (example_with 0xEC000000) = Some (Return (uint UNDEFINED_INSTRUCTION), q) \<and>
    core_mode q = UND \<and> reg_val q 15 = 4"
proof -
  let ?p = "example_with 0xEC000000"
  have h: "ok_core ?p" "fetchable ?p" "class_of (instr ?p) = 6" by code_simp+
  have v: "reg_val ?p 15 = 0" by code_simp
  from undefined_step [OF h, of "\<lambda>_. 0"] show ?thesis by (simp add: v) blast
qed

section \<open>An undefined access\<close>

text \<open>
  The saved status registers are 0 after a reset, which is no mode, and the return from an
  exception restores them unchecked: after one such return the program's next access to a banked
  register leaves the array of registers.
\<close>

definition return_program :: memory where
  "return_program = set_word (new_memory (\<lambda>_. 0) 16 1) 0 0xE1B0F00E"

theorem return_after_reset_leaves_the_registers:
  "map_option fst (arm_create return_program trace_init 0 \<bind> arm_step (\<lambda>_. 0)) = Some (Return 0) \<and>
   (arm_create return_program trace_init 0 \<bind> arm_step (\<lambda>_. 0)) \<bind> (\<lambda>(r, p). arm_step (\<lambda>_. 0) p) = None"
  by code_simp

end
