(* ===== verification/Replay.thy ===== *)
theory Replay
  imports Arm_Run
begin

text \<open>
  The repository keeps recorded traces of its examples. Here the run of \<^verbatim>\<open>Trace-exemples/Trace-result/example1\<close>,
  the subtraction loop of \<^verbatim>\<open>Examples/example1.s\<close>, is replayed on the model through its first three cycles: a move, a branch with link and a subtraction that sets the flags.
\<close>

text \<open>The words the recording fetches, as gdb loads them at the address 0x20; the run starts at 0x28.\<close>

definition example1_program :: "(u32 \<times> u32) list" where
  "example1_program =
     [(0x20, 0xE2500001), (0x24, 0xE1A0F00E), (0x28, 0xE3A00005), (0x2C, 0xEBFFFFFB), (0x30, 0x1AFFFFFD), (0x34, 0xEF123456)]"

fun load_program :: "(u32 \<times> u32) list \<Rightarrow> memory \<Rightarrow> memory option" where
  "load_program [] m = Some m"
| "load_program ((a, v) # l) m = do {
     (_, m) \<leftarrow> memory_write_word m a v;
     load_program l m }"

definition example1_start :: "arm_core option" where
  "example1_start = do {
     m \<leftarrow> load_program example1_program (new_memory (\<lambda>_. 0) 64 1);
     p \<leftarrow> arm_create m (trace_add REGISTERS (trace_add MEMORY trace_init)) 0;
     r \<leftarrow> write_register (regs p) 15 0x28;
     Some (p\<lparr>regs := r\<rparr>) }"

fun steps :: "nat \<Rightarrow> arm_core \<Rightarrow> arm_core option" where
  "steps 0 p = Some p"
| "steps (Suc n) p = do {
     (_, p) \<leftarrow> arm_step (\<lambda>_. 0) p;
     steps n p }"

text \<open>The first twenty-seven lines of the recording.\<close>

definition example1_recorded :: "line list" where
  "example1_recorded =
    [Reg_line None 0 ''read'' ''CPSR'' '''' 0x00000000,
     Reg_line None 0 ''write'' ''CPSR'' '''' 0x000001D3,
     Reg_line None 0 ''write'' ''PC'' ''_USR'' 0x00000000,
     Reg_line None 1 ''read'' ''PC'' ''_SVC'' 0x0000002C,
     Mem_line None 1 '''' ''read'' 4 '', fetch'' 0x00000028 0xE3A00005,
     Reg_line None 1 ''write'' ''PC'' ''_SVC'' 0x0000002C,
     Reg_line None 1 ''read'' ''CPSR'' '''' 0x000001D3,
     Reg_line None 1 ''read'' ''CPSR'' '''' 0x000001D3,
     Reg_line None 1 ''read'' ''R00'' ''_SVC'' 0x00000000,
     Reg_line None 1 ''read'' ''CPSR'' '''' 0x000001D3,
     Reg_line None 1 ''write'' ''R00'' ''_SVC'' 0x00000005,
     Reg_line None 2 ''read'' ''PC'' ''_SVC'' 0x00000030,
     Mem_line None 2 '''' ''read'' 4 '', fetch'' 0x0000002C 0xEBFFFFFB,
     Reg_line None 2 ''write'' ''PC'' ''_SVC'' 0x00000030,
     Reg_line None 2 ''read'' ''PC'' ''_SVC'' 0x00000034,
     Reg_line None 2 ''write'' ''LR'' ''_SVC'' 0x00000030,
     Reg_line None 2 ''read'' ''CPSR'' '''' 0x000001D3,
     Reg_line None 2 ''write'' ''PC'' ''_SVC'' 0x00000020,
     Reg_line None 3 ''read'' ''PC'' ''_SVC'' 0x00000024,
     Mem_line None 3 '''' ''read'' 4 '', fetch'' 0x00000020 0xE2500001,
     Reg_line None 3 ''write'' ''PC'' ''_SVC'' 0x00000024,
     Reg_line None 3 ''read'' ''CPSR'' '''' 0x000001D3,
     Reg_line None 3 ''read'' ''CPSR'' '''' 0x000001D3,
     Reg_line None 3 ''read'' ''R00'' ''_SVC'' 0x00000005,
     Reg_line None 3 ''read'' ''CPSR'' '''' 0x000001D3,
     Reg_line None 3 ''write'' ''R00'' ''_SVC'' 0x00000004,
     Reg_line None 3 ''write'' ''CPSR'' '''' 0x200001D3]"

text \<open>The model prints what the simulator printed; two of the lines as text.\<close>

theorem example1_replayed:
  "map_option (\<lambda>p. rev (tr_output (tr p))) (example1_start \<bind> steps 3) = Some example1_recorded"
  by code_simp

lemma example1_text:
  "render (example1_recorded ! 4) = ''Cycle 1, Mem read (4 bytes, fetch) addr: 00000028, val: E3A00005'' @ [CHR 0x0A]"
  "render (example1_recorded ! 15) = ''Cycle 2, Register write, LR_SVC, val: 00000030'' @ [CHR 0x0A]"
  by code_simp+

end
