(* ===== verification/Location.thy ===== *)
theory Location
  imports Arm_Core
begin

text \<open>
  \<^verbatim>\<open>trace_location.h\<close>: the macros that replace every access of the instructions by the same access between a
  push and a pop of the position of the call. The instructions are modelled without them; here it is
  shown that they make no difference but the positions that are printed.
\<close>

section \<open>The macros\<close>

text \<open>
  A value is returned as \<^verbatim>\<open>access(p, ...)+END_LOCATION\<close>. The order of the two calls of the sum is not
  specified: \<open>end_first\<close> is the choice of the compiler.
\<close>

definition located :: "bool \<Rightarrow> string \<Rightarrow> int \<Rightarrow> (arm_core \<Rightarrow> ('r \<times> arm_core) option) \<Rightarrow> arm_core \<Rightarrow> ('r \<times> arm_core) option" where
  "located end_first src l f p = do {
     t \<leftarrow> trace_start_location src l (tr p);
     let p = p\<lparr>tr := t\<rparr>;
     if end_first then do {
       t \<leftarrow> trace_end_location (tr p);
       f (p\<lparr>tr := t\<rparr>)
     } else do {
       (r, p) \<leftarrow> f p;
       t \<leftarrow> trace_end_location (tr p);
       Some (r, p\<lparr>tr := t\<rparr>) } }"

text \<open>The writes of registers return nothing, and commas give the order.\<close>

definition located_write :: "string \<Rightarrow> int \<Rightarrow> (arm_core \<Rightarrow> arm_core option) \<Rightarrow> arm_core \<Rightarrow> arm_core option" where
  "located_write src l f p = do {
     t \<leftarrow> trace_start_location src l (tr p);
     p \<leftarrow> f (p\<lparr>tr := t\<rparr>);
     t \<leftarrow> trace_end_location (tr p);
     Some (p\<lparr>tr := t\<rparr>) }"

section \<open>The accesses\<close>

text \<open>The accesses that have a macro. A memory read has the former content of its variable as an argument.\<close>

datatype arm_access =
    Fetch u32
  | Read_register u8 | Read_usr_register u8 | Read_cpsr | Read_spsr
  | Write_register u8 u32 | Write_usr_register u8 u32 | Write_cpsr u32 | Write_spsr u32
  | Read_byte u32 u8 | Read_half u32 u16 | Read_word u32 u32
  | Write_byte u32 u8 | Write_half u32 u16 | Write_word u32 u32

text \<open>What the caller gets: the returned value and the variable behind the pointer.\<close>

type_synonym answer = "int \<times> u32"

definition read_only :: "(arm_core \<Rightarrow> (u32 \<times> arm_core) option) \<Rightarrow> arm_core \<Rightarrow> (answer \<times> arm_core) option" where
  "read_only f p = map_option (\<lambda>(v, p). ((0, v), p)) (f p)"

definition status_and :: "(arm_core \<Rightarrow> (int \<times> 'w::len word \<times> arm_core) option) \<Rightarrow> arm_core \<Rightarrow> (answer \<times> arm_core) option" where
  "status_and f p = map_option (\<lambda>(n, v, p). ((n, ucast v), p)) (f p)"

definition status_only :: "(arm_core \<Rightarrow> (int \<times> arm_core) option) \<Rightarrow> arm_core \<Rightarrow> (answer \<times> arm_core) option" where
  "status_only f p = map_option (\<lambda>(n, p). ((n, 0), p)) (f p)"

definition no_answer :: "(arm_core \<Rightarrow> arm_core option) \<Rightarrow> arm_core \<Rightarrow> (answer \<times> arm_core) option" where
  "no_answer f p = map_option (\<lambda>p. ((0, 0), p)) (f p)"

fun access_plain :: "arm_access \<Rightarrow> arm_core \<Rightarrow> (answer \<times> arm_core) option" where
  "access_plain (Fetch v) = status_and (arm_fetch v)"
| "access_plain (Read_register rg) = read_only (arm_read_register rg)"
| "access_plain (Read_usr_register rg) = read_only (arm_read_usr_register rg)"
| "access_plain Read_cpsr = read_only arm_read_cpsr"
| "access_plain Read_spsr = read_only arm_read_spsr"
| "access_plain (Write_register rg v) = no_answer (arm_write_register rg v)"
| "access_plain (Write_usr_register rg v) = no_answer (arm_write_usr_register rg v)"
| "access_plain (Write_cpsr v) = no_answer (arm_write_cpsr v)"
| "access_plain (Write_spsr v) = no_answer (arm_write_spsr v)"
| "access_plain (Read_byte a v) = status_and (arm_read_byte a v)"
| "access_plain (Read_half a v) = status_and (arm_read_half a v)"
| "access_plain (Read_word a v) = status_and (arm_read_word a v)"
| "access_plain (Write_byte a v) = status_only (arm_write_byte a v)"
| "access_plain (Write_half a v) = status_only (arm_write_half a v)"
| "access_plain (Write_word a v) = status_only (arm_write_word a v)"

fun access_macro :: "bool \<Rightarrow> string \<Rightarrow> int \<Rightarrow> arm_access \<Rightarrow> arm_core \<Rightarrow> (answer \<times> arm_core) option" where
  "access_macro e src l (Write_register rg v) = no_answer (located_write src l (arm_write_register rg v))"
| "access_macro e src l (Write_usr_register rg v) = no_answer (located_write src l (arm_write_usr_register rg v))"
| "access_macro e src l (Write_cpsr v) = no_answer (located_write src l (arm_write_cpsr v))"
| "access_macro e src l (Write_spsr v) = no_answer (located_write src l (arm_write_spsr v))"
| "access_macro e src l a = located e src l (access_plain a)"

text \<open>
  A program that touches the machine only by accesses: from the answers it has had, the next access
  and the position of its call, or its end. \<open>n\<close> bounds the number of accesses.
\<close>

type_synonym strategy = "answer list \<Rightarrow> (string \<times> int \<times> arm_access) option"

fun plays :: "(string \<Rightarrow> int \<Rightarrow> arm_access \<Rightarrow> arm_core \<Rightarrow> (answer \<times> arm_core) option) \<Rightarrow> strategy \<Rightarrow>
    nat \<Rightarrow> answer list \<Rightarrow> arm_core \<Rightarrow> (answer list \<times> arm_core) option" where
  "plays acc prog 0 rs p = Some (rs, p)"
| "plays acc prog (Suc n) rs p =
     (case prog rs of
        None \<Rightarrow> Some (rs, p)
      | Some (src, l, a) \<Rightarrow> do {
          (r, p) \<leftarrow> acc src l a p;
          plays acc prog n (rs @ [r]) p })"

section \<open>Positions erased\<close>

fun unlocated :: "line \<Rightarrow> line" where
  "unlocated (Mem_line loc c s ty sz ca a v) = Mem_line None c s ty sz ca a v"
| "unlocated (Reg_line loc c ty rg m v) = Reg_line None c ty rg m v"
| "unlocated (Text s) = Text s"

definition erased :: "trace \<Rightarrow> trace" where
  "erased t = t\<lparr>tr_output := map unlocated (tr_output t), location_stack := []\<rparr>"

definition without_positions :: "arm_core \<Rightarrow> arm_core" where
  "without_positions p = p\<lparr>tr := erased (tr p)\<rparr>"

lemma without_positions_fields [simp]:
  "cycle_count (without_positions p) = cycle_count p" "regs (without_positions p) = regs p"
  "mem (without_positions p) = mem p" "tr (without_positions p) = erased (tr p)"
  by (simp_all add: without_positions_def)

lemma erased_fields [simp]:
  "tr_enabled (erased t) = tr_enabled t" "trace_flags (erased t) = trace_flags t"
  "last_address (erased t) = last_address t" "location_stack (erased t) = []"
  "erased (t\<lparr>location_stack := s\<rparr>) = erased t"
  by (simp_all add: erased_def)

lemma print_location_erased: "trace_print_location (erased t) = None"
  by (simp add: trace_print_location_def)

lemma erased_line:
  "erased (t\<lparr>last_address := a, tr_output := ls\<rparr>) = erased t\<lparr>last_address := a, tr_output := map unlocated ls\<rparr>"
  "erased (t\<lparr>tr_output := ls\<rparr>) = erased t\<lparr>tr_output := map unlocated ls\<rparr>"
  "tr_output (erased t) = map unlocated (tr_output t)"
  by (simp_all add: erased_def)

lemma trace_memory_erased:
  "trace_memory c ty sz ca a v (erased t) = map_option erased (trace_memory c ty sz ca a v t)"
  by (cases "arr_get trace_memory_type (unat ty)"; cases "arr_get trace_memory_cause (unat ca)")
    (simp_all add: trace_memory_def Let_def erased_line trace_memory_seq_def print_location_erased
      trace_print_location_def del: arr_get_None)

lemma trace_register_erased:
  "trace_register c ty rg m v (erased t) = map_option erased (trace_register c ty rg m v t)"
  by (cases "arm_get_mode_name m"; cases "arr_get trace_register_type (unat ty)"; cases "arm_get_register_name rg")
    (simp_all add: trace_register_def Let_def erased_line print_location_erased del: arr_get_None)

text \<open>The interface: an access does not depend on the positions and leaves their stack alone.\<close>

locale location_blind =
  fixes f :: "arm_core \<Rightarrow> ('r \<times> arm_core) option"
  assumes blind: "f (without_positions p) = map_option (map_prod id without_positions) (f p)"
    and keeps: "f p = Some (r, q) \<Longrightarrow> same_setup (tr p) (tr q)"
begin

lemma blind_eq: "without_positions p = without_positions q \<Longrightarrow>
    map_option (map_prod id without_positions) (f p) = map_option (map_prod id without_positions) (f q)"
  by (metis blind)

end

lemma blind_accesses:
  "arm_read_register rg (without_positions p) = map_option (map_prod id without_positions) (arm_read_register rg p)"
  "arm_read_usr_register rg (without_positions p) = map_option (map_prod id without_positions) (arm_read_usr_register rg p)"
  "arm_read_cpsr (without_positions p) = map_option (map_prod id without_positions) (arm_read_cpsr p)"
  "arm_read_spsr (without_positions p) = map_option (map_prod id without_positions) (arm_read_spsr p)"
  "arm_write_register rg v (without_positions p) = map_option without_positions (arm_write_register rg v p)"
  "arm_write_usr_register rg v (without_positions p) = map_option without_positions (arm_write_usr_register rg v p)"
  "arm_write_cpsr v (without_positions p) = map_option without_positions (arm_write_cpsr v p)"
  "arm_write_spsr v (without_positions p) = map_option without_positions (arm_write_spsr v p)"
  by (auto simp: arm_read_register_def arm_read_usr_register_def arm_read_cpsr_def arm_read_spsr_def
      arm_write_register_def arm_write_usr_register_def arm_write_cpsr_def arm_write_spsr_def
      trace_register_erased without_positions_def Let_def split: bind_splits)

lemma blind_memory:
  "arm_read_byte a x (without_positions p) = map_option (\<lambda>(n, x, p). (n, x, without_positions p)) (arm_read_byte a x p)"
  "arm_read_half a y (without_positions p) = map_option (\<lambda>(n, y, p). (n, y, without_positions p)) (arm_read_half a y p)"
  "arm_read_word a z (without_positions p) = map_option (\<lambda>(n, z, p). (n, z, without_positions p)) (arm_read_word a z p)"
  "arm_write_byte a x (without_positions p) = map_option (map_prod id without_positions) (arm_write_byte a x p)"
  "arm_write_half a y (without_positions p) = map_option (map_prod id without_positions) (arm_write_half a y p)"
  "arm_write_word a z (without_positions p) = map_option (map_prod id without_positions) (arm_write_word a z p)"
  by (auto simp: arm_read_byte_def arm_read_half_def arm_read_word_def arm_write_byte_def arm_write_half_def
      arm_write_word_def trace_memory_erased without_positions_def split: bind_splits)

lemma without_positions_tr:
  "without_positions (p\<lparr>tr := t\<rparr>) = without_positions p\<lparr>tr := erased t\<rparr>"
  "without_positions (p\<lparr>cycle_count := c\<rparr>) = without_positions p\<lparr>cycle_count := c\<rparr>"
  by (simp_all add: without_positions_def)

lemma blind_fetch:
  "arm_fetch v (without_positions p) = map_option (\<lambda>(n, v, p). (n, v, without_positions p)) (arm_fetch v p)"
proof -
  have c: "without_positions p\<lparr>cycle_count := cycle_count p + 1\<rparr> = without_positions (p\<lparr>cycle_count := cycle_count p + 1\<rparr>)"
    by (simp add: without_positions_tr)
  show ?thesis
    by (auto simp: arm_fetch_def c blind_accesses trace_memory_erased Let_def
        without_positions_tr [symmetric] split: bind_splits)
qed

lemma access_blind: "access_plain a (without_positions p) = map_option (map_prod id without_positions) (access_plain a p)"
  by (cases a) (auto simp: read_only_def status_and_def status_only_def no_answer_def blind_accesses blind_memory
      blind_fetch option.map_comp comp_def intro!: option.map_cong)

lemma access_evolves: "access_plain a p = Some (r, q) \<Longrightarrow> evolves p q"
  by (cases a) (auto simp: read_only_def status_and_def status_only_def no_answer_def dest: evolves_accesses evolves_fetch)

interpretation any_access: location_blind "access_plain a" for a
  by unfold_locales (simp_all add: access_blind, auto dest: access_evolves simp: evolves_def)

section \<open>The macros make no difference\<close>

text \<open>There is room for one more position.\<close>

definition has_room :: "arm_core \<Rightarrow> bool" where
  "has_room p \<longleftrightarrow> (tr_enabled (tr p) \<longrightarrow> length (location_stack (tr p)) < 128)"

lemma has_room_setup: "same_setup (tr p) (tr q) \<Longrightarrow> has_room q = has_room p"
  by (simp add: has_room_def same_setup_def)

context location_blind begin

lemma located_cases:
  assumes "has_room p"
  obtains "located e src l f p = f p"
  | p' where "without_positions p' = without_positions p" "tr_enabled (tr p')"
      "location_stack (tr p') = (src, l) # location_stack (tr p)" "trace_flags (tr p') = trace_flags (tr p)" "tr_enabled (tr p)"
      "located e src l f p =
         map_option (\<lambda>(r, q). (r, q\<lparr>tr := (tr q)\<lparr>location_stack := location_stack (tr p)\<rparr>\<rparr>)) (f p')"
proof (cases "tr_enabled (tr p)")
  case False
  have "located e src l f p = f p"
  proof (cases "f p")
    case (Some x)
    obtain r q where x: "x = (r, q)" by (cases x)
    with keeps [of p r q] Some False have "\<not> tr_enabled (tr q)" by (simp add: same_setup_def)
    with Some x False show ?thesis by (simp add: located_def trace_start_location_def trace_end_location_def)
  qed (use False in \<open>simp add: located_def trace_start_location_def trace_end_location_def\<close>)
  then show thesis by (rule that(1))
next
  case True
  let ?p = "p\<lparr>tr := (tr p)\<lparr>location_stack := (src, l) # location_stack (tr p)\<rparr>\<rparr>"
  show thesis
  proof (cases e)
    case True
    with \<open>tr_enabled (tr p)\<close> assms have "located e src l f p = f p"
      by (simp add: located_def trace_start_location_def trace_end_location_def has_room_def)
    then show thesis by (rule that(1))
  next
    case False
    have "located e src l f p =
        map_option (\<lambda>(r, q). (r, q\<lparr>tr := (tr q)\<lparr>location_stack := location_stack (tr p)\<rparr>\<rparr>)) (f ?p)"
    proof (cases "f ?p")
      case (Some x)
      obtain r q where x: "x = (r, q)" by (cases x)
      with keeps [of ?p r q] Some have "tr_enabled (tr q) = tr_enabled (tr p)"
        "location_stack (tr q) = (src, l) # location_stack (tr p)" by (simp_all add: same_setup_def)
      with Some x False \<open>tr_enabled (tr p)\<close> assms show ?thesis
        by (simp add: located_def trace_start_location_def trace_end_location_def has_room_def)
    qed (use False \<open>tr_enabled (tr p)\<close> assms in
      \<open>simp add: located_def trace_start_location_def trace_end_location_def has_room_def\<close>)
    then show thesis
      using True by (intro that(2) [of ?p]) (simp_all add: without_positions_def)
  qed
qed

lemma located_same:
  assumes "has_room p"
  shows "map_option (map_prod id without_positions) (located e src l f p) = map_option (map_prod id without_positions) (f p)"
proof (cases rule: located_cases [OF assms, where e = e and src = src and l = l])
  case (2 p')
  have "map_option (map_prod id without_positions) (located e src l f p) = map_option (map_prod id without_positions) (f p')"
    unfolding 2(6) option.map_comp by (intro option.map_cong) (auto simp: without_positions_def)
  with blind_eq [OF 2(1)] show ?thesis by simp
qed simp

lemma located_keeps:
  assumes "has_room p" "located e src l f p = Some (r, q)"
  shows "same_setup (tr p) (tr q)"
proof (cases rule: located_cases [OF assms(1), where e = e and src = src and l = l])
  case 1
  with assms(2) show ?thesis by (auto intro: keeps)
next
  case (2 p')
  from assms(2) [unfolded 2(6)] obtain q' where "f p' = Some (r, q')"
    "q = q'\<lparr>tr := (tr q')\<lparr>location_stack := location_stack (tr p)\<rparr>\<rparr>" by auto
  with keeps [of p' r q'] 2(2-5) show ?thesis by (simp add: same_setup_def)
qed

end

lemma located_write_eq: "no_answer (located_write src l f) p = located False src l (no_answer f) p"
  by (auto simp: no_answer_def located_write_def located_def split: bind_splits)

lemma access_macro_located: "\<exists>e'. access_macro e src l a p = located e' src l (access_plain a) p"
  by (cases a) (auto simp: located_write_eq)

lemma macro_same:
  assumes "has_room p"
  shows "map_option (map_prod id without_positions) (access_macro e src l a p) =
    map_option (map_prod id without_positions) (access_plain a p)"
  using access_macro_located [of e src l a p] any_access.located_same [OF assms] by auto

lemma macro_keeps: "has_room p \<Longrightarrow> access_macro e src l a p = Some (r, q) \<Longrightarrow> same_setup (tr p) (tr q)"
  using access_macro_located [of e src l a p] by (auto intro: any_access.located_keeps [OF _ sym])

section \<open>The positions that are printed\<close>

fun position :: "line \<Rightarrow> location" where
  "position (Mem_line loc c s ty sz ca a v) = loc"
| "position (Reg_line loc c ty rg m v) = loc"
| "position (Text s) = None"

definition prints_at :: "location \<Rightarrow> trace \<Rightarrow> trace \<Rightarrow> bool" where
  "prints_at loc t u \<longleftrightarrow> same_setup t u \<and>
     (\<exists>ls. tr_output u = ls @ tr_output t \<and> (\<forall>x \<in> set ls. position x = loc))"

lemma prints_at_refl [simp]: "prints_at loc t t"
  by (simp add: prints_at_def)

lemma prints_at_trans:
  assumes "prints_at loc t u" "prints_at loc u v"
  shows "prints_at loc t v"
proof -
  obtain ks ls where "tr_output u = ks @ tr_output t" "\<forall>x \<in> set ks. position x = loc"
    "tr_output v = ls @ tr_output u" "\<forall>x \<in> set ls. position x = loc"
    using assms by (auto simp: prints_at_def)
  then have "tr_output v = (ls @ ks) @ tr_output t" "\<forall>x \<in> set (ls @ ks). position x = loc" by auto
  with assms show ?thesis by (auto simp: prints_at_def intro: same_setup_trans)
qed

lemma print_location_setup: "same_setup t u \<Longrightarrow> trace_print_location u = trace_print_location t"
  by (simp add: same_setup_def trace_print_location_def)

lemma trace_prints_at:
  "trace_memory c ty sz ca a v t = Some u \<Longrightarrow> prints_at (trace_print_location t) t u"
  "trace_register c ty rg m v t = Some u \<Longrightarrow> prints_at (trace_print_location t) t u"
proof -
  assume t: "trace_memory c ty sz ca a v t = Some u"
  have "trace_print_location (t\<lparr>last_address := a\<rparr>) = trace_print_location t" by (simp add: trace_print_location_def)
  with t have "\<exists>ls. tr_output u = ls @ tr_output t \<and> (\<forall>x \<in> set ls. position x = trace_print_location t)"
    by (auto simp: trace_memory_def Let_def bind_eq_Some_conv split: if_split_asm)
  then show "prints_at (trace_print_location t) t u" using trace_memory_setup [OF t] by (simp add: prints_at_def)
next
  assume t: "trace_register c ty rg m v t = Some u"
  then have "\<exists>ls. tr_output u = ls @ tr_output t \<and> (\<forall>x \<in> set ls. position x = trace_print_location t)"
    by (auto simp: trace_register_def Let_def bind_eq_Some_conv split: if_split_asm)
  then show "prints_at (trace_print_location t) t u" using trace_register_setup [OF t] by (simp add: prints_at_def)
qed

lemma accesses_print_at:
  "arm_read_register rg p = Some (v, q) \<Longrightarrow> prints_at (trace_print_location (tr p)) (tr p) (tr q)"
  "arm_write_register rg v p = Some q \<Longrightarrow> prints_at (trace_print_location (tr p)) (tr p) (tr q)"
  by (auto simp: arm_read_register_def arm_write_register_def Let_def bind_eq_Some_conv dest: trace_prints_at)

lemma fetch_prints_at:
  assumes "arm_fetch v p = Some (n, w, q)"
  shows "prints_at (trace_print_location (tr p)) (tr p) (tr q)"
proof -
  let ?l = "trace_print_location (tr p)"
  from assms obtain pc p1 t where *: "arm_read_register 15 (p\<lparr>cycle_count := cycle_count p + 1\<rparr>) = Some (pc, p1)"
    "trace_memory (cycle_count p1) READ 4 OPCODE_FETCH (pc - 4) w (tr p1) = Some t"
    "arm_write_register 15 (pc - 4 + 4) (p1\<lparr>tr := t\<rparr>) = Some q"
    by (auto simp: arm_fetch_def Let_def bind_eq_Some_conv)
  have 1: "prints_at ?l (tr p) (tr p1)" using accesses_print_at(1) [OF *(1)] by simp
  then have l: "trace_print_location (tr p1) = ?l" by (simp add: prints_at_def print_location_setup)
  then have 2: "prints_at ?l (tr p1) t" using trace_prints_at(1) [OF *(2)] by simp
  then have "trace_print_location t = ?l" using l by (auto simp: prints_at_def dest: print_location_setup)
  then have "prints_at ?l t (tr q)" using accesses_print_at(2) [OF *(3)] by simp
  with 1 2 show ?thesis by (blast intro: prints_at_trans)
qed

lemma access_prints_at: "access_plain a p = Some (r, q) \<Longrightarrow> prints_at (trace_print_location (tr p)) (tr p) (tr q)"
  by (cases a)
    (auto simp: read_only_def status_and_def status_only_def no_answer_def arm_read_usr_register_def arm_read_cpsr_def
      arm_read_spsr_def arm_write_usr_register_def arm_write_cpsr_def arm_write_spsr_def arm_read_byte_def arm_read_half_def
      arm_read_word_def arm_write_byte_def arm_write_half_def arm_write_word_def Let_def bind_eq_Some_conv
      dest: accesses_print_at fetch_prints_at trace_prints_at)

text \<open>
  With positions asked for, every line of an access has the position of its macro, provided the
  compiler calls the access before the end of the location; otherwise it has that of the macro around it.
\<close>

theorem macro_prints_its_position:
  assumes "has_room p" "tr_enabled (tr p)" "trace_flags (tr p) AND POSITION \<noteq> 0" "access_macro e src l a p = Some (r, q)"
    "\<not> e"
  shows "\<exists>ls. tr_output (tr q) = ls @ tr_output (tr p) \<and> (\<forall>x \<in> set ls. position x = Some (src, l))"
proof -
  have m: "located False src l (access_plain a) p = Some (r, q)"
    using assms(4,5) by (cases a) (auto simp: located_write_eq)
  let ?p = "p\<lparr>tr := (tr p)\<lparr>location_stack := (src, l) # location_stack (tr p)\<rparr>\<rparr>"
  from m assms(1,2) obtain q' where q: "access_plain a ?p = Some (r, q')" "tr_output (tr q) = tr_output (tr q')"
    by (auto simp: located_def trace_start_location_def trace_end_location_def has_room_def bind_eq_Some_conv
        split: if_splits list.splits)
  have "trace_print_location (tr ?p) = Some (src, l)" using assms(2,3) by (simp add: trace_print_location_def)
  with access_prints_at [OF q(1)] q(2) show ?thesis by (auto simp: prints_at_def)
qed

text \<open>
  C26. A program that touches the machine only by accesses gets the same answers and leaves the
  same machine with the macros of trace_location.h as without, whatever the compiler's order of
  the two calls of their sums: only the positions printed in front of the lines differ.
\<close>

theorem positions_only_printed:
  assumes "has_room p"
  shows "map_option (map_prod id without_positions) (plays (access_macro e) prog n rs p) =
    map_option (map_prod id without_positions) (plays (\<lambda>src l. access_plain) prog n rs p)"
proof -
  have "map_option (map_prod id without_positions) (plays (access_macro e) prog n rs p) =
      map_option (map_prod id without_positions) (plays (\<lambda>src l. access_plain) prog n rs q)"
    if "has_room p" "without_positions p = without_positions q" for q
    using that
  proof (induction n arbitrary: rs p q)
    case (Suc n)
    show ?case
    proof (cases "prog rs")
      case (Some c)
      obtain src l a where c: "c = (src, l, a)" by (cases c)
      have "map_option (map_prod id without_positions) (access_macro e src l a p) =
          map_option (map_prod id without_positions) (access_plain a q)"
        using macro_same [OF Suc.prems(1)] any_access.blind_eq [OF Suc.prems(2)] by simp
      with Some c Suc show ?thesis
        by (cases "access_macro e src l a p"; cases "access_plain a q")
          (auto dest!: macro_keeps [OF Suc.prems(1)] simp: has_room_setup)
    qed (use Suc.prems(2) in simp)
  qed simp
  from this [OF assms refl] show ?thesis .
qed

theorem positions_only_printed_witness:
  "map_option (map_prod id without_positions) (plays (access_macro True)
      (\<lambda>rs. if length rs = 0 then Some (''arm_instruction.c'', 92, Fetch 0) else if length rs = 1 then Some (''a.c'', 7, Write_register 3 (snd (rs ! 0))) else None)
      9 [] example_core) =
   map_option (map_prod id without_positions) (plays (\<lambda>src l. access_plain)
      (\<lambda>rs. if length rs = 0 then Some (''arm_instruction.c'', 92, Fetch 0) else if length rs = 1 then Some (''a.c'', 7, Write_register 3 (snd (rs ! 0))) else None)
      9 [] example_core)"
  by (rule positions_only_printed) (simp add: has_room_def example_core_def trace_init_def)

end
