(* ===== verification/C_Heap.thy ===== *)
theory C_Heap
  imports Prelude
begin

text \<open>
  The heap of a C program as far as the generated scanner uses it: blocks with the type of what is
  stored in them, \<^verbatim>\<open>malloc\<close>, \<^verbatim>\<open>realloc\<close> and \<^verbatim>\<open>free\<close>, and accesses that are undefined when the block
  has been freed or has another type, or when the offset is outside of it. A computation returns a
  value and a heap, is undefined, ends the program with a message, or runs on when the fuel of a loop
  is used up.
\<close>

section \<open>Blocks\<close>

type_synonym addr = nat
type_synonym ptr = "addr \<times> nat"

datatype buffer_status = YY_BUFFER_NEW | YY_BUFFER_NORMAL | YY_BUFFER_EOF_PENDING

text \<open>\<^verbatim>\<open>struct yy_buffer_state\<close>; the two counters are the fields that may stay unassigned.\<close>

record yy_buffer_state =
  yy_input_file :: nat
  yy_ch_buf :: addr
  yy_buf_pos :: ptr
  yy_buf_size :: int
  yy_n_chars :: int
  yy_is_our_buffer :: bool
  yy_is_interactive :: bool
  yy_at_bol :: bool
  yy_bs_lineno :: "int option"
  yy_bs_column :: "int option"
  yy_fill_buffer :: bool
  yy_buffer_status :: buffer_status

text \<open>\<^verbatim>\<open>struct yyguts_t\<close>; the fields for start conditions and for \<^verbatim>\<open>yymore\<close> are not used by the scanner.\<close>

record yyguts_t =
  yyextra_r :: nat
  yyin_r :: nat
  yyout_r :: nat
  yy_buffer_stack_top :: nat
  yy_buffer_stack_max :: nat
  yy_buffer_stack :: addr
  yy_hold_char :: char
  yyg_n_chars :: int
  yyleng_r :: int
  yy_c_buf_p :: ptr
  yyg_init :: bool
  yy_start :: nat
  yy_did_buffer_switch_on_eof :: bool
  yy_start_stack :: addr
  yy_last_accepting_state :: nat
  yy_last_accepting_cpos :: ptr
  yytext_r :: ptr
  yy_flex_debug_r :: int

datatype block =
    Chars "char option list"
  | Stack "addr list"
  | Buffer yy_buffer_state
  | Guts yyguts_t

text \<open>
  Address 0 is the null pointer. \<open>room\<close> is the number of allocations for which there is memory; a
  \<^verbatim>\<open>realloc\<close> that succeeds moves the block, so that the old pointers are dangling.
\<close>

record heap =
  blocks :: "addr \<rightharpoonup> block"
  fresh :: addr
  room :: nat
  error_number :: nat

section \<open>Computations\<close>

datatype fault = Undefined | Exits string | Runs_on

type_synonym 'a act = "heap \<Rightarrow> fault + 'a \<times> heap"

definition ret :: "'a \<Rightarrow> 'a act" where
  "ret x h = Inr (x, h)"

definition fail :: "fault \<Rightarrow> 'a act" where
  "fail e h = Inl e"

definition andthen :: "'a act \<Rightarrow> ('a \<Rightarrow> 'b act) \<Rightarrow> 'b act" where
  "andthen m f h = (case m h of Inl e \<Rightarrow> Inl e | Inr (x, h') \<Rightarrow> f x h')"

definition on :: "bool \<Rightarrow> unit act \<Rightarrow> unit act" where
  "on c m = (if c then m else ret ())"

definition malloc :: "block \<Rightarrow> addr act" where
  "malloc b h = (if room h = 0 then Inr (0, h)
     else Inr (fresh h, h\<lparr>blocks := (blocks h)(fresh h \<mapsto> b), fresh := fresh h + 1, room := room h - 1\<rparr>))"

definition free :: "addr \<Rightarrow> unit act" where
  "free a h = (if a = 0 then Inr ((), h)
     else if blocks h a = None then Inl Undefined
     else Inr ((), h\<lparr>blocks := (blocks h)(a := None)\<rparr>))"

definition peek :: "addr \<Rightarrow> block act" where
  "peek a h = (case blocks h a of None \<Rightarrow> Inl Undefined | Some b \<Rightarrow> Inr (b, h))"

text \<open>Assignments to a block that is there.\<close>

definition poke :: "addr \<Rightarrow> block \<Rightarrow> unit act" where
  "poke a b h = (if blocks h a = None then Inl Undefined else Inr ((), h\<lparr>blocks := (blocks h)(a \<mapsto> b)\<rparr>))"

definition get_errno :: "nat act" where
  "get_errno h = Inr (error_number h, h)"

definition set_errno :: "nat \<Rightarrow> unit act" where
  "set_errno e h = Inr ((), h\<lparr>error_number := e\<rparr>)"

definition realloc :: "addr \<Rightarrow> block \<Rightarrow> addr act" where
  "realloc a b = andthen (malloc b) (\<lambda>n. andthen (on (n \<noteq> 0) (free a)) (\<lambda>_. ret n))"

text \<open>A negative size becomes a \<^verbatim>\<open>size_t\<close> for which there is never memory.\<close>

definition malloc_chars :: "int \<Rightarrow> addr act" where
  "malloc_chars n = (if n < 0 then ret 0 else malloc (Chars (replicate (nat n) None)))"

definition int_of :: "int \<Rightarrow> int act" where
  "int_of n = (if - (2 ^ 31) \<le> n \<and> n < 2 ^ 31 then ret n else fail Undefined)"

definition get_guts :: "addr \<Rightarrow> yyguts_t act" where
  "get_guts a = andthen (peek a) (\<lambda>b. case b of Guts g \<Rightarrow> ret g | _ \<Rightarrow> fail Undefined)"

definition get_buffer :: "addr \<Rightarrow> yy_buffer_state act" where
  "get_buffer a = andthen (peek a) (\<lambda>b. case b of Buffer r \<Rightarrow> ret r | _ \<Rightarrow> fail Undefined)"

definition get_stack :: "addr \<Rightarrow> addr list act" where
  "get_stack a = andthen (peek a) (\<lambda>b. case b of Stack st \<Rightarrow> ret st | _ \<Rightarrow> fail Undefined)"

definition get_chars :: "addr \<Rightarrow> char option list act" where
  "get_chars a = andthen (peek a) (\<lambda>b. case b of Chars cs \<Rightarrow> ret cs | _ \<Rightarrow> fail Undefined)"

definition set_guts :: "addr \<Rightarrow> (yyguts_t \<Rightarrow> yyguts_t) \<Rightarrow> unit act" where
  "set_guts a f = andthen (get_guts a) (\<lambda>g. poke a (Guts (f g)))"

definition set_buffer :: "addr \<Rightarrow> (yy_buffer_state \<Rightarrow> yy_buffer_state) \<Rightarrow> unit act" where
  "set_buffer a f = andthen (get_buffer a) (\<lambda>r. poke a (Buffer (f r)))"

definition get_entry :: "addr \<Rightarrow> nat \<Rightarrow> addr act" where
  "get_entry a i = andthen (get_stack a) (\<lambda>st. if i < length st then ret (st ! i) else fail Undefined)"

definition set_entry :: "addr \<Rightarrow> nat \<Rightarrow> addr \<Rightarrow> unit act" where
  "set_entry a i b = andthen (get_stack a) (\<lambda>st.
     if i < length st then poke a (Stack (st[i := b])) else fail Undefined)"

text \<open>A character that has not been written has no value.\<close>

definition get_char :: "ptr \<Rightarrow> char act" where
  "get_char p = andthen (get_chars (fst p)) (\<lambda>cs.
     if snd p < length cs then (case cs ! snd p of None \<Rightarrow> fail Undefined | Some c \<Rightarrow> ret c) else fail Undefined)"

definition set_char :: "ptr \<Rightarrow> char \<Rightarrow> unit act" where
  "set_char p c = andthen (get_chars (fst p)) (\<lambda>cs.
     if snd p < length cs then poke (fst p) (Chars (cs[snd p := Some c])) else fail Undefined)"

section \<open>Reasoning\<close>

text \<open>
  \<open>runs e m h Q\<close>: from \<open>h\<close> the computation is defined, and returns a value and a heap that satisfy
  \<open>Q\<close>, unless it ends the program, which it may do only where \<open>e\<close> holds.
\<close>

definition runs :: "bool \<Rightarrow> 'a act \<Rightarrow> heap \<Rightarrow> ('a \<Rightarrow> heap \<Rightarrow> bool) \<Rightarrow> bool" where
  "runs e m h Q = (case m h of Inr (x, h') \<Rightarrow> Q x h' | Inl (Exits _) \<Rightarrow> e | Inl _ \<Rightarrow> False)"

text \<open>\<open>acts\<close>: the combinators. \<open>accesses\<close>: the operations of the heap.\<close>

named_theorems acts
named_theorems accesses

lemma runs_ret [acts]: "runs e (ret x) h Q \<longleftrightarrow> Q x h"
  by (simp add: runs_def ret_def)

lemma runs_fail [acts]: "runs e (fail Undefined) h Q \<longleftrightarrow> False" "runs e (fail Runs_on) h Q \<longleftrightarrow> False"
  "runs e (fail (Exits m)) h Q \<longleftrightarrow> e"
  by (simp_all add: runs_def fail_def)

lemma runs_andthen [acts]: "runs e (andthen m f) h Q \<longleftrightarrow> runs e m h (\<lambda>x h'. runs e (f x) h' Q)"
  by (auto simp: runs_def andthen_def split: sum.splits fault.splits)

lemma runs_if [acts]: "runs e (if c then m else n) h Q \<longleftrightarrow> (if c then runs e m h Q else runs e n h Q)"
  by simp

lemma runs_on [acts]: "runs e (on c m) h Q \<longleftrightarrow> (if c then runs e m h Q else Q () h)"
  by (simp add: on_def acts)

lemma runs_mono: "runs e m h P \<Longrightarrow> (\<And>x h'. P x h' \<Longrightarrow> Q x h') \<Longrightarrow> runs e m h Q"
  by (auto simp: runs_def split: sum.splits fault.splits)

lemma runs_returns: "runs False m h Q \<longleftrightarrow> (\<exists>x h'. m h = Inr (x, h') \<and> Q x h')"
  by (auto simp: runs_def split: sum.splits fault.splits)

lemma runs_malloc [accesses]: "runs e (malloc b) h Q \<longleftrightarrow> (if room h = 0 then Q 0 h
    else Q (fresh h) (h\<lparr>blocks := (blocks h)(fresh h \<mapsto> b), fresh := fresh h + 1, room := room h - 1\<rparr>))"
  by (simp add: runs_def malloc_def)

lemma runs_free [accesses]: "runs e (free a) h Q \<longleftrightarrow>
    (if a = 0 then Q () h else blocks h a \<noteq> None \<and> Q () (h\<lparr>blocks := (blocks h)(a := None)\<rparr>))"
  by (auto simp: runs_def free_def)

lemma runs_malloc_chars [accesses]: "runs e (malloc_chars n) h Q \<longleftrightarrow> (if n < 0 \<or> room h = 0 then Q 0 h
    else Q (fresh h) (h\<lparr>blocks := (blocks h)(fresh h \<mapsto> Chars (replicate (nat n) None)),
      fresh := fresh h + 1, room := room h - 1\<rparr>))"
  by (simp add: malloc_chars_def acts accesses)

lemma runs_int_of [acts]: "runs e (int_of n) h Q \<longleftrightarrow> - (2 ^ 31) \<le> n \<and> n < 2 ^ 31 \<and> Q n h"
  by (auto simp: int_of_def acts accesses)

lemma runs_realloc [accesses]: "runs e (realloc a b) h Q \<longleftrightarrow> (if room h = 0 then Q 0 h
    else runs e (andthen (on (fresh h \<noteq> 0) (free a)) (\<lambda>_. ret (fresh h)))
      (h\<lparr>blocks := (blocks h)(fresh h \<mapsto> b), fresh := fresh h + 1, room := room h - 1\<rparr>) Q)"
  by (simp add: realloc_def acts accesses)

lemma runs_peek [accesses]: "runs e (peek a) h Q \<longleftrightarrow> (\<exists>b. blocks h a = Some b \<and> Q b h)"
  by (auto simp: runs_def peek_def split: option.splits)

lemma runs_poke [accesses]: "runs e (poke a b) h Q \<longleftrightarrow> blocks h a \<noteq> None \<and> Q () (h\<lparr>blocks := (blocks h)(a \<mapsto> b)\<rparr>)"
  by (auto simp: runs_def poke_def)

lemma runs_set_errno [accesses]: "runs e (set_errno n) h Q \<longleftrightarrow> Q () (h\<lparr>error_number := n\<rparr>)"
  by (simp add: runs_def set_errno_def)

lemma runs_get_errno [acts]: "runs e get_errno h Q \<longleftrightarrow> Q (error_number h) h"
  by (simp add: runs_def get_errno_def)

lemma runs_block [accesses]:
  "runs e (get_guts a) h Q \<longleftrightarrow> (\<exists>g. blocks h a = Some (Guts g) \<and> Q g h)"
  "runs e (get_buffer a) h R \<longleftrightarrow> (\<exists>r. blocks h a = Some (Buffer r) \<and> R r h)"
  "runs e (get_stack a) h S \<longleftrightarrow> (\<exists>st. blocks h a = Some (Stack st) \<and> S st h)"
  "runs e (get_chars a) h T \<longleftrightarrow> (\<exists>cs. blocks h a = Some (Chars cs) \<and> T cs h)"
  by (cases "blocks h a"; simp add: get_guts_def get_buffer_def get_stack_def get_chars_def acts accesses;
    rename_tac b; case_tac b; simp add: acts accesses)+

lemma runs_set_block [accesses]:
  "runs e (set_guts a f) h Q \<longleftrightarrow>
    (\<exists>g. blocks h a = Some (Guts g) \<and> Q () (h\<lparr>blocks := (blocks h)(a \<mapsto> Guts (f g))\<rparr>))"
  "runs e (set_buffer a k) h Q \<longleftrightarrow>
    (\<exists>r. blocks h a = Some (Buffer r) \<and> Q () (h\<lparr>blocks := (blocks h)(a \<mapsto> Buffer (k r))\<rparr>))"
  by (auto simp: set_guts_def set_buffer_def acts accesses)

lemma runs_entry [accesses]:
  "runs e (get_entry a i) h Q \<longleftrightarrow> (\<exists>st. blocks h a = Some (Stack st) \<and> i < length st \<and> Q (st ! i) h)"
  "runs e (set_entry a i b) h R \<longleftrightarrow> (\<exists>st. blocks h a = Some (Stack st) \<and> i < length st \<and>
     R () (h\<lparr>blocks := (blocks h)(a \<mapsto> Stack (st[i := b]))\<rparr>))"
  by (auto simp: get_entry_def set_entry_def acts accesses)

lemma runs_char [accesses]:
  "runs e (get_char p) h Q \<longleftrightarrow> (\<exists>cs c. blocks h (fst p) = Some (Chars cs) \<and> snd p < length cs \<and>
     cs ! snd p = Some c \<and> Q c h)"
  "runs e (set_char p d) h R \<longleftrightarrow> (\<exists>cs. blocks h (fst p) = Some (Chars cs) \<and> snd p < length cs \<and>
     R () (h\<lparr>blocks := (blocks h)(fst p \<mapsto> Chars (cs[snd p := Some d]))\<rparr>))"
  by (auto simp: get_char_def set_char_def acts accesses split: option.splits)

end
