(* ===== verification/Flex_Buffers.thy ===== *)
theory Flex_Buffers
  imports C_Heap Flex
begin

text \<open>
  The memory of the generated scanner (\<^verbatim>\<open>scanner.c\<close>): the scanner object, its stack of buffers and the
  buffers, from \<^verbatim>\<open>yylex_init_extra\<close> to \<^verbatim>\<open>yylex_destroy\<close>, on a heap in which freed memory, unassigned
  characters and failed allocations are visible. The scanner is the address \<open>s\<close> of its object.
\<close>

section \<open>Errors and the stack of buffers\<close>

definition yy_fatal_error :: "string \<Rightarrow> 'a act" where
  "yy_fatal_error msg = fail (Exits msg)"

lemma runs_yy_fatal_error [acts]: "runs e (yy_fatal_error msg) h Q \<longleftrightarrow> e"
  by (simp add: yy_fatal_error_def acts)

definition YY_CURRENT_BUFFER :: "addr \<Rightarrow> addr act" where
  "YY_CURRENT_BUFFER s = andthen (get_guts s) (\<lambda>g.
     if yy_buffer_stack g \<noteq> 0 then get_entry (yy_buffer_stack g) (yy_buffer_stack_top g) else ret 0)"

definition set_YY_CURRENT_BUFFER :: "addr \<Rightarrow> addr \<Rightarrow> unit act" where
  "set_YY_CURRENT_BUFFER s b = andthen (get_guts s) (\<lambda>g. set_entry (yy_buffer_stack g) (yy_buffer_stack_top g) b)"

text \<open>The array has one entry at first and grows by eight.\<close>

definition yyensure_buffer_stack :: "addr \<Rightarrow> unit act" where
  "yyensure_buffer_stack s = andthen (get_guts s) (\<lambda>g.
     if yy_buffer_stack g = 0 then
       andthen (malloc (Stack (replicate 1 0))) (\<lambda>a.
       andthen (set_guts s (\<lambda>g. g\<lparr>yy_buffer_stack := a\<rparr>)) (\<lambda>_.
       if a = 0 then yy_fatal_error ''out of dynamic memory in yyensure_buffer_stack()''
       else set_guts s (\<lambda>g. g\<lparr>yy_buffer_stack_max := 1, yy_buffer_stack_top := 0\<rparr>)))
     else if yy_buffer_stack_max g - 1 \<le> yy_buffer_stack_top g then
       andthen (get_stack (yy_buffer_stack g)) (\<lambda>st.
       andthen (realloc (yy_buffer_stack g) (Stack (st @ replicate 8 0))) (\<lambda>a.
       andthen (set_guts s (\<lambda>g. g\<lparr>yy_buffer_stack := a\<rparr>)) (\<lambda>_.
       if a = 0 then yy_fatal_error ''out of dynamic memory in yyensure_buffer_stack()''
       else set_guts s (\<lambda>g. g\<lparr>yy_buffer_stack_max := yy_buffer_stack_max g + 8\<rparr>))))
     else ret ())"

definition yy_load_buffer_state :: "addr \<Rightarrow> unit act" where
  "yy_load_buffer_state s =
     andthen (YY_CURRENT_BUFFER s) (\<lambda>b.
     andthen (get_buffer b) (\<lambda>r.
     andthen (get_char (yy_buf_pos r)) (\<lambda>c.
     set_guts s (\<lambda>g. g\<lparr>yyg_n_chars := yy_n_chars r, yytext_r := yy_buf_pos r, yy_c_buf_p := yy_buf_pos r,
       yyin_r := yy_input_file r, yy_hold_char := c\<rparr>))))"

section \<open>Buffers\<close>

definition yy_flush_buffer :: "addr \<Rightarrow> addr \<Rightarrow> unit act" where
  "yy_flush_buffer b s = (if b = 0 then ret () else
     andthen (set_buffer b (\<lambda>r. r\<lparr>yy_n_chars := 0\<rparr>)) (\<lambda>_.
     andthen (get_buffer b) (\<lambda>r.
     andthen (set_char (yy_ch_buf r, 0) NUL) (\<lambda>_.
     andthen (set_char (yy_ch_buf r, 1) NUL) (\<lambda>_.
     andthen (set_buffer b (\<lambda>r. r\<lparr>yy_buf_pos := (yy_ch_buf r, 0), yy_at_bol := True,
       yy_buffer_status := YY_BUFFER_NEW\<rparr>)) (\<lambda>_.
     andthen (YY_CURRENT_BUFFER s) (\<lambda>c.
     on (b = c) (yy_load_buffer_state s))))))))"

definition yy_init_buffer :: "addr \<Rightarrow> nat \<Rightarrow> addr \<Rightarrow> unit act" where
  "yy_init_buffer b file s =
     andthen get_errno (\<lambda>oerrno.
     andthen (yy_flush_buffer b s) (\<lambda>_.
     andthen (set_buffer b (\<lambda>r. r\<lparr>yy_input_file := file, yy_fill_buffer := True\<rparr>)) (\<lambda>_.
     andthen (YY_CURRENT_BUFFER s) (\<lambda>c.
     andthen (on (b \<noteq> c) (set_buffer b (\<lambda>r. r\<lparr>yy_bs_lineno := Some 1, yy_bs_column := Some 0\<rparr>))) (\<lambda>_.
     andthen (set_buffer b (\<lambda>r. r\<lparr>yy_is_interactive := True\<rparr>)) (\<lambda>_.
     set_errno oerrno))))))"

text \<open>What \<^verbatim>\<open>malloc\<close> returns for a buffer: every field but the two counters is assigned before it is read.\<close>

definition blank_buffer :: yy_buffer_state where
  "blank_buffer = \<lparr>yy_input_file = 0, yy_ch_buf = 0, yy_buf_pos = (0, 0), yy_buf_size = 0, yy_n_chars = 0,
     yy_is_our_buffer = False, yy_is_interactive = False, yy_at_bol = False, yy_bs_lineno = None,
     yy_bs_column = None, yy_fill_buffer = False, yy_buffer_status = YY_BUFFER_NEW\<rparr>"

definition yy_create_buffer :: "nat \<Rightarrow> int \<Rightarrow> addr \<Rightarrow> addr act" where
  "yy_create_buffer file sz s =
     andthen (malloc (Buffer blank_buffer)) (\<lambda>b.
     if b = 0 then yy_fatal_error ''out of dynamic memory in yy_create_buffer()'' else
     andthen (set_buffer b (\<lambda>r. r\<lparr>yy_buf_size := sz\<rparr>)) (\<lambda>_.
     andthen (int_of (sz + 2)) (\<lambda>n.
     andthen (malloc_chars n) (\<lambda>a.
     andthen (set_buffer b (\<lambda>r. r\<lparr>yy_ch_buf := a\<rparr>)) (\<lambda>_.
     if a = 0 then yy_fatal_error ''out of dynamic memory in yy_create_buffer()'' else
     andthen (set_buffer b (\<lambda>r. r\<lparr>yy_is_our_buffer := True\<rparr>)) (\<lambda>_.
     andthen (yy_init_buffer b file s) (\<lambda>_.
     ret b)))))))"

definition yy_delete_buffer :: "addr \<Rightarrow> addr \<Rightarrow> unit act" where
  "yy_delete_buffer b s = (if b = 0 then ret () else
     andthen (YY_CURRENT_BUFFER s) (\<lambda>c.
     andthen (on (b = c) (set_YY_CURRENT_BUFFER s 0)) (\<lambda>_.
     andthen (get_buffer b) (\<lambda>r.
     andthen (on (yy_is_our_buffer r) (free (yy_ch_buf r))) (\<lambda>_.
     free b)))))"

text \<open>What a switch to another buffer keeps in the one it leaves.\<close>

definition save_buffer_state :: "addr \<Rightarrow> unit act" where
  "save_buffer_state s =
     andthen (YY_CURRENT_BUFFER s) (\<lambda>b.
     on (b \<noteq> 0) (andthen (get_guts s) (\<lambda>g.
       andthen (set_char (yy_c_buf_p g) (yy_hold_char g)) (\<lambda>_.
       set_buffer b (\<lambda>r. r\<lparr>yy_buf_pos := yy_c_buf_p g, yy_n_chars := yyg_n_chars g\<rparr>)))))"

definition yy_switch_to_buffer :: "addr \<Rightarrow> addr \<Rightarrow> unit act" where
  "yy_switch_to_buffer new_buffer s =
     andthen (yyensure_buffer_stack s) (\<lambda>_.
     andthen (YY_CURRENT_BUFFER s) (\<lambda>c.
     if c = new_buffer then ret () else
     andthen (save_buffer_state s) (\<lambda>_.
     andthen (set_YY_CURRENT_BUFFER s new_buffer) (\<lambda>_.
     andthen (yy_load_buffer_state s) (\<lambda>_.
     set_guts s (\<lambda>g. g\<lparr>yy_did_buffer_switch_on_eof := True\<rparr>))))))"

definition yypush_buffer_state :: "addr \<Rightarrow> addr \<Rightarrow> unit act" where
  "yypush_buffer_state new_buffer s = (if new_buffer = 0 then ret () else
     andthen (yyensure_buffer_stack s) (\<lambda>_.
     andthen (save_buffer_state s) (\<lambda>_.
     andthen (YY_CURRENT_BUFFER s) (\<lambda>c.
     andthen (on (c \<noteq> 0) (set_guts s (\<lambda>g. g\<lparr>yy_buffer_stack_top := yy_buffer_stack_top g + 1\<rparr>))) (\<lambda>_.
     andthen (set_YY_CURRENT_BUFFER s new_buffer) (\<lambda>_.
     andthen (yy_load_buffer_state s) (\<lambda>_.
     set_guts s (\<lambda>g. g\<lparr>yy_did_buffer_switch_on_eof := True\<rparr>))))))))"

definition yypop_buffer_state :: "addr \<Rightarrow> unit act" where
  "yypop_buffer_state s =
     andthen (YY_CURRENT_BUFFER s) (\<lambda>c. if c = 0 then ret () else
     andthen (yy_delete_buffer c s) (\<lambda>_.
     andthen (set_YY_CURRENT_BUFFER s 0) (\<lambda>_.
     andthen (set_guts s (\<lambda>g. if 0 < yy_buffer_stack_top g
       then g\<lparr>yy_buffer_stack_top := yy_buffer_stack_top g - 1\<rparr> else g)) (\<lambda>_.
     andthen (YY_CURRENT_BUFFER s) (\<lambda>c.
     on (c \<noteq> 0) (andthen (yy_load_buffer_state s) (\<lambda>_.
       set_guts s (\<lambda>g. g\<lparr>yy_did_buffer_switch_on_eof := True\<rparr>))))))))"

text \<open>The buffer that is made when there is none, at the start and by \<^verbatim>\<open>yyrestart\<close>.\<close>

definition first_buffer :: "addr \<Rightarrow> unit act" where
  "first_buffer s =
     andthen (YY_CURRENT_BUFFER s) (\<lambda>c. on (c = 0)
       (andthen (yyensure_buffer_stack s) (\<lambda>_.
        andthen (get_guts s) (\<lambda>g.
        andthen (yy_create_buffer (yyin_r g) YY_BUF_SIZE s) (\<lambda>b.
        set_YY_CURRENT_BUFFER s b)))))"

definition yyrestart :: "nat \<Rightarrow> addr \<Rightarrow> unit act" where
  "yyrestart input_file s =
     andthen (first_buffer s) (\<lambda>_.
     andthen (YY_CURRENT_BUFFER s) (\<lambda>b.
     andthen (yy_init_buffer b input_file s) (\<lambda>_.
     yy_load_buffer_state s)))"

section \<open>Scanning from memory\<close>

definition yy_scan_buffer :: "addr \<Rightarrow> nat \<Rightarrow> addr \<Rightarrow> addr act" where
  "yy_scan_buffer base sz s = (if sz < 2 then ret 0 else
     andthen (get_char (base, sz - 2)) (\<lambda>x. if x \<noteq> NUL then ret 0 else
     andthen (get_char (base, sz - 1)) (\<lambda>y. if y \<noteq> NUL then ret 0 else
     andthen (malloc (Buffer blank_buffer)) (\<lambda>b.
     if b = 0 then yy_fatal_error ''out of dynamic memory in yy_scan_buffer()'' else
     andthen (set_buffer b (\<lambda>r. let n = sint (of_nat (sz - 2) :: u32) in
       r\<lparr>yy_buf_size := n, yy_ch_buf := base, yy_buf_pos := (base, 0), yy_is_our_buffer := False,
         yy_input_file := 0, yy_n_chars := n, yy_is_interactive := False, yy_at_bol := True,
         yy_fill_buffer := False, yy_buffer_status := YY_BUFFER_NEW\<rparr>)) (\<lambda>_.
     andthen (yy_switch_to_buffer b s) (\<lambda>_. ret b))))))"

fun copy_bytes :: "addr \<Rightarrow> nat \<Rightarrow> string \<Rightarrow> unit act" where
  "copy_bytes a i [] = ret ()"
| "copy_bytes a i (c # cs) = andthen (set_char (a, i) c) (\<lambda>_. copy_bytes a (i + 1) cs)"

definition yy_scan_bytes :: "string \<Rightarrow> nat \<Rightarrow> addr \<Rightarrow> addr act" where
  "yy_scan_bytes yybytes len s =
     andthen (int_of (int len + 2)) (\<lambda>n.
     andthen (malloc_chars n) (\<lambda>buf.
     if buf = 0 then yy_fatal_error ''out of dynamic memory in yy_scan_bytes()'' else
     andthen (if length yybytes < len then fail Undefined else copy_bytes buf 0 (take len yybytes)) (\<lambda>_.
     andthen (set_char (buf, len + 1) NUL) (\<lambda>_.
     andthen (set_char (buf, len) NUL) (\<lambda>_.
     andthen (yy_scan_buffer buf (len + 2) s) (\<lambda>b.
     if b = 0 then yy_fatal_error ''bad buffer in yy_scan_bytes()'' else
     andthen (set_buffer b (\<lambda>r. r\<lparr>yy_is_our_buffer := True\<rparr>)) (\<lambda>_.
     ret b)))))))"

text \<open>The string of a C pointer ends before the first null character.\<close>

definition yy_scan_string :: "string \<Rightarrow> addr \<Rightarrow> addr act" where
  "yy_scan_string yystr s = (let str = takeWhile (\<lambda>c. c \<noteq> NUL) yystr in yy_scan_bytes str (length str) s)"

section \<open>The scanner object\<close>

text \<open>A null file is 0; 1 and 2 are the standard streams.\<close>

definition stdin :: nat where "stdin = 1"
definition stdout :: nat where "stdout = 2"

definition EINVAL :: nat where "EINVAL = 22"
definition ENOMEM :: nat where "ENOMEM = 12"

definition zero_guts :: yyguts_t where
  "zero_guts = \<lparr>yyextra_r = 0, yyin_r = 0, yyout_r = 0, yy_buffer_stack_top = 0, yy_buffer_stack_max = 0,
     yy_buffer_stack = 0, yy_hold_char = NUL, yyg_n_chars = 0, yyleng_r = 0, yy_c_buf_p = (0, 0), yyg_init = False,
     yy_start = 0, yy_did_buffer_switch_on_eof = False, yy_start_stack = 0,
     yy_last_accepting_state = 0, yy_last_accepting_cpos = (0, 0), yytext_r = (0, 0), yy_flex_debug_r = 0\<rparr>"

definition yy_init_globals :: "addr \<Rightarrow> int act" where
  "yy_init_globals s =
     andthen (set_guts s (\<lambda>g. g\<lparr>yy_buffer_stack := 0, yy_buffer_stack_top := 0, yy_buffer_stack_max := 0,
       yy_c_buf_p := (0, 0), yyg_init := False, yy_start := 0, yy_start_stack := 0, yyin_r := 0, yyout_r := 0\<rparr>))
     (\<lambda>_. ret 0)"

text \<open>
  \<open>there\<close>: whether the pointer to the variable for the scanner is not null. The result is what is
  returned with what the variable holds.
\<close>

definition yylex_init :: "bool \<Rightarrow> (int \<times> addr) act" where
  "yylex_init there = (if \<not> there then andthen (set_errno EINVAL) (\<lambda>_. ret (1, 0)) else
     andthen (malloc (Guts zero_guts)) (\<lambda>s.
     if s = 0 then andthen (set_errno ENOMEM) (\<lambda>_. ret (1, 0)) else
     andthen (yy_init_globals s) (\<lambda>rc. ret (rc, s))))"

definition yyset_extra :: "nat \<Rightarrow> addr \<Rightarrow> unit act" where
  "yyset_extra user_defined s = set_guts s (\<lambda>g. g\<lparr>yyextra_r := user_defined\<rparr>)"

definition yylex_init_extra :: "nat \<Rightarrow> bool \<Rightarrow> (int \<times> addr) act" where
  "yylex_init_extra user_defined there = (if \<not> there then andthen (set_errno EINVAL) (\<lambda>_. ret (1, 0)) else
     andthen (malloc (Guts zero_guts)) (\<lambda>s.
     if s = 0 then andthen (set_errno ENOMEM) (\<lambda>_. ret (1, 0)) else
     andthen (yyset_extra user_defined s) (\<lambda>_.
     andthen (yy_init_globals s) (\<lambda>rc. ret (rc, s)))))"

text \<open>The block at the head of \<^verbatim>\<open>yylex\<close>.\<close>

definition yylex_start :: "addr \<Rightarrow> unit act" where
  "yylex_start s =
     andthen (get_guts s) (\<lambda>g. if yyg_init g then ret () else
     andthen (set_guts s (\<lambda>g. g\<lparr>yyg_init := True,
       yy_start := (if yy_start g = 0 then 1 else yy_start g),
       yyin_r := (if yyin_r g = 0 then stdin else yyin_r g),
       yyout_r := (if yyout_r g = 0 then stdout else yyout_r g)\<rparr>)) (\<lambda>_.
     andthen (first_buffer s) (\<lambda>_.
     yy_load_buffer_state s)))"

text \<open>The loop of \<^verbatim>\<open>yylex_destroy\<close>, with fuel.\<close>

fun delete_buffers :: "nat \<Rightarrow> addr \<Rightarrow> unit act" where
  "delete_buffers 0 s = fail Runs_on"
| "delete_buffers (Suc n) s =
     andthen (YY_CURRENT_BUFFER s) (\<lambda>c. if c = 0 then ret () else
     andthen (yy_delete_buffer c s) (\<lambda>_.
     andthen (set_YY_CURRENT_BUFFER s 0) (\<lambda>_.
     andthen (yypop_buffer_state s) (\<lambda>_.
     delete_buffers n s))))"

definition yylex_destroy :: "nat \<Rightarrow> addr \<Rightarrow> int act" where
  "yylex_destroy n s =
     andthen (delete_buffers n s) (\<lambda>_.
     andthen (get_guts s) (\<lambda>g.
     andthen (free (yy_buffer_stack g)) (\<lambda>_.
     andthen (set_guts s (\<lambda>g. g\<lparr>yy_buffer_stack := 0\<rparr>)) (\<lambda>_.
     andthen (get_guts s) (\<lambda>g.
     andthen (free (yy_start_stack g)) (\<lambda>_.
     andthen (set_guts s (\<lambda>g. g\<lparr>yy_start_stack := 0\<rparr>)) (\<lambda>_.
     andthen (yy_init_globals s) (\<lambda>_.
     andthen (free s) (\<lambda>_. ret 0)))))))))"

section \<open>Accessors\<close>

definition yyget_extra :: "addr \<Rightarrow> nat act" where
  "yyget_extra s = andthen (get_guts s) (\<lambda>g. ret (yyextra_r g))"

definition yyget_in :: "addr \<Rightarrow> nat act" where
  "yyget_in s = andthen (get_guts s) (\<lambda>g. ret (yyin_r g))"

definition yyget_out :: "addr \<Rightarrow> nat act" where
  "yyget_out s = andthen (get_guts s) (\<lambda>g. ret (yyout_r g))"

definition yyget_leng :: "addr \<Rightarrow> int act" where
  "yyget_leng s = andthen (get_guts s) (\<lambda>g. ret (yyleng_r g))"

definition yyget_text :: "addr \<Rightarrow> ptr act" where
  "yyget_text s = andthen (get_guts s) (\<lambda>g. ret (yytext_r g))"

definition yyget_debug :: "addr \<Rightarrow> int act" where
  "yyget_debug s = andthen (get_guts s) (\<lambda>g. ret (yy_flex_debug_r g))"

definition yyset_in :: "nat \<Rightarrow> addr \<Rightarrow> unit act" where
  "yyset_in in_str s = set_guts s (\<lambda>g. g\<lparr>yyin_r := in_str\<rparr>)"

definition yyset_out :: "nat \<Rightarrow> addr \<Rightarrow> unit act" where
  "yyset_out out_str s = set_guts s (\<lambda>g. g\<lparr>yyout_r := out_str\<rparr>)"

definition yyset_debug :: "int \<Rightarrow> addr \<Rightarrow> unit act" where
  "yyset_debug bdebug s = set_guts s (\<lambda>g. g\<lparr>yy_flex_debug_r := bdebug\<rparr>)"

text \<open>The counters are those of the current buffer; one that was never assigned has no value.\<close>

definition assigned :: "int option \<Rightarrow> int act" where
  "assigned v = (case v of None \<Rightarrow> fail Undefined | Some n \<Rightarrow> ret n)"

definition yyget_lineno :: "addr \<Rightarrow> int act" where
  "yyget_lineno s = andthen (YY_CURRENT_BUFFER s) (\<lambda>b. if b = 0 then ret 0 else
     andthen (get_buffer b) (\<lambda>r. assigned (yy_bs_lineno r)))"

definition yyget_column :: "addr \<Rightarrow> int act" where
  "yyget_column s = andthen (YY_CURRENT_BUFFER s) (\<lambda>b. if b = 0 then ret 0 else
     andthen (get_buffer b) (\<lambda>r. assigned (yy_bs_column r)))"

definition yyset_lineno :: "int \<Rightarrow> addr \<Rightarrow> unit act" where
  "yyset_lineno line_number s = andthen (YY_CURRENT_BUFFER s) (\<lambda>b.
     if b = 0 then yy_fatal_error ''yyset_lineno called with no buffer''
     else set_buffer b (\<lambda>r. r\<lparr>yy_bs_lineno := Some line_number\<rparr>))"

definition yyset_column :: "int \<Rightarrow> addr \<Rightarrow> unit act" where
  "yyset_column column_no s = andthen (YY_CURRENT_BUFFER s) (\<lambda>b.
     if b = 0 then yy_fatal_error ''yyset_column called with no buffer''
     else set_buffer b (\<lambda>r. r\<lparr>yy_bs_column := Some column_no\<rparr>))"

end
