(* ===== verification/Flex_Memory.thy ===== *)
theory Flex_Memory
  imports Flex_Buffers "HOL-Library.Signed_Division"
begin

text \<open>
  The refill of the generated scanner (\<^verbatim>\<open>yy_get_next_buffer\<close>) on the heap: it moves, grows and fills the
  buffer and the pointers into it. For the scanner with one buffer it refines the refill of \<open>Flex\<close>.
\<close>

section \<open>The refill\<close>

fun move_chars :: "ptr \<Rightarrow> ptr \<Rightarrow> nat \<Rightarrow> unit act" where
  "move_chars dest src 0 = ret ()"
| "move_chars dest src (Suc n) =
     andthen (get_char src) (\<lambda>c.
     andthen (set_char dest c) (\<lambda>_.
     move_chars (fst dest, snd dest + 1) (fst src, snd src + 1) n))"

text \<open>\<^verbatim>\<open>yyrealloc\<close> of a buffer: what is added has not been written.\<close>

definition realloc_chars :: "addr \<Rightarrow> int \<Rightarrow> addr act" where
  "realloc_chars a n = (if n < 0 then ret 0 else
     andthen (get_chars a) (\<lambda>cs.
     realloc a (Chars (take (nat n) cs @ replicate (nat n - length cs) None))))"

text \<open>The loop that makes room; with a buffer of size 0 it would not end.\<close>

fun grow_buffer :: "nat \<Rightarrow> int \<Rightarrow> addr \<Rightarrow> unit act" where
  "grow_buffer 0 number_to_move s = fail Runs_on"
| "grow_buffer (Suc n) number_to_move s =
     andthen (YY_CURRENT_BUFFER s) (\<lambda>b.
     andthen (get_buffer b) (\<lambda>r.
     if 0 < yy_buf_size r - number_to_move - 1 then ret () else
     andthen (get_guts s) (\<lambda>g.
     if fst (yy_c_buf_p g) \<noteq> yy_ch_buf r then fail Undefined else
     andthen
       (if yy_is_our_buffer r then
          andthen (int_of (yy_buf_size r * 2)) (\<lambda>new_size.
          andthen (set_buffer b (\<lambda>r. r\<lparr>yy_buf_size :=
            (if new_size \<le> 0 then yy_buf_size r + yy_buf_size r sdiv 8 else new_size)\<rparr>)) (\<lambda>_.
          andthen (get_buffer b) (\<lambda>r.
          andthen (int_of (yy_buf_size r + 2)) (\<lambda>m.
          andthen (realloc_chars (yy_ch_buf r) m) (\<lambda>a.
          set_buffer b (\<lambda>r. r\<lparr>yy_ch_buf := a\<rparr>))))))
        else set_buffer b (\<lambda>r. r\<lparr>yy_ch_buf := 0\<rparr>)) (\<lambda>_.
     andthen (get_buffer b) (\<lambda>r.
     if yy_ch_buf r = 0 then yy_fatal_error ''fatal error - scanner input buffer overflow'' else
     andthen (set_guts s (\<lambda>t. t\<lparr>yy_c_buf_p := (yy_ch_buf r, snd (yy_c_buf_p g))\<rparr>)) (\<lambda>_.
     grow_buffer n number_to_move s))))))"

text \<open>What is read into the buffer, if anything.\<close>

definition read_more :: "nat \<Rightarrow> int \<Rightarrow> string list \<Rightarrow> addr \<Rightarrow> string list act" where
  "read_more n number_to_move src s =
     andthen (YY_CURRENT_BUFFER s) (\<lambda>b.
     andthen (get_buffer b) (\<lambda>r.
     if yy_buffer_status r = YY_BUFFER_EOF_PENDING then
       andthen (set_guts s (\<lambda>g. g\<lparr>yyg_n_chars := 0\<rparr>)) (\<lambda>_.
       andthen (set_buffer b (\<lambda>r. r\<lparr>yy_n_chars := 0\<rparr>)) (\<lambda>_. ret src))
     else
       andthen (grow_buffer n number_to_move s) (\<lambda>_.
       andthen (get_buffer b) (\<lambda>r.
       let num_to_read = min (yy_buf_size r - number_to_move - 1) YY_READ_BUF_SIZE;
           (new, rest) = yy_input num_to_read src
       in andthen (copy_bytes (yy_ch_buf r) (nat number_to_move) new) (\<lambda>_.
          andthen (set_guts s (\<lambda>g. g\<lparr>yyg_n_chars := int (length new)\<rparr>)) (\<lambda>_.
          andthen (set_buffer b (\<lambda>r. r\<lparr>yy_n_chars := int (length new)\<rparr>)) (\<lambda>_.
          ret rest)))))))"

definition judge_read :: "int \<Rightarrow> addr \<Rightarrow> refill act" where
  "judge_read number_to_move s =
     andthen (get_guts s) (\<lambda>g.
     if yyg_n_chars g = 0 then
       if number_to_move = 0 then andthen (yyrestart (yyin_r g) s) (\<lambda>_. ret EOB_ACT_END_OF_FILE)
       else andthen (YY_CURRENT_BUFFER s) (\<lambda>b.
         andthen (set_buffer b (\<lambda>r. r\<lparr>yy_buffer_status := YY_BUFFER_EOF_PENDING\<rparr>)) (\<lambda>_.
         ret EOB_ACT_LAST_MATCH))
     else ret EOB_ACT_CONTINUE_SCAN)"

definition extend_buffer :: "int \<Rightarrow> addr \<Rightarrow> unit act" where
  "extend_buffer number_to_move s =
     andthen (YY_CURRENT_BUFFER s) (\<lambda>b.
     andthen (get_buffer b) (\<lambda>r.
     andthen (get_guts s) (\<lambda>g.
     on (yy_buf_size r < yyg_n_chars g + number_to_move)
       (andthen (int_of (yyg_n_chars g + number_to_move + yyg_n_chars g div 2)) (\<lambda>new_size.
        andthen (realloc_chars (yy_ch_buf r) new_size) (\<lambda>a.
        andthen (set_buffer b (\<lambda>r. r\<lparr>yy_ch_buf := a\<rparr>)) (\<lambda>_.
        if a = 0 then yy_fatal_error ''out of dynamic memory in yy_get_next_buffer()''
        else set_buffer b (\<lambda>r. r\<lparr>yy_buf_size := new_size - 2\<rparr>))))))))"

definition end_buffer :: "int \<Rightarrow> addr \<Rightarrow> unit act" where
  "end_buffer number_to_move s =
     andthen (set_guts s (\<lambda>g. g\<lparr>yyg_n_chars := yyg_n_chars g + number_to_move\<rparr>)) (\<lambda>_.
     andthen (YY_CURRENT_BUFFER s) (\<lambda>b.
     andthen (get_buffer b) (\<lambda>r.
     andthen (get_guts s) (\<lambda>g.
     andthen (set_char (yy_ch_buf r, nat (yyg_n_chars g)) NUL) (\<lambda>_.
     andthen (set_char (yy_ch_buf r, nat (yyg_n_chars g) + 1) NUL) (\<lambda>_.
     set_guts s (\<lambda>g. g\<lparr>yytext_r := (yy_ch_buf r, 0)\<rparr>)))))))"

text \<open>\<^verbatim>\<open>yy_get_next_buffer\<close>, with what the connection still delivers, on the heap.\<close>

definition heap_get_next_buffer :: "nat \<Rightarrow> string list \<Rightarrow> addr \<Rightarrow> (refill \<times> string list) act" where
  "heap_get_next_buffer n src s =
     andthen (YY_CURRENT_BUFFER s) (\<lambda>b.
     andthen (get_buffer b) (\<lambda>r.
     andthen (get_guts s) (\<lambda>g.
     if fst (yy_c_buf_p g) \<noteq> yy_ch_buf r \<or> fst (yytext_r g) \<noteq> yy_ch_buf r then fail Undefined
     else if yyg_n_chars g + 1 < int (snd (yy_c_buf_p g)) then
       yy_fatal_error ''fatal flex scanner internal error--end of buffer missed''
     else if \<not> yy_fill_buffer r then
       ret (if int (snd (yy_c_buf_p g)) - int (snd (yytext_r g)) = 1 then EOB_ACT_END_OF_FILE else EOB_ACT_LAST_MATCH, src)
     else let number_to_move = int (snd (yy_c_buf_p g)) - int (snd (yytext_r g)) - 1 in
       andthen (move_chars (yy_ch_buf r, 0) (yytext_r g) (nat number_to_move)) (\<lambda>_.
       andthen (read_more n number_to_move src s) (\<lambda>src.
       andthen (judge_read number_to_move s) (\<lambda>ret_val.
       andthen (extend_buffer number_to_move s) (\<lambda>_.
       andthen (end_buffer number_to_move s) (\<lambda>_.
       ret (ret_val, src)))))))))"

section \<open>A scanner with one buffer\<close>

text \<open>
  Beside the blocks of \<open>B\<close> there are the object \<open>s\<close>, its stack \<open>k\<close> with the one entry \<open>b\<close>, this buffer and
  its characters \<open>a\<close>.
\<close>

definition single :: "(addr \<rightharpoonup> block) \<Rightarrow> addr \<Rightarrow> addr \<Rightarrow> addr \<Rightarrow> addr \<Rightarrow> yyguts_t \<Rightarrow> yy_buffer_state \<Rightarrow> char option list \<Rightarrow> heap \<Rightarrow> bool" where
  "single B s k b a g r cs h \<longleftrightarrow>
     blocks h = B(s \<mapsto> Guts g, k \<mapsto> Stack [b], b \<mapsto> Buffer r, a \<mapsto> Chars cs) \<and>
     distinct [0, s, k, b, a] \<and> {0, s, k, b, a} \<inter> dom B = {} \<and> dom B \<union> {s, k, b, a} \<subseteq> {..<fresh h} \<and>
     yy_buffer_stack g = k \<and> yy_buffer_stack_top g = 0 \<and> yy_buffer_stack_max g = 1 \<and> yy_start_stack g = 0 \<and>
     yy_ch_buf r = a \<and> yy_is_our_buffer r"

definition same_stack :: "yyguts_t \<Rightarrow> yyguts_t \<Rightarrow> bool" where
  "same_stack g g' \<longleftrightarrow> yy_buffer_stack g' = yy_buffer_stack g \<and> yy_buffer_stack_top g' = yy_buffer_stack_top g \<and>
     yy_buffer_stack_max g' = yy_buffer_stack_max g \<and> yy_start_stack g' = yy_start_stack g"

lemma single_reads:
  assumes "single B s k b a g r cs h"
  shows "runs e (get_guts s) h Q \<longleftrightarrow> Q g h"
    "runs e (YY_CURRENT_BUFFER s) h Q1 \<longleftrightarrow> Q1 b h"
    "runs e (get_buffer b) h Q2 \<longleftrightarrow> Q2 r h"
    "runs e (get_chars a) h Q3 \<longleftrightarrow> Q3 cs h"
    "runs e (get_char (a, i)) h Q4 \<longleftrightarrow> (\<exists>c. i < length cs \<and> cs ! i = Some c \<and> Q4 c h)"
    "b \<noteq> 0" "a \<noteq> 0" "0 < b" "0 < a" "yy_ch_buf r = a" "yy_is_our_buffer r"
  using assms by (auto simp: single_def acts accesses YY_CURRENT_BUFFER_def)

lemma single_set_guts:
  assumes "single B s k b a g r cs h" "same_stack g (f g)"
    and "\<And>h'. single B s k b a (f g) r cs h' \<Longrightarrow> room h' = room h \<Longrightarrow> Q () h'"
  shows "runs e (set_guts s f) h Q"
proof -
  have "single B s k b a (f g) r cs (h\<lparr>blocks := (blocks h)(s \<mapsto> Guts (f g))\<rparr>)"
    using assms(1,2) by (auto simp: single_def same_stack_def fun_eq_iff)
  then show ?thesis using assms by (auto simp: acts accesses single_def)
qed

lemma single_set_buffer:
  assumes "single B s k b a g r cs h" "yy_ch_buf (f r) = yy_ch_buf r" "yy_is_our_buffer (f r)"
    and "\<And>h'. single B s k b a g (f r) cs h' \<Longrightarrow> room h' = room h \<Longrightarrow> Q () h'"
  shows "runs e (set_buffer b f) h Q"
proof -
  have "single B s k b a g (f r) cs (h\<lparr>blocks := (blocks h)(b \<mapsto> Buffer (f r))\<rparr>)"
    using assms(1-3) by (auto simp: single_def fun_eq_iff)
  then show ?thesis using assms by (auto simp: acts accesses single_def)
qed

lemma single_set_char:
  assumes "single B s k b a g r cs h" "i < length cs"
    and "\<And>h'. single B s k b a g r (cs[i := Some c]) h' \<Longrightarrow> room h' = room h \<Longrightarrow> Q () h'"
  shows "runs e (set_char (a, i) c) h Q"
proof -
  have "single B s k b a g r (cs[i := Some c]) (h\<lparr>blocks := (blocks h)(a \<mapsto> Chars (cs[i := Some c]))\<rparr>)"
    using assms(1) by (auto simp: single_def fun_eq_iff)
  then show ?thesis using assms by (auto simp: acts accesses single_def)
qed

lemma single_set_errno:
  assumes "single B s k b a g r cs h" "\<And>h'. single B s k b a g r cs h' \<Longrightarrow> room h' = room h \<Longrightarrow> Q () h'"
  shows "runs e (set_errno n) h Q"
  using assms by (auto simp: acts accesses single_def)

section \<open>Moving, copying and growing\<close>

lemma single_move_chars:
  assumes "single B s k b a g r cs h" "i \<le> j" "j + n \<le> length cs" "None \<notin> set (take n (drop j cs))"
    and "\<And>h'. single B s k b a g r (take i cs @ take n (drop j cs) @ drop (i + n) cs) h' \<Longrightarrow> room h' = room h \<Longrightarrow> Q () h'"
  shows "runs e (move_chars (a, i) (a, j) n) h Q"
  using assms
proof (induction n arbitrary: i j cs h)
  case 0
  then show ?case by (simp add: acts)
next
  case (Suc n)
  note single = Suc.prems(1)
  have d: "drop j cs = cs ! j # drop (Suc j) cs" using Suc.prems(3) by (simp add: Cons_nth_drop_Suc)
  then obtain c where c: "cs ! j = Some c" using Suc.prems(4) by (cases "cs ! j") auto
  have e: "take (Suc i) (cs[i := Some c]) = take i cs @ [Some c]" "drop (Suc j) (cs[i := Some c]) = drop (Suc j) cs"
    "drop (Suc (i + n)) (cs[i := Some c]) = drop (Suc (i + n)) cs"
    using Suc.prems(2,3) by (simp_all add: take_Suc_conv_app_nth)
  show ?case
  proof (simp add: acts single_reads [OF single] c Suc.prems(3), intro conjI)
    show "j < length cs" using Suc.prems(3) by simp
    show "runs e (set_char (a, i) c) h (\<lambda>x h'. runs e (move_chars (a, Suc i) (a, Suc j) n) h' Q)"
    proof (rule single_set_char [OF single])
      fix h'
      assume h': "single B s k b a g r (cs[i := Some c]) h'" "room h' = room h"
      show "runs e (move_chars (a, Suc i) (a, Suc j) n) h' Q"
        by (rule Suc.IH [OF h'(1)]) (use Suc.prems d e c h'(2) in \<open>auto\<close>)
    qed (use Suc.prems in simp)
  qed
qed

lemma single_copy_bytes:
  assumes "single B s k b a g r cs h" "i + length w \<le> length cs"
    and "\<And>h'. single B s k b a g r (take i cs @ map Some w @ drop (i + length w) cs) h' \<Longrightarrow> room h' = room h \<Longrightarrow> Q () h'"
  shows "runs e (copy_bytes a i w) h Q"
  using assms
proof (induction w arbitrary: i cs h)
  case Nil
  then show ?case by (simp add: acts)
next
  case (Cons c w)
  have e: "take (Suc i) (cs[i := Some c]) = take i cs @ [Some c]"
    using Cons.prems(2) by (simp add: take_Suc_conv_app_nth)
  show ?case
  proof (simp add: acts, rule single_set_char [OF Cons.prems(1)])
    fix h'
    assume h': "single B s k b a g r (cs[i := Some c]) h'" "room h' = room h"
    show "runs e (copy_bytes a (Suc i) w) h' Q"
      by (rule Cons.IH [OF h'(1)]) (use Cons.prems e h'(2) in auto)
  qed (use Cons.prems in simp)
qed

text \<open>
  The memory that is left suffices for a buffer whose size doubles with every allocation, or the
  program may end for lack of it.
\<close>

definition enough :: "bool \<Rightarrow> int \<Rightarrow> nat \<Rightarrow> bool" where
  "enough e sz n \<longleftrightarrow> e \<or> 2 ^ 31 \<le> sz * 2 ^ n"

lemma single_realloc:
  assumes "single B s k b a g r cs h" "0 \<le> n" "length cs \<le> nat n"
    and "\<And>h'. room h = 0 \<Longrightarrow> blocks h' b = Some (Buffer (r\<lparr>yy_ch_buf := 0\<rparr>)) \<Longrightarrow> Q () h'"
    and "\<And>a' h'. single B s k b a' g (r\<lparr>yy_ch_buf := a'\<rparr>) (cs @ replicate (nat n - length cs) None) h' \<Longrightarrow>
      room h = Suc (room h') \<Longrightarrow> Q () h'"
  shows "runs e (realloc_chars a n) h (\<lambda>x h'. runs e (set_buffer b (\<lambda>r. r\<lparr>yy_ch_buf := x\<rparr>)) h' Q)"
proof (cases "room h = 0")
  case True
  then show ?thesis using assms(1,2,4) by (auto simp: realloc_chars_def single_def acts accesses)
next
  case False
  let ?cs = "cs @ replicate (nat n - length cs) None"
  let ?h = "h\<lparr>fresh := Suc (fresh h), room := room h - 1, blocks := B(s \<mapsto> Guts g, k \<mapsto> Stack [b],
    fresh h \<mapsto> Chars ?cs, b \<mapsto> Buffer (r\<lparr>yy_ch_buf := fresh h\<rparr>))\<rparr>"
  have f: "fresh h \<notin> {0, s, k, b, a}" "fresh h \<notin> dom B" using assms(1) by (auto simp: single_def)
  have "single B s k b (fresh h) g (r\<lparr>yy_ch_buf := fresh h\<rparr>) ?cs ?h"
    using assms(1) f by (auto simp: single_def fun_eq_iff)
  from assms(5) [OF this] have "Q () ?h" using False by simp
  then show ?thesis
    using assms(1-3) False f by (simp add: realloc_chars_def single_reads acts accesses) (simp add: single_def)
qed

lemma grow_step:
  assumes "single B s k b a g r cs h" "yy_c_buf_p g = (a, c)" "0 < yy_buf_size r" "yy_buf_size r \<le> m + 1"
    "m < 2 ^ 29" "length cs = nat (yy_buf_size r) + 2" "enough e (yy_buf_size r) (room h)"
    and "\<And>a' h'. single B s k b a' (g\<lparr>yy_c_buf_p := (a', c)\<rparr>) (r\<lparr>yy_buf_size := 2 * yy_buf_size r, yy_ch_buf := a'\<rparr>)
        (cs @ replicate (nat (yy_buf_size r)) None) h' \<Longrightarrow> enough e (2 * yy_buf_size r) (room h') \<Longrightarrow>
      runs e (grow_buffer n m s) h' Q"
  shows "runs e (grow_buffer (Suc n) m s) h Q"
proof (simp add: single_reads [OF assms(1)] acts assms(2), intro conjI impI, goal_cases)
  case 4
  let ?r = "r\<lparr>yy_buf_size := 2 * yy_buf_size r\<rparr>"
  show ?case
  proof (rule single_set_buffer [OF assms(1)], goal_cases)
    case (3 h1)
    then have h1: "single B s k b a g ?r cs h1" "room h1 = room h" using assms(3) by (simp_all add: mult.commute)
    have "0 < room h \<or> e" using assms(4,5,7) by (cases "room h") (auto simp: enough_def)
    show ?case
    proof (simp add: single_reads [OF h1(1)], intro conjI, goal_cases)
      case 3
      show ?case
      proof (rule single_realloc [OF h1(1)], goal_cases)
        case (3 h2)
        then show ?case using \<open>0 < room h \<or> e\<close> h1(2) by (simp add: acts accesses)
      next
        case (4 a' h2)
        have enough: "enough e (2 * yy_buf_size r) (room h2)" using 4(2) h1(2) assms(7) by (simp add: enough_def mult.assoc)
        show ?case
        proof (simp add: single_reads [OF 4(1)] acts, rule single_set_guts [OF 4(1)], goal_cases)
          case (2 h3)
          have "nat (2 * yy_buf_size r + 2) - length cs = nat (yy_buf_size r)" using assms(3,6) by simp
          with 2(1) have "single B s k b a' (g\<lparr>yy_c_buf_p := (a', c)\<rparr>)
              (r\<lparr>yy_buf_size := 2 * yy_buf_size r, yy_ch_buf := a'\<rparr>) (cs @ replicate (nat (yy_buf_size r)) None) h3"
            by simp
          from assms(8) [OF this] show ?case using enough 2(2) by simp
        qed (simp add: same_stack_def)
      qed (use assms(3,6) in simp_all)
    qed (use assms(3-5) in simp_all)
  qed (use assms(1) in \<open>simp_all add: single_def\<close>)
qed (use assms in auto)

lemma grow_stops:
  assumes "single B s k b a g r cs h" "yy_c_buf_p g = (a, c)" "m + 1 < yy_buf_size r" "enough e (yy_buf_size r) (room h)"
    and "\<And>a' sz h'. single B s k b a' (g\<lparr>yy_c_buf_p := (a', c)\<rparr>) (r\<lparr>yy_buf_size := sz, yy_ch_buf := a'\<rparr>)
        (cs @ replicate (nat sz - nat (yy_buf_size r)) None) h' \<Longrightarrow> enough e sz (room h') \<Longrightarrow>
      make_room m (yy_buf_size r) = Some sz \<Longrightarrow> yy_buf_size r \<le> sz \<Longrightarrow> m + 1 < sz \<Longrightarrow> Q () h'"
  shows "runs e (grow_buffer (Suc n) m s) h Q"
proof -
  have eq: "g\<lparr>yy_c_buf_p := (a, c)\<rparr> = g" "r\<lparr>yy_buf_size := yy_buf_size r, yy_ch_buf := a\<rparr> = r"
    using assms(1,2) by (simp_all add: single_def)
  have "make_room m (yy_buf_size r) = Some (yy_buf_size r)"
    using assms(3) by (subst make_room.simps) simp
  then have "Q () h"
    by (intro assms(5) [of a "yy_buf_size r", unfolded eq]) (use assms in simp_all)
  then show ?thesis using assms(3) by (simp add: single_reads [OF assms(1)] acts)
qed

lemma single_grow_buffer:
  assumes "single B s k b a g r cs h" "yy_c_buf_p g = (a, c)" "0 < yy_buf_size r" "m < 2 ^ 29"
    "length cs = nat (yy_buf_size r) + 2" "enough e (yy_buf_size r) (room h)" "m + 1 < yy_buf_size r * 2 ^ n"
    and "\<And>a' sz h'. single B s k b a' (g\<lparr>yy_c_buf_p := (a', c)\<rparr>) (r\<lparr>yy_buf_size := sz, yy_ch_buf := a'\<rparr>)
        (cs @ replicate (nat sz - nat (yy_buf_size r)) None) h' \<Longrightarrow> enough e sz (room h') \<Longrightarrow>
      make_room m (yy_buf_size r) = Some sz \<Longrightarrow> yy_buf_size r \<le> sz \<Longrightarrow> m + 1 < sz \<Longrightarrow> Q () h'"
  shows "runs e (grow_buffer (Suc n) m s) h Q"
  using assms
proof (induction n arbitrary: a g r cs h)
  case (0 a g r cs h)
  have "m + 1 < yy_buf_size r" using "0.prems"(7) by simp
  then show ?case by (rule grow_stops [OF "0.prems"(1,2) _ "0.prems"(6)]) (rule "0.prems"(8))
next
  case (Suc n a g r cs h)
  note single = Suc.prems(1)
  show ?case
  proof (cases "m + 1 < yy_buf_size r")
    case True
    show ?thesis by (rule grow_stops [OF Suc.prems(1,2) True Suc.prems(6)]) (rule Suc.prems(8))
  next
    case False
    show ?thesis
    proof (rule grow_step [OF Suc.prems(1-3) _ Suc.prems(4-6)])
      fix a' h'
      let ?g = "g\<lparr>yy_c_buf_p := (a', c)\<rparr>" and ?r = "r\<lparr>yy_buf_size := 2 * yy_buf_size r, yy_ch_buf := a'\<rparr>"
      assume h': "single B s k b a' ?g ?r (cs @ replicate (nat (yy_buf_size r)) None) h'"
        "enough e (2 * yy_buf_size r) (room h')"
      show "runs e (grow_buffer (Suc n) m s) h' Q"
      proof (rule Suc.IH [OF h'(1)], goal_cases)
        case (7 a'' sz h'')
        then have "cs @ replicate (nat (yy_buf_size r)) None @ replicate (nat sz - nat (2 * yy_buf_size r)) None =
            cs @ replicate (nat sz - nat (yy_buf_size r)) None"
          using Suc.prems(3) by (simp add: replicate_add [symmetric] nat_mult_distrib)
        moreover have "make_room m (yy_buf_size r) = Some sz"
          using 7(3) False Suc.prems(4) by (subst make_room.simps) simp
        ultimately show ?case using 7 Suc.prems(3,8) by simp
      qed (use Suc.prems h' in \<open>simp_all add: nat_mult_distrib mult.assoc\<close>)
    qed (use False in simp)
  qed
qed

section \<open>Restarting the buffer\<close>

lemma single_load:
  assumes "single B s k b a g r cs h" "yy_buf_pos r = (a, i)" "i < length cs" "cs ! i = Some c"
    and "\<And>h'. single B s k b a (g\<lparr>yyg_n_chars := yy_n_chars r, yytext_r := (a, i), yy_c_buf_p := (a, i),
      yyin_r := yy_input_file r, yy_hold_char := c\<rparr>) r cs h' \<Longrightarrow> room h' = room h \<Longrightarrow> Q () h'"
  shows "runs e (yy_load_buffer_state s) h Q"
  using assms(2-4)
  by (simp add: yy_load_buffer_state_def acts single_reads [OF assms(1)])
    (rule single_set_guts [OF assms(1)], use assms(5) in \<open>simp_all add: same_stack_def\<close>)

lemma single_flush:
  assumes "single B s k b a g r cs h" "1 < length cs"
    and "\<And>h'. single B s k b a (g\<lparr>yyg_n_chars := 0, yytext_r := (a, 0), yy_c_buf_p := (a, 0),
        yyin_r := yy_input_file r, yy_hold_char := NUL\<rparr>)
      (r\<lparr>yy_n_chars := 0, yy_buf_pos := (a, 0), yy_at_bol := True, yy_buffer_status := YY_BUFFER_NEW\<rparr>)
      (cs[0 := Some NUL, 1 := Some NUL]) h' \<Longrightarrow> room h' = room h \<Longrightarrow> Q () h'"
  shows "runs e (yy_flush_buffer b s) h Q"
proof (simp add: yy_flush_buffer_def acts single_reads [OF assms(1)], rule single_set_buffer [OF assms(1)], goal_cases)
  case (3 h1)
  show ?case
  proof (simp add: single_reads [OF 3(1)], rule single_set_char [OF 3(1)], goal_cases)
    case (2 h2)
    show ?case
    proof (rule single_set_char [OF 2(1)], goal_cases)
      case (2 h3)
      show ?case
      proof (rule single_set_buffer [OF 2(1)], goal_cases)
        case (3 h4)
        show ?case
          by (simp add: single_reads [OF 3(1)] acts, rule single_load [OF 3(1), where i = 0 and c = NUL])
            (use assms(2) less_trans [OF zero_less_one assms(2)] \<open>room h1 = _\<close> \<open>room h2 = _\<close> \<open>room h3 = _\<close> 3(2)
              single_reads(10) [OF assms(1)] in \<open>auto intro: assms(3)\<close>)
      qed (use assms(1) in \<open>simp_all add: single_def\<close>)
    qed (use assms(2) in simp)
  qed (use assms(2) in auto)
qed (use assms(1) in \<open>simp_all add: single_def\<close>)

definition restarted :: "addr \<Rightarrow> nat \<Rightarrow> yyguts_t \<Rightarrow> yyguts_t" where
  "restarted a file g = g\<lparr>yyg_n_chars := 0, yytext_r := (a, 0), yy_c_buf_p := (a, 0), yyin_r := file, yy_hold_char := NUL\<rparr>"

definition emptied :: "addr \<Rightarrow> nat \<Rightarrow> yy_buffer_state \<Rightarrow> yy_buffer_state" where
  "emptied a file r = r\<lparr>yy_n_chars := 0, yy_buf_pos := (a, 0), yy_at_bol := True, yy_buffer_status := YY_BUFFER_NEW,
     yy_input_file := file, yy_fill_buffer := True, yy_is_interactive := True\<rparr>"

lemma single_yyrestart:
  assumes "single B s k b a g r cs h" "1 < length cs"
    and "\<And>h'. single B s k b a (restarted a file g) (emptied a file r) (cs[0 := Some NUL, 1 := Some NUL]) h' \<Longrightarrow>
      room h' = room h \<Longrightarrow> Q () h'"
  shows "runs e (yyrestart file s) h Q"
proof (simp add: yyrestart_def first_buffer_def yy_init_buffer_def acts single_reads [OF assms(1)],
    rule single_flush [OF assms(1,2)], goal_cases)
  case (1 h1)
  show ?case
  proof (rule single_set_buffer [OF 1(1)], goal_cases)
    case (3 h2)
    show ?case
    proof (simp add: single_reads [OF 3(1)] acts, rule single_set_buffer [OF 3(1)], goal_cases)
      case (3 h3)
      show ?case
      proof (rule single_set_errno [OF 3(1)], goal_cases)
        case (1 h4)
        show ?case
          by (rule single_load [OF 1(1), where i = 0 and c = NUL])
            (use assms(2) less_trans [OF zero_less_one assms(2)] \<open>room h1 = _\<close> \<open>room h2 = _\<close> \<open>room h3 = _\<close> 1(2)
              in \<open>auto simp: restarted_def emptied_def intro!: assms(3)\<close>)
      qed
    qed (use assms(1) in \<open>simp_all add: single_def\<close>)
  qed (use assms(1) in \<open>simp_all add: single_def\<close>)
qed

section \<open>The refill refines the abstract one\<close>

text \<open>What the scanner keeps through a refill.\<close>

definition same_scan :: "yyguts_t \<Rightarrow> yyguts_t \<Rightarrow> bool" where
  "same_scan g g' \<longleftrightarrow> yy_start g' = yy_start g \<and> yyin_r g' = yyin_r g \<and>
     yy_last_accepting_state g' = yy_last_accepting_state g \<and> yy_last_accepting_cpos g' = yy_last_accepting_cpos g"

text \<open>The state of \<open>Flex\<close> for which a buffer stands, with the current token at an offset.\<close>

definition stands_for :: "yyguts_t \<Rightarrow> yy_buffer_state \<Rightarrow> char option list \<Rightarrow> nat \<Rightarrow> yyguts \<Rightarrow> bool" where
  "stands_for g r cs t f \<longleftrightarrow> length cs = nat (yy_buf_size r) + 2 \<and> 0 < yy_buf_size r \<and> yy_fill_buffer r \<and>
     buf_size f = yy_buf_size r \<and> (eof_pending f \<longleftrightarrow> yy_buffer_status r = YY_BUFFER_EOF_PENDING) \<and>
     yyg_n_chars g = int (t + length (ahead f)) \<and> t + length (ahead f) \<le> nat (yy_buf_size r) \<and>
     take (length (ahead f) + 2) (drop t cs) = map Some (ahead f @ [NUL, NUL])"

lemma single_end_buffer:
  assumes "single B s k b a g r cs h" "yyg_n_chars g = int j" "j + i + 1 < length cs"
    and "\<And>h'. single B s k b a (g\<lparr>yyg_n_chars := int (j + i), yytext_r := (a, 0)\<rparr>) r
      (cs[j + i := Some NUL, j + i + 1 := Some NUL]) h' \<Longrightarrow> room h' = room h \<Longrightarrow> Q () h'"
  shows "runs e (end_buffer (int i) s) h Q"
proof (simp add: end_buffer_def acts, rule single_set_guts [OF assms(1)], goal_cases)
  case (2 h1)
  have n: "nat (int j + int i) = j + i" "nat (int j + int i) + 1 = j + i + 1" by simp_all
  show ?case
  proof (simp add: single_reads [OF 2(1)] acts assms(2) nat_add_distrib, rule single_set_char [OF 2(1)], goal_cases)
    case (2 h2)
    show ?case
    proof (rule single_set_char [OF 2(1)], goal_cases)
      case (2 h3)
      show ?case
        by (rule single_set_guts [OF 2(1)])
          (use assms(2) \<open>room h1 = _\<close> \<open>room h2 = _\<close> 2(2) in \<open>auto simp: same_stack_def intro!: assms(4)\<close>)
    qed (use assms(3) in simp)
  qed (use assms(3) in simp)
qed (simp add: same_stack_def)

lemma single_finish:
  assumes "single B s k b a g r cs h" "yyg_n_chars g = int (length new)"
    "length cs = nat (yy_buf_size r) + 2" "0 < yy_buf_size r" "length old + length new \<le> nat (yy_buf_size r)"
    "take (length old + length new) cs = map Some (old @ new)"
    and "\<And>rc g' r' cs' h'. single B s k b a g' r' cs' h' \<Longrightarrow> room h' = room h \<Longrightarrow> same_scan g g' \<Longrightarrow>
      rc = (if new \<noteq> '''' then EOB_ACT_CONTINUE_SCAN else if old = '''' then EOB_ACT_END_OF_FILE else EOB_ACT_LAST_MATCH) \<Longrightarrow>
      yytext_r g' = (a, 0) \<Longrightarrow> yyg_n_chars g' = int (length old + length new) \<Longrightarrow> length cs' = length cs \<Longrightarrow>
      take (length old + length new + 2) cs' = map Some (old @ new @ [NUL, NUL]) \<Longrightarrow>
      yy_buf_size r' = yy_buf_size r \<Longrightarrow> (yy_fill_buffer r \<Longrightarrow> yy_fill_buffer r') \<Longrightarrow>
      yy_buffer_status r' = (if new \<noteq> '''' then yy_buffer_status r
        else if old = '''' then YY_BUFFER_NEW else YY_BUFFER_EOF_PENDING) \<Longrightarrow> Q rc h'"
  shows "runs e (judge_read (int (length old)) s) h (\<lambda>rc h. runs e (extend_buffer (int (length old)) s) h
    (\<lambda>_ h. runs e (end_buffer (int (length old)) s) h (\<lambda>_ h. Q rc h)))"
proof -
  let ?i = "length old" and ?j = "length new"
  let ?rc = "if new \<noteq> '''' then EOB_ACT_CONTINUE_SCAN else if old = '''' then EOB_ACT_END_OF_FILE else EOB_ACT_LAST_MATCH"
  have last: "runs e (extend_buffer (int ?i) s) h1 (\<lambda>_ h. runs e (end_buffer (int ?i) s) h (\<lambda>_ h. Q ?rc h))"
    if h1: "single B s k b a g1 r1 cs1 h1" "room h1 = room h" "same_scan g g1" "yyg_n_chars g1 = int ?j" "length cs1 = length cs"
      "take (?i + ?j) cs1 = map Some (old @ new)" "yy_buf_size r1 = yy_buf_size r" "yy_fill_buffer r \<Longrightarrow> yy_fill_buffer r1"
      "yy_buffer_status r1 = (if new \<noteq> '''' then yy_buffer_status r
        else if old = '''' then YY_BUFFER_NEW else YY_BUFFER_EOF_PENDING)"
    for g1 r1 cs1 h1
  proof -
    have "int ?j + int ?i \<le> yy_buf_size r1" using assms(4,5) h1(7) by (cases "yy_buf_size r") auto
    then have "runs e (extend_buffer (int ?i) s) h1 R \<longleftrightarrow> R () h1" for R
      by (simp add: extend_buffer_def acts single_reads [OF h1(1)] h1(4))
    then show ?thesis
    proof (simp only:, intro single_end_buffer [OF h1(1,4)])
      fix h2
      assume h2: "single B s k b a (g1\<lparr>yyg_n_chars := int (?j + ?i), yytext_r := (a, 0)\<rparr>) r1
        (cs1[?j + ?i := Some NUL, ?j + ?i + 1 := Some NUL]) h2" "room h2 = room h1"
      let ?cs = "cs1[?j + ?i := Some NUL, ?j + ?i + 1 := Some NUL]"
      have "?i + ?j + 1 < length cs1" using assms(3,5) h1(5) by simp
      then have "take (?i + ?j + 2) ?cs = take (?i + ?j) cs1 @ [Some NUL, Some NUL]"
        by (simp add: take_Suc_conv_app_nth add.commute)
      then show "Q ?rc h2"
        using h1 by (intro assms(7) [OF h2(1)]) (auto simp: h2(2) same_scan_def)
    qed (use assms(3,5) h1(5) in simp)
  qed
  show ?thesis
  proof (cases "new = ''''")
    case True
    then have g: "yyg_n_chars g = 0" using assms(2) by simp
    show ?thesis
    proof (cases "old = ''''")
      case old: True
      show ?thesis
      proof (simp add: judge_read_def acts single_reads [OF assms(1)] g old, rule single_yyrestart [OF assms(1)], goal_cases)
        case (2 h1)
        from last [OF 2] show ?case
          using True old assms(3) by (simp add: same_scan_def restarted_def emptied_def)
      qed (use assms(3) in simp)
    next
      case False
      show ?thesis
      proof (simp add: judge_read_def acts single_reads [OF assms(1)] g False, intro single_set_buffer [OF assms(1)], goal_cases)
        case (3 h1)
        from last [OF 3] show ?case using True False assms(1-6) by (simp add: same_scan_def single_def)
      qed (use assms(1) in \<open>simp_all add: single_def\<close>)
    qed
  next
    case False
    then show ?thesis
      using last [OF assms(1)] assms(2-6) by (simp add: judge_read_def acts single_reads [OF assms(1)] same_scan_def)
  qed
qed

lemma stands_for_take:
  assumes "stands_for g r cs t f" "m \<le> length (ahead f)"
  shows "take m (drop t cs) = map Some (take m (ahead f))"
proof -
  have "take m (take (length (ahead f) + 2) (drop t cs)) = take m (map Some (ahead f @ [NUL, NUL]))"
    using assms(1) by (simp add: stands_for_def)
  then show ?thesis using assms(2) by (simp add: take_map min_def)
qed

text \<open>What is read, from a buffer that starts with what is kept of the current token.\<close>

lemma single_read_more:
  assumes "single B s k b a g r cs h" "length cs = nat (yy_buf_size r) + 2" "0 < yy_buf_size r"
    "take m cs = map Some old" "length old = m" "m \<le> nat (yy_buf_size r)" "m < 2 ^ 29" "yy_c_buf_p g = (a, c)"
    "enough e (yy_buf_size r) (room h)" "30 \<le> n"
    and "\<And>g' r' cs' a' h' new rest. single B s k b a' g' r' cs' h' \<Longrightarrow> same_scan g g' \<Longrightarrow>
      yyg_n_chars g' = int (length new) \<Longrightarrow> length cs' = nat (yy_buf_size r') + 2 \<Longrightarrow> 0 < yy_buf_size r' \<Longrightarrow>
      m + length new \<le> nat (yy_buf_size r') \<Longrightarrow> take (m + length new) cs' = map Some (old @ new) \<Longrightarrow>
      yy_buffer_status r' = yy_buffer_status r \<Longrightarrow> yy_fill_buffer r' = yy_fill_buffer r \<Longrightarrow>
      enough e (yy_buf_size r') (room h') \<Longrightarrow>
      (if yy_buffer_status r = YY_BUFFER_EOF_PENDING then new = '''' \<and> rest = src \<and> yy_buf_size r' = yy_buf_size r
       else make_room (int m) (yy_buf_size r) = Some (yy_buf_size r') \<and>
         yy_input (min (yy_buf_size r' - int m - 1) YY_READ_BUF_SIZE) src = (new, rest)) \<Longrightarrow> Q rest h'"
  shows "runs e (read_more (Suc n) (int m) src s) h Q"
proof (cases "yy_buffer_status r = YY_BUFFER_EOF_PENDING")
  case True
  show ?thesis
  proof (simp add: read_more_def acts single_reads [OF assms(1)] True, rule single_set_guts [OF assms(1)], goal_cases)
    case (2 h1)
    show ?case
    proof (rule single_set_buffer [OF 2(1)], goal_cases)
      case (3 h2)
      show ?case by (rule assms(11) [OF 3(1), where new = "''''"]) (use True assms 2(2) 3(2) in \<open>simp_all add: same_scan_def\<close>)
    qed (use assms(1) in \<open>simp_all add: single_def\<close>)
  qed (simp add: same_stack_def)
next
  case False
  have "(2 :: int) ^ 30 \<le> 2 ^ n" using assms(10) by (intro power_increasing) simp_all
  then have "yy_buf_size r * 2 ^ 30 \<le> yy_buf_size r * 2 ^ n" using assms(3) by (intro mult_left_mono) simp_all
  moreover have "int m + 1 < yy_buf_size r * 2 ^ 30" using assms(3,7) by simp
  ultimately have fuel: "int m + 1 < yy_buf_size r * 2 ^ n" by linarith
  show ?thesis
  proof (simp add: read_more_def acts single_reads [OF assms(1)] False del: grow_buffer.simps,
      rule single_grow_buffer [OF assms(1,8,3) _ assms(2,9) fuel], goal_cases)
    case (2 a1 sz h1)
    let ?g = "g\<lparr>yy_c_buf_p := (a1, c)\<rparr>" and ?r = "r\<lparr>yy_buf_size := sz, yy_ch_buf := a1\<rparr>"
    let ?cs = "cs @ replicate (nat sz - nat (yy_buf_size r)) None"
    obtain new rest where io: "yy_input (min (sz - int m - 1) YY_READ_BUF_SIZE) src = (new, rest)" by force
    have new: "int (length new) \<le> sz - int m - 1"
      using io 2(5) by (auto simp: yy_input_def YY_READ_BUF_SIZE_def split: list.splits if_splits)
    have len: "length ?cs = nat sz + 2" using assms(2,3) 2(4) by simp
    have tk: "take m ?cs = map Some old" using assms(2,4,6) by simp
    show ?case
    proof (simp add: single_reads [OF 2(1)] io acts, rule single_copy_bytes [OF 2(1)], goal_cases)
      case (2 h2)
      show ?case
      proof (rule single_set_guts [OF 2(1)], goal_cases)
        case (2 h3)
        show ?case
        proof (rule single_set_buffer [OF 2(1)], goal_cases)
          case (3 h4)
          show ?case
          proof (rule assms(11) [OF 3(1), where new = new], goal_cases)
            case 3
            have "length (take m X @ map Some new @ drop (m + length new) X) = nat sz + 2" if "length X = nat sz + 2" for X
              using that new by simp
            from this [OF len] show ?case by simp
          qed (use False 3(2) \<open>room h2 = _\<close> \<open>room h3 = _\<close> len tk new io assms(3,5) \<open>make_room _ _ = _\<close> \<open>enough e sz _\<close>
            \<open>yy_buf_size r \<le> sz\<close> in \<open>auto simp: same_scan_def\<close>)
        qed (use assms(1) in \<open>simp_all add: single_def\<close>)
      qed (simp add: same_stack_def)
    qed (use len new in simp)
  qed (use assms(7) in simp)
qed

lemma refill_refines:
  assumes "single B s k b a g r cs h" "stands_for g r cs t f" "wf_source f" "yytext_r g = (a, t)"
    "yy_c_buf_p g = (a, t + m + 1)" "m \<le> length (ahead f)" "enough e (yy_buf_size r) (room h)" "30 \<le> n"
  shows "runs e (heap_get_next_buffer (Suc n) (source f) s) h (\<lambda>(rc, src) h'. \<exists>f' a' g' r' cs'.
    yy_get_next_buffer m f = Some (rc, f') \<and> source f' = src \<and> single B s k b a' g' r' cs' h' \<and>
    stands_for g' r' cs' 0 f' \<and> yytext_r g' = (a', 0) \<and> same_scan g g' \<and> enough e (yy_buf_size r') (room h') \<and>
    (rc = EOB_ACT_LAST_MATCH \<longrightarrow> yy_buffer_status r' \<noteq> YY_BUFFER_NEW) \<and>
    (rc = EOB_ACT_CONTINUE_SCAN \<longrightarrow> yy_buffer_status r' = yy_buffer_status r))"
proof -
  define old where "old = take m (ahead f)"
  have S: "length cs = nat (yy_buf_size r) + 2" "0 < yy_buf_size r" "yy_fill_buffer r" "buf_size f = yy_buf_size r"
    "eof_pending f \<longleftrightarrow> yy_buffer_status r = YY_BUFFER_EOF_PENDING" "yyg_n_chars g = int (t + length (ahead f))"
    "t + length (ahead f) \<le> nat (yy_buf_size r)"
    using assms(2) by (simp_all add: stands_for_def)
  have m: "take m (drop t cs) = map Some old" "length old = m" "m \<le> nat (yy_buf_size r)" "m < 2 ^ 29"
    using stands_for_take [OF assms(2,6)] assms(3,6) S(7) by (simp_all add: old_def wf_source_def unread_def)
  show ?thesis
  proof (simp add: heap_get_next_buffer_def acts single_reads [OF assms(1)] assms(4,5) S(3,6) Let_def,
      intro conjI impI, goal_cases)
    case 2
    show ?case
    proof (rule single_move_chars [OF assms(1)], goal_cases)
      case (4 h1)
      let ?cs = "take 0 cs @ take m (drop t cs) @ drop (0 + m) cs"
      show ?case
      proof (rule single_read_more [OF 4(1), where old = old and m = m], goal_cases)
        case (10 g1 r1 cs1 a1 h2 new rest)
        show ?case
        proof (rule single_finish [OF 10(1,3,4,5), of old, unfolded m(2)], goal_cases)
          case (3 rc g2 r2 cs2 h3)
          define f' where "f' = f\<lparr>ahead := old @ new, source := rest, buf_size := yy_buf_size r1,
            eof_pending := (if new \<noteq> '''' then eof_pending f else old \<noteq> '''')\<rparr>"
          have z: "int (length new) + int m \<le> yy_buf_size r1" using 10(5,6) by linarith
          have "yy_get_next_buffer m f = Some (rc, f')"
            using 10(11) 3(4) z S(4,5) m(2) assms(6)
            by (auto simp: yy_get_next_buffer_def f'_def Let_def old_def split: if_splits)
          moreover have "stands_for g2 r2 cs2 0 f'"
            using 3 10 S(3,5) m(2) by (auto simp: stands_for_def f'_def add.commute)
          ultimately show ?case
            using 3 10 by (auto simp: f'_def same_scan_def intro!: exI [of _ f'] exI [of _ a1] exI [of _ g2] exI [of _ r2] exI [of _ cs2])
        qed (use 10 m(2) in simp_all)
      qed (use S m assms 4(2) in auto)
    qed (use S m assms in auto)
  qed (use assms(6) in simp_all)
qed

end
