(* ===== verification/Flex_Token.thy ===== *)
theory Flex_Token
  imports Flex_Memory
begin

text \<open>
  The generated scanner on the heap: the loop of \<^verbatim>\<open>yylex\<close> with its pointers into the buffer, the
  characters it overwrites and the refills that move it. It refines the scanner of \<open>Flex\<close>.
\<close>

section \<open>The automaton on the buffer\<close>

text \<open>A value that the tables may not have.\<close>

definition table :: "'a option \<Rightarrow> 'a act" where
  "table v = (case v of None \<Rightarrow> fail Undefined | Some x \<Rightarrow> ret x)"

definition advance :: "nat \<Rightarrow> ptr \<Rightarrow> ptr" where
  "advance n p = (fst p, snd p + n)"

definition heap_note_accepting :: "nat \<Rightarrow> ptr \<Rightarrow> addr \<Rightarrow> unit act" where
  "heap_note_accepting q yy_cp s =
     andthen (table (arr_get yy_accept q)) (\<lambda>act.
     on (act \<noteq> 0) (set_guts s (\<lambda>g. g\<lparr>yy_last_accepting_state := q, yy_last_accepting_cpos := yy_cp\<rparr>)))"

fun heap_match :: "nat \<Rightarrow> nat \<Rightarrow> ptr \<Rightarrow> addr \<Rightarrow> (nat \<times> ptr) act" where
  "heap_match 0 q yy_cp s = fail Runs_on"
| "heap_match (Suc n) q yy_cp s =
     andthen (get_char yy_cp) (\<lambda>c.
     andthen (table (arr_get yy_ec (of_char c))) (\<lambda>yc.
     andthen (heap_note_accepting q yy_cp s) (\<lambda>_.
     andthen (table (yy_trans q yc)) (\<lambda>q.
     andthen (table (arr_get yy_base q)) (\<lambda>b.
     if b \<noteq> 14 then heap_match n q (advance 1 yy_cp) s else ret (q, advance 1 yy_cp))))))"

text \<open>\<^verbatim>\<open>YY_DO_BEFORE_ACTION\<close>: the text of the token ends with a null character.\<close>

definition YY_DO_BEFORE_ACTION :: "ptr \<Rightarrow> ptr \<Rightarrow> addr \<Rightarrow> unit act" where
  "YY_DO_BEFORE_ACTION yy_bp yy_cp s =
     andthen (set_guts s (\<lambda>g. g\<lparr>yytext_r := yy_bp, yyleng_r := int (snd yy_cp) - int (snd yy_bp)\<rparr>)) (\<lambda>_.
     andthen (get_char yy_cp) (\<lambda>c.
     andthen (set_guts s (\<lambda>g. g\<lparr>yy_hold_char := c\<rparr>)) (\<lambda>_.
     andthen (set_char yy_cp NUL) (\<lambda>_.
     set_guts s (\<lambda>g. g\<lparr>yy_c_buf_p := yy_cp\<rparr>)))))"

definition heap_find_action :: "nat \<Rightarrow> ptr \<Rightarrow> ptr \<Rightarrow> addr \<Rightarrow> (nat \<times> nat \<times> ptr) act" where
  "heap_find_action q yy_bp yy_cp s =
     andthen (table (arr_get yy_accept q)) (\<lambda>act.
     andthen (if act = 0 then
         andthen (get_guts s) (\<lambda>g.
         andthen (table (arr_get yy_accept (yy_last_accepting_state g))) (\<lambda>act.
         ret (act, yy_last_accepting_state g, yy_last_accepting_cpos g)))
       else ret (act, q, yy_cp)) (\<lambda>(act, q, yy_cp).
     andthen (YY_DO_BEFORE_ACTION yy_bp yy_cp s) (\<lambda>_.
     ret (act, q, yy_cp))))"

text \<open>The loop of \<^verbatim>\<open>yy_get_previous_state\<close> over the number of characters before \<^verbatim>\<open>yy_c_buf_p\<close>.\<close>

fun heap_previous :: "nat \<Rightarrow> nat \<Rightarrow> ptr \<Rightarrow> addr \<Rightarrow> nat act" where
  "heap_previous 0 q yy_cp s = ret q"
| "heap_previous (Suc n) q yy_cp s =
     andthen (get_char yy_cp) (\<lambda>c.
     andthen (if c \<noteq> NUL then table (arr_get yy_ec (of_char c)) else ret 1) (\<lambda>yc.
     andthen (heap_note_accepting q yy_cp s) (\<lambda>_.
     andthen (table (yy_trans q yc)) (\<lambda>q.
     heap_previous n q (advance 1 yy_cp) s))))"

definition heap_get_previous_state :: "addr \<Rightarrow> nat act" where
  "heap_get_previous_state s = andthen (get_guts s) (\<lambda>g.
     if fst (yy_c_buf_p g) \<noteq> fst (yytext_r g) then fail Undefined
     else heap_previous (snd (yy_c_buf_p g) - snd (yytext_r g)) (yy_start g) (yytext_r g) s)"

definition heap_try_NUL_trans :: "nat \<Rightarrow> addr \<Rightarrow> nat act" where
  "heap_try_NUL_trans q s = andthen (get_guts s) (\<lambda>g.
     andthen (heap_note_accepting q (yy_c_buf_p g) s) (\<lambda>_.
     andthen (table (yy_trans q 1)) (\<lambda>q.
     ret (if q = 13 then 0 else q))))"

section \<open>The scanner\<close>

text \<open>The text of a token, of which the actions are given \<^verbatim>\<open>yytext\<close> and \<^verbatim>\<open>yyleng\<close>.\<close>

fun read_chars :: "ptr \<Rightarrow> nat \<Rightarrow> string act" where
  "read_chars p 0 = ret ''''"
| "read_chars p (Suc n) = andthen (get_char p) (\<lambda>c. andthen (read_chars (advance 1 p) n) (\<lambda>cs. ret (c # cs)))"

definition token_text_of :: "addr \<Rightarrow> string act" where
  "token_text_of s = andthen (get_guts s) (\<lambda>g. read_chars (yytext_r g) (nat (yyleng_r g)))"

text \<open>A buffer that is scanned for the first time.\<close>

definition meet_new_buffer :: "addr \<Rightarrow> unit act" where
  "meet_new_buffer s =
     andthen (YY_CURRENT_BUFFER s) (\<lambda>b.
     andthen (get_buffer b) (\<lambda>r.
     on (yy_buffer_status r = YY_BUFFER_NEW)
       (andthen (set_guts s (\<lambda>g. g\<lparr>yyg_n_chars := yy_n_chars r\<rparr>)) (\<lambda>_.
        andthen (get_guts s) (\<lambda>g.
        set_buffer b (\<lambda>r. r\<lparr>yy_input_file := yyin_r g, yy_buffer_status := YY_BUFFER_NORMAL\<rparr>))))))"

text \<open>A null character of the input: the state and the position at which the scanner goes on.\<close>

definition scan_null :: "nat \<Rightarrow> addr \<Rightarrow> (label \<times> nat \<times> ptr) act" where
  "scan_null amount s =
     andthen (set_guts s (\<lambda>g. g\<lparr>yy_c_buf_p := advance amount (yytext_r g)\<rparr>)) (\<lambda>_.
     andthen (heap_get_previous_state s) (\<lambda>q.
     andthen (heap_try_NUL_trans q s) (\<lambda>q'.
     if q' \<noteq> 0 then
       andthen (set_guts s (\<lambda>g. g\<lparr>yy_c_buf_p := advance 1 (yy_c_buf_p g)\<rparr>)) (\<lambda>_.
       andthen (get_guts s) (\<lambda>g. ret (Match, q', yy_c_buf_p g)))
     else andthen (get_guts s) (\<lambda>g. ret (Find, q, yy_c_buf_p g)))))"

text \<open>The end of the buffer, unless that is the end of the file.\<close>

definition scan_end :: "nat \<Rightarrow> nat \<Rightarrow> string list \<Rightarrow> addr \<Rightarrow> ((label \<times> nat \<times> ptr) option \<times> string list) act" where
  "scan_end n amount src s =
     andthen (heap_get_next_buffer n src s) (\<lambda>(rc, src).
     case rc of
       EOB_ACT_END_OF_FILE \<Rightarrow>
         andthen (set_guts s (\<lambda>g. g\<lparr>yy_did_buffer_switch_on_eof := False\<rparr>)) (\<lambda>_.
         andthen (set_guts s (\<lambda>g. g\<lparr>yy_c_buf_p := yytext_r g\<rparr>)) (\<lambda>_.
         ret (None, src)))
     | EOB_ACT_CONTINUE_SCAN \<Rightarrow>
         andthen (set_guts s (\<lambda>g. g\<lparr>yy_c_buf_p := advance amount (yytext_r g)\<rparr>)) (\<lambda>_.
         andthen (heap_get_previous_state s) (\<lambda>q.
         andthen (get_guts s) (\<lambda>g. ret (Some (Match, q, yy_c_buf_p g), src))))
     | EOB_ACT_LAST_MATCH \<Rightarrow>
         andthen (YY_CURRENT_BUFFER s) (\<lambda>b.
         andthen (get_buffer b) (\<lambda>r.
         andthen (set_guts s (\<lambda>g. g\<lparr>yy_c_buf_p := (yy_ch_buf r, nat (yyg_n_chars g))\<rparr>)) (\<lambda>_.
         andthen (heap_get_previous_state s) (\<lambda>q.
         andthen (get_guts s) (\<lambda>g. ret (Some (Find, q, yy_c_buf_p g), src)))))))"

text \<open>\<^verbatim>\<open>YY_END_OF_BUFFER\<close>: the current text is kept, and matched again when more has been read.\<close>

definition end_of_buffer_action :: "nat \<Rightarrow> ptr \<Rightarrow> string list \<Rightarrow> addr \<Rightarrow> ((label \<times> nat \<times> ptr) option \<times> string list) act" where
  "end_of_buffer_action n yy_cp src s =
     andthen (get_guts s) (\<lambda>g.
     if fst yy_cp \<noteq> fst (yytext_r g) then fail Undefined
     else let amount = snd yy_cp - snd (yytext_r g) - 1 in
       andthen (set_char yy_cp (yy_hold_char g)) (\<lambda>_.
       andthen (meet_new_buffer s) (\<lambda>_.
       andthen (get_guts s) (\<lambda>g.
       if int (snd (yy_c_buf_p g)) \<le> yyg_n_chars g
       then andthen (scan_null amount s) (\<lambda>l. ret (Some l, src))
       else scan_end n amount src s))))"

text \<open>One token; \<^verbatim>\<open>yy_bp\<close> is \<^verbatim>\<open>yytext_ptr\<close> again whenever the scanner goes on with it.\<close>

fun heap_token :: "nat \<Rightarrow> label \<Rightarrow> nat \<Rightarrow> ptr \<Rightarrow> ptr \<Rightarrow> string list \<Rightarrow> addr \<Rightarrow> ((nat \<times> string) option \<times> string list) act" where
  "heap_token 0 l q yy_bp yy_cp src s = fail Runs_on"
| "heap_token (Suc n) l q yy_bp yy_cp src s =
     andthen (if l = Match then heap_match n q yy_cp s else ret (q, yy_cp)) (\<lambda>(q, yy_cp).
     andthen (heap_find_action q yy_bp yy_cp s) (\<lambda>(act, q, yy_cp).
     if act = 0 then
       andthen (get_guts s) (\<lambda>g.
       andthen (set_char yy_cp (yy_hold_char g)) (\<lambda>_.
       heap_token n Find (yy_last_accepting_state g) yy_bp (yy_last_accepting_cpos g) src s))
     else if act \<noteq> 6 then andthen (token_text_of s) (\<lambda>text. ret (Some (act, text), src))
     else
       andthen (end_of_buffer_action n yy_cp src s) (\<lambda>(next, src).
       case next of
         None \<Rightarrow> ret (None, src)
       | Some (l, q, yy_cp) \<Rightarrow> andthen (get_guts s) (\<lambda>g. heap_token n l q (yytext_r g) yy_cp src s))))"

text \<open>The loop of \<^verbatim>\<open>yylex\<close>: the actions it executes, with their texts.\<close>

fun heap_tokens :: "nat \<Rightarrow> string list \<Rightarrow> addr \<Rightarrow> (nat \<times> string) list act" where
  "heap_tokens 0 src s = fail Runs_on"
| "heap_tokens (Suc n) src s =
     andthen (get_guts s) (\<lambda>g.
     andthen (set_char (yy_c_buf_p g) (yy_hold_char g)) (\<lambda>_.
     andthen (heap_token n Match (yy_start g) (yy_c_buf_p g) (yy_c_buf_p g) src s) (\<lambda>(tok, src).
     case tok of
       None \<Rightarrow> ret []
     | Some t \<Rightarrow> andthen (heap_tokens n src s) (\<lambda>ts. ret (t # ts)))))"

section \<open>A scanner in the middle of a token\<close>

lemma runs_table [acts]: "runs e (table (Some x)) h Q \<longleftrightarrow> Q x h"
  by (simp add: table_def acts)

text \<open>The state of the automaton after a text, in which a null character has the class of the others.\<close>

definition state_after :: "string \<Rightarrow> nat" where
  "state_after z = fold (\<lambda>c q. delta q (class_of c)) z 1"

text \<open>The token starts at the offset \<open>t\<close> of the buffer \<open>a\<close>, which stands for \<open>f\<close>.\<close>

definition scanning :: "bool \<Rightarrow> (addr \<rightharpoonup> block) \<Rightarrow> addr \<Rightarrow> addr \<Rightarrow> addr \<Rightarrow> addr \<Rightarrow> nat \<Rightarrow> yyguts_t \<Rightarrow> yy_buffer_state \<Rightarrow>
    char option list \<Rightarrow> yyguts \<Rightarrow> heap \<Rightarrow> bool" where
  "scanning e B s k b a t g r cs f h \<longleftrightarrow> single B s k b a g r cs h \<and> stands_for g r cs t f \<and> wf_source f \<and>
     yy_start g = 1 \<and> (yy_buffer_status r = YY_BUFFER_NEW \<longrightarrow> yy_n_chars r = yyg_n_chars g) \<and>
     enough e (yy_buf_size r) (room h)"

definition noted :: "nat \<Rightarrow> ptr \<Rightarrow> yyguts_t \<Rightarrow> yyguts_t" where
  "noted q p g = g\<lparr>yy_last_accepting_state := q, yy_last_accepting_cpos := p\<rparr>"

text \<open>
  A state that is reached at a position: one of the automaton, or 3 behind the end of the buffer or
  a null character.
\<close>

definition accepts_at :: "yyguts \<Rightarrow> nat \<Rightarrow> nat \<Rightarrow> bool" where
  "accepts_at f q c \<longleftrightarrow>
     q \<in> states \<and> accept q \<noteq> 0 \<and> c \<le> length (ahead f) \<and> state_after (take c (ahead f)) = q \<or>
     q = 3 \<and> 0 < c \<and> c - 1 \<le> length (ahead f) \<and> state_after (take (c - 1) (ahead f)) \<in> states \<and>
       (c - 1 < length (ahead f) \<longrightarrow> ahead f ! (c - 1) = NUL)"

text \<open>
  The last accepting state is known, or the next character makes it known. Behind a refill it is
  a pointer into the old buffer, which is never followed.
\<close>

definition known :: "addr \<Rightarrow> nat \<Rightarrow> yyguts_t \<Rightarrow> yyguts \<Rightarrow> accepting \<Rightarrow> bool" where
  "known a t g f la \<longleftrightarrow> yy_last_accepting_state g = fst la \<and> yy_last_accepting_cpos g = (a, t + snd la) \<and>
     accepts_at f (fst la) (snd la)"

definition due :: "nat \<Rightarrow> bool" where
  "due q \<longleftrightarrow> accept q \<noteq> 0 \<or> q = 1"

lemma stands_for_same [simp]:
  "stands_for (noted q p g) r cs t f = stands_for g r cs t f"
  "stands_for g r cs t (f\<lparr>last_accepting := la\<rparr>) = stands_for g r cs t f"
  by (simp_all add: stands_for_def noted_def)

lemma noted_simps [simp]:
  "same_stack g (noted q p g)" "yy_start (noted q p g) = yy_start g" "yyg_n_chars (noted q p g) = yyg_n_chars g"
  "yy_hold_char (noted q p g) = yy_hold_char g" "yytext_r (noted q p g) = yytext_r g" "yy_c_buf_p (noted q p g) = yy_c_buf_p g"
  "noted q p (noted q' p' g) = noted q p g" "yyin_r (noted q p g) = yyin_r g"
  by (simp_all add: noted_def same_stack_def)

lemma known_noted: "accepts_at f q c \<Longrightarrow> known a t (noted q (a, t + c) g) f (q, c)"
  by (simp add: known_def noted_def)

lemma scanning_char:
  assumes "scanning e B s k b a t g r cs f h" "i < length (ahead f) + 2"
  shows "t + i < length cs" "cs ! (t + i) = Some ((ahead f @ [NUL, NUL]) ! i)"
proof -
  have tk: "take (length (ahead f) + 2) (drop t cs) = map Some (ahead f @ [NUL, NUL])"
    and le: "t + length (ahead f) \<le> nat (yy_buf_size r)" "length cs = nat (yy_buf_size r) + 2"
    using assms(1) by (simp_all add: scanning_def stands_for_def)
  show "t + i < length cs" using le assms(2) by simp
  have "take (length (ahead f) + 2) (drop t cs) ! i = cs ! (t + i)" using le assms(2) by simp
  then show "cs ! (t + i) = Some ((ahead f @ [NUL, NUL]) ! i)" unfolding tk using assms(2) by (simp del: map_append)
qed

lemma scanning_note:
  assumes "scanning e B s k b a t g r cs f h" "q < 14"
    and "\<And>h'. scanning e B s k b a t (if accept q \<noteq> 0 then noted q p g else g) r cs f h' \<Longrightarrow> Q () h'"
  shows "runs e (heap_note_accepting q p s) h Q"
proof -
  have single: "single B s k b a g r cs h" using assms(1) by (simp add: scanning_def)
  show ?thesis
  proof (cases "accept q = 0")
    case True
    then show ?thesis using assms by (simp add: heap_note_accepting_def acts)
  next
    case False
    then show ?thesis
    proof (simp add: heap_note_accepting_def acts assms(2), intro single_set_guts [OF single], goal_cases)
      case (2 h')
      then have "single B s k b a (noted q p g) r cs h'" by (simp add: noted_def)
      then have "scanning e B s k b a t (noted q p g) r cs f h'" using assms(1) 2 by (simp add: scanning_def)
      from assms(3) [of h'] this False show ?case by simp
    qed (simp add: same_stack_def)
  qed
qed

lemma state_after_snoc: "i < length z \<Longrightarrow> state_after (take (Suc i) z) = delta (state_after (take i z)) (class_of (z ! i))"
  by (simp add: state_after_def take_Suc_conv_app_nth)

lemma due_delta: "due (delta 1 (class_of c))" "delta 1 (class_of c) \<noteq> 13" "accept (delta 1 (class_of c)) \<noteq> 0"
  by (auto simp: due_def delta_def class_of_def yy_accept_def)

lemma final_accept: "q \<in> final_states \<Longrightarrow> q \<noteq> 13 \<Longrightarrow> accept q \<noteq> 0"
  by (auto simp: final_states_def yy_accept_def)

lemma known_after:
  assumes "known a t g f la \<or> due q" "q \<in> states" "cp \<le> length (ahead f)" "state_after (take cp (ahead f)) = q"
    and "g' = (if accept q \<noteq> 0 then noted q (a, t + cp) g else g)" "la' = upd q cp la"
  shows "known a t g' f la' \<or> q = 1"
proof (cases "accept q = 0")
  case True
  then show ?thesis using assms by (auto simp: due_def upd_def)
next
  case False
  then have "accepts_at f q cp" using assms(2-4) by (auto simp: accepts_at_def)
  then show ?thesis using False assms(5,6) by (simp add: known_noted upd_def)
qed

lemma scanning_match:
  assumes "scanning e B s k b a t g r cs f h" "q \<in> states" "cp \<le> length (ahead f)"
    "state_after (take cp (ahead f)) = q" "known a t g f la \<or> due q" "length (ahead f) + 2 - cp \<le> n"
    and "\<And>q' cp' la' g' h'. yy_match (drop cp (ahead f) @ [NUL, NUL]) q cp la = Some (q', cp', la') \<Longrightarrow>
      scanning e B s k b a t g' r cs f h' \<Longrightarrow>
      accepts_at f q' cp' \<and> accept q' \<noteq> 0 \<or> q' = 13 \<and> known a t g' f la' \<Longrightarrow> Q (q', (a, t + cp')) h'"
  shows "runs e (heap_match n q (a, t + cp) s) h Q"
  using assms
proof (induction n arbitrary: q cp g la h)
  case 0
  then show ?case by simp
next
  case (Suc n)
  note sc = Suc.prems(1)
  have single: "single B s k b a g r cs h" using sc by (simp add: scanning_def)
  have q: "q < 14" using state_facts [OF Suc.prems(2)] by simp
  define g1 where "g1 = (if accept q \<noteq> 0 then noted q (a, t + cp) g else g)"
  define la1 where "la1 = upd q cp la"
  have known: "known a t g1 f la1 \<or> q = 1"
    by (rule known_after [OF Suc.prems(5,2,3,4) g1_def la1_def])
  show ?case
  proof (cases "cp < length (ahead f) \<and> ahead f ! cp \<noteq> NUL")
    case True
    then have cp: "cp < length (ahead f)" and c: "ahead f ! cp \<noteq> NUL" by simp_all
    have ch: "t + cp < length cs" "cs ! (t + cp) = Some (ahead f ! cp)"
      using scanning_char [OF sc, of cp] cp by (simp_all add: nth_append)
    let ?q = "delta q (class_of (ahead f ! cp))"
    have tr: "yy_trans q (class_of (ahead f ! cp)) = Some ?q" by (rule yy_trans_delta [OF Suc.prems(2)]) simp
    have st: "?q \<in> states \<or> ?q = 13" using delta_class [OF Suc.prems(2)] by blast
    obtain b' where b': "arr_get yy_base ?q = Some b'" "b' = 14 \<longleftrightarrow> ?q \<in> final_states" using base_get [OF st] by blast
    have d: "drop cp (ahead f) @ [NUL, NUL] = ahead f ! cp # drop (Suc cp) (ahead f) @ [NUL, NUL]"
      using cp by (simp add: Cons_nth_drop_Suc)
    have m: "yy_match (drop cp (ahead f) @ [NUL, NUL]) q cp la =
        (if b' \<noteq> 14 then yy_match (drop (Suc cp) (ahead f) @ [NUL, NUL]) ?q (cp + 1) la1 else Some (?q, cp + 1, la1))"
      unfolding d using c tr b' q by (simp add: yy_ec_class la1_def)
    have after: "state_after (take (Suc cp) (ahead f)) = ?q" using state_after_snoc [OF cp] Suc.prems(4) by simp
    show ?thesis
    proof (simp add: single_reads [OF single] ch acts yy_ec_class c, rule scanning_note [OF sc q], goal_cases)
      case (1 h1)
      then have h1: "scanning e B s k b a t g1 r cs f h1" by (simp add: g1_def)
      show ?case
      proof (cases "?q \<in> final_states")
        case True
        have "accepts_at f ?q (cp + 1) \<and> accept ?q \<noteq> 0 \<or> ?q = 13 \<and> known a t g1 f la1"
          using known due_delta(2) st after cp final_accept [OF True] by (cases "?q = 13") (auto simp: accepts_at_def)
        from Suc.prems(7) [OF _ h1 this] m b' True show ?thesis by (simp add: tr acts advance_def)
      next
        case False
        then have "?q \<in> states" using st by (auto simp: final_states_def)
        moreover have "known a t g1 f la1 \<or> due ?q" using known due_delta(1) by auto
        ultimately have "runs e (heap_match n ?q (a, t + Suc cp) s) h1 Q"
          using Suc.prems(6) cp after m b' False
          by (intro Suc.IH [OF h1, where la = la1]) (auto intro: Suc.prems(7))
        then show ?thesis using b' False by (simp add: tr acts advance_def)
      qed
    qed
  next
    case False
    have L: "Suc cp < length (ahead f) + 2" using Suc.prems(3) by simp
    have nul: "(ahead f @ [NUL, NUL]) ! cp = NUL" using False Suc.prems(3) by (cases "cp < length (ahead f)") (auto simp: nth_append)
    define d where "d = (ahead f @ [NUL, NUL]) ! Suc cp"
    have ch: "t + cp < length cs" "cs ! (t + cp) = Some NUL" "Suc (t + cp) < length cs" "cs ! Suc (t + cp) = Some d"
      using scanning_char [OF sc, of cp] scanning_char [OF sc L] nul L by (simp_all add: d_def)
    let ?X = "ahead f @ [NUL, NUL]"
    have "drop cp (ahead f) @ [NUL, NUL] = drop cp ?X" using Suc.prems(3) by simp
    also have "\<dots> = ?X ! cp # ?X ! Suc cp # drop (Suc (Suc cp)) ?X"
      using L by (simp add: Cons_nth_drop_Suc del: drop_append append_Cons)
    finally have dr: "drop cp (ahead f) @ [NUL, NUL] = NUL # d # drop (Suc (Suc cp)) ?X" by (simp only: nul d_def)
    obtain k' where n: "n = Suc k'" using Suc.prems(3,6) by (cases n) auto
    have tr: "yy_trans q 0 = Some 3" using yy_trans_delta [OF Suc.prems(2), of 0] by (simp add: delta_def)
    obtain yc where yc: "arr_get yy_ec (of_char d) = Some yc" and tr3: "yy_trans 3 yc = Some 13"
      using yy_ec_class [of d] trans_3 [of "if d = NUL then 0 else class_of d"] by auto
    have ec: "arr_get yy_ec (of_char NUL) = Some 0" by (simp add: yy_ec_class)
    have at: "accepts_at f 3 (cp + 1)" using Suc.prems(2-4) False by (auto simp: accepts_at_def)
    have m: "yy_match (drop cp (ahead f) @ [NUL, NUL]) q cp la = Some (13, cp + 2, (3, cp + 1))"
      unfolding dr using q tr tr3 by (simp add: ec yc upd_def cong: if_cong)
    show ?thesis
    proof (simp add: single_reads [OF single] ch acts yy_ec_class, rule scanning_note [OF sc q], goal_cases)
      case (1 h1)
      then have h1: "scanning e B s k b a t g1 r cs f h1" by (simp add: g1_def)
      then have single1: "single B s k b a g1 r cs h1" by (simp add: scanning_def)
      show ?case
      proof (simp add: tr acts n advance_def single_reads [OF single1] ch yc, rule scanning_note [OF h1], goal_cases)
        case (2 h2)
        have "known a t (noted 3 (a, t + (cp + 1)) g1) f (3, cp + 1)" by (rule known_noted [OF at])
        with Suc.prems(7) [OF m, of "noted 3 (a, t + (cp + 1)) g1" h2] 2 tr3 show ?case by (simp add: acts)
      qed simp
    qed
  qed
qed

text \<open>The states before a position that is reached.\<close>

lemma state_after_states: "state_after z \<in> states \<or> state_after z = 13"
proof (induction z rule: rev_induct)
  case (snoc c z)
  then show ?case using delta_class [of "state_after z" c] by (auto simp: state_after_def)
qed (simp add: state_after_def states_def)

lemma states_before:
  assumes "state_after (take m z) \<in> states" "j \<le> m" "m \<le> length z"
  shows "state_after (take j z) \<in> states"
  using assms(2)
proof (induction rule: inc_induct)
  case base
  show ?case by (rule assms(1))
next
  case (step n)
  have "state_after (take n z) \<noteq> 13"
    using step state_after_snoc [of n z] assms(3) by (auto simp: states_def)
  then show ?case using state_after_states [of "take n z"] by blast
qed

lemma scanning_previous:
  assumes "scanning e B s k b a t g r cs f h" "m \<le> length (ahead f)" "state_after (take m (ahead f)) \<in> states"
    "j \<le> m" "q = state_after (take j (ahead f))" "known a t g f la \<or> due q"
    and "\<And>q' la' g' h'. previous_loop (take (m - j) (drop j (ahead f))) q j la = Some (q', la') \<Longrightarrow>
      q' = state_after (take m (ahead f)) \<Longrightarrow> scanning e B s k b a t g' r cs f h' \<Longrightarrow> known a t g' f la' \<or> due q' \<Longrightarrow>
      yytext_r g' = yytext_r g \<Longrightarrow> yy_c_buf_p g' = yy_c_buf_p g \<Longrightarrow> Q q' h'"
  shows "runs e (heap_previous (m - j) q (a, t + j) s) h Q"
  using assms
proof (induction "m - j" arbitrary: j q g la h)
  case 0
  then have "j = m" by simp
  with "0.prems" show ?case by (simp add: acts)
next
  case (Suc n)
  note sc = Suc.prems(1)
  have single: "single B s k b a g r cs h" using sc by (simp add: scanning_def)
  have j: "j < m" "j < length (ahead f)" using Suc.hyps(2) Suc.prems(2) by simp_all
  have st: "q \<in> states" using states_before [OF Suc.prems(3) _ Suc.prems(2)] j Suc.prems(5) by simp
  then have q: "q < 14" by (rule state_facts)
  let ?c = "ahead f ! j"
  define yc where "yc = class_of ?c"
  have ec: "arr_get yy_ec (of_char ?c) = Some yc" if "?c \<noteq> NUL" using that by (simp add: yy_ec_class yc_def)
  have ec0: "yc = 1" if "?c = NUL" using that by (simp add: yc_def)
  have tr: "yy_trans q yc = Some (delta q yc)" unfolding yc_def by (rule yy_trans_delta [OF st]) simp
  have ch: "t + j < length cs" "cs ! (t + j) = Some ?c"
    using scanning_char [OF sc, of j] j by (simp_all add: nth_append)
  have d: "take (m - j) (drop j (ahead f)) = ?c # take n (drop (Suc j) (ahead f))"
    using j Suc.hyps(2) by (cases "m - j") (simp_all add: Cons_nth_drop_Suc [symmetric])
  have mj: "n = m - Suc j" using Suc.hyps(2) by simp
  define g1 where "g1 = (if accept q \<noteq> 0 then noted q (a, t + j) g else g)"
  define la1 where "la1 = upd q j la"
  have kn: "known a t g1 f la1 \<or> q = 1"
    by (rule known_after [OF Suc.prems(6) st _ _ g1_def la1_def]) (use j Suc.prems(5) in simp_all)
  have prev: "previous_loop (take (m - j) (drop j (ahead f))) q j la =
      previous_loop (take (m - Suc j) (drop (Suc j) (ahead f))) (delta q yc) (Suc j) la1"
    unfolding d mj using ec ec0 tr q by (cases "?c = NUL") (simp_all add: la1_def)
  have go: "runs e (heap_note_accepting q (a, t + j) s) h (\<lambda>_ h'. runs e (table (yy_trans q yc)) h'
      (\<lambda>q h'. runs e (heap_previous n q (advance 1 (a, t + j)) s) h' Q))"
  proof (rule scanning_note [OF sc q], goal_cases)
    case (1 h1)
    then have h1: "scanning e B s k b a t g1 r cs f h1" by (simp add: g1_def)
    have after: "delta q yc = state_after (take (Suc j) (ahead f))"
      using state_after_snoc [OF j(2)] Suc.prems(5) by (simp add: yc_def)
    have kn1: "known a t g1 f la1 \<or> due (delta q yc)" using kn due_delta(1) [of ?c] by (auto simp: yc_def)
    have "runs e (heap_previous (m - Suc j) (delta q yc) (a, t + Suc j) s) h1 Q"
    proof (rule Suc.hyps(1) [OF mj h1 Suc.prems(2,3) _ after kn1], goal_cases)
      case (2 q' la' g' h')
      then show ?case using Suc.prems(7) [of q' la' g' h'] by (simp add: prev g1_def split: if_splits)
    qed (use j in simp)
    then show ?case by (simp add: tr acts advance_def mj)
  qed
  show ?case
    unfolding Suc.hyps(2) [symmetric] heap_previous.simps
    using go ch ec ec0 by (cases "?c = NUL") (simp_all add: single_reads [OF single] acts)
qed

section \<open>A scanner with the text of a token cut off\<close>

definition stopped :: "bool \<Rightarrow> (addr \<rightharpoonup> block) \<Rightarrow> addr \<Rightarrow> addr \<Rightarrow> addr \<Rightarrow> addr \<Rightarrow> nat \<Rightarrow> yyguts_t \<Rightarrow> yy_buffer_state \<Rightarrow>
    char option list \<Rightarrow> yyguts \<Rightarrow> nat \<Rightarrow> heap \<Rightarrow> bool" where
  "stopped e B s k b a t g r cs f c h \<longleftrightarrow> single B s k b a g r (cs[t + c := Some NUL]) h \<and> stands_for g r cs t f \<and>
     wf_source f \<and> yy_start g = 1 \<and> (yy_buffer_status r = YY_BUFFER_NEW \<longrightarrow> yy_n_chars r = yyg_n_chars g) \<and>
     enough e (yy_buf_size r) (room h) \<and> yytext_r g = (a, t) \<and> yyleng_r g = int c \<and> yy_c_buf_p g = (a, t + c) \<and>
     t + c < length cs \<and> cs ! (t + c) = Some (yy_hold_char g)"

lemma scanning_stop:
  assumes "scanning e B s k b a t g r cs f h" "c < length (ahead f) + 2"
    and "\<And>g' h'. stopped e B s k b a t g' r cs f c h' \<Longrightarrow> known a t g f la = known a t g' f la \<Longrightarrow> Q () h'"
  shows "runs e (YY_DO_BEFORE_ACTION (a, t) (a, t + c) s) h Q"
proof -
  have single: "single B s k b a g r cs h" using assms(1) by (simp add: scanning_def)
  note ch = scanning_char [OF assms(1,2)]
  show ?thesis
  proof (simp add: YY_DO_BEFORE_ACTION_def acts, rule single_set_guts [OF single], goal_cases)
    case (2 h1)
    show ?case
    proof (simp add: single_reads [OF 2(1)] ch, rule single_set_guts [OF 2(1)], goal_cases)
      case (2 h2)
      show ?case
      proof (rule single_set_char [OF 2(1) ch(1)], goal_cases)
        case (1 h3)
        show ?case
        proof (rule single_set_guts [OF 1(1)], goal_cases)
          case (2 h4)
          show ?case
            by (rule assms(3) [of "g\<lparr>yytext_r := (a, t), yyleng_r := int c,
                yy_hold_char := (ahead f @ [NUL, NUL]) ! c, yy_c_buf_p := (a, t + c)\<rparr>"])
              (use assms(1) ch 2 \<open>room h1 = _\<close> \<open>room h2 = _\<close> \<open>room h3 = _\<close>
              in \<open>auto simp: stopped_def scanning_def stands_for_def known_def\<close>)
        qed (simp add: same_stack_def)
      qed
    qed (simp add: same_stack_def)
  qed (simp add: same_stack_def)
qed

lemma stopped_restore:
  assumes "stopped e B s k b a t g r cs f c h" "\<And>h'. scanning e B s k b a t g r cs f h' \<Longrightarrow> Q () h'"
  shows "runs e (set_char (a, t + c) (yy_hold_char g)) h Q"
proof -
  have single: "single B s k b a g r (cs[t + c := Some NUL]) h" using assms(1) by (simp add: stopped_def)
  show ?thesis
  proof (rule single_set_char [OF single], goal_cases)
    case (2 h')
    have "cs[t + c := Some (yy_hold_char g)] = cs" using assms(1) by (simp add: stopped_def list_update_same_conv)
    then show ?case using 2 assms(1) by (intro assms(2)) (simp add: stopped_def scanning_def)
  qed (use assms(1) in \<open>simp add: stopped_def\<close>)
qed

lemma single_read_chars:
  assumes "single B s k b a g r cs h" "take n (drop i cs) = map Some w" "length w = n"
  shows "runs e (read_chars (a, i) n) h Q \<longleftrightarrow> Q w h"
  using assms(2,3)
proof (induction n arbitrary: i w Q)
  case 0
  then show ?case by (simp add: acts)
next
  case (Suc n)
  then obtain c v where w: "w = c # v" by (cases w) auto
  have i: "i < length cs" using Suc.prems w by (cases "i < length cs") auto
  then have "cs ! i = Some c" "take n (drop (Suc i) cs) = map Some v" "length v = n"
    using Suc.prems w by (simp_all add: Cons_nth_drop_Suc [symmetric])
  then show ?case using i by (simp add: acts single_reads [OF assms(1)] advance_def Suc.IH w)
qed

lemma stopped_text:
  assumes "stopped e B s k b a t g r cs f c h" "c \<le> length (ahead f)"
  shows "runs e (token_text_of s) h Q \<longleftrightarrow> Q (take c (ahead f)) h"
proof -
  have single: "single B s k b a g r (cs[t + c := Some NUL]) h" and st: "stands_for g r cs t f"
    and g: "yytext_r g = (a, t)" "yyleng_r g = int c"
    using assms(1) by (simp_all add: stopped_def)
  have "take c (drop t (cs[t + c := Some NUL])) = map Some (take c (ahead f))"
    using stands_for_take [OF st assms(2)] by (simp add: drop_update_swap)
  then show ?thesis
    using assms(2) by (simp add: token_text_of_def acts single_reads [OF single] single_read_chars [OF single] g)
qed

lemma scanning_find:
  assumes "scanning e B s k b a t g r cs f h" "accepts_at f q cp \<and> accept q \<noteq> 0 \<or> q < 14 \<and> accept q = 0 \<and> known a t g f la"
    and "\<And>act q' cp' g' h'. yy_find_action q cp la = Some (act, cp') \<Longrightarrow> accepts_at f q' cp' \<Longrightarrow> act = accept q' \<Longrightarrow>
      stopped e B s k b a t g' r cs f cp' h' \<Longrightarrow> known a t g f la = known a t g' f la \<Longrightarrow> Q (act, q', (a, t + cp')) h'"
  shows "runs e (heap_find_action q (a, t) (a, t + cp) s) h Q"
proof -
  have single: "single B s k b a g r cs h" using assms(1) by (simp add: scanning_def)
  have le: "c < length (ahead f) + 2" "p < 14" if "accepts_at f p c" for p c
    using that state_facts(1) [of p] by (auto simp: accepts_at_def)
  show ?thesis
  proof (cases "accept q = 0")
    case True
    with assms(2) have kn: "known a t g f la" and q: "q < 14" by simp_all
    then have la: "accepts_at f (fst la) (snd la)" "yy_last_accepting_state g = fst la" "yy_last_accepting_cpos g = (a, t + snd la)"
      by (simp_all add: known_def)
    note l = le [OF la(1)]
    show ?thesis
      by (simp add: heap_find_action_def True q acts single_reads [OF single] la(2,3) l(2),
          rule scanning_stop [OF assms(1) l(1), where la = la])
        (use l la(1) True q in \<open>auto intro!: assms(3) simp: yy_find_action_def\<close>)
  next
    case False
    with assms(2) have q: "accepts_at f q cp" "accept q \<noteq> 0" by simp_all
    note l = le [OF q(1)]
    show ?thesis
      by (simp add: heap_find_action_def acts l(2) q(2), rule scanning_stop [OF assms(1) l(1), where la = la])
        (use l q in \<open>auto intro!: assms(3) simp: yy_find_action_def\<close>)
  qed
qed

section \<open>The end of the buffer\<close>

text \<open>What \<open>Flex\<close> does at the end of the buffer: where it goes on, if at all.\<close>

definition end_step :: "nat \<Rightarrow> yyguts \<Rightarrow> ((label \<times> nat \<times> nat) option \<times> yyguts) option" where
  "end_step cp f =
     (let amount = cp - 1 in
      if cp \<le> length (ahead f) then do {
        (q, la) \<leftarrow> yy_get_previous_state (take amount (ahead f)) (last_accepting f);
        (q', la) \<leftarrow> yy_try_NUL_trans q amount la;
        Some (Some (if q' \<noteq> 0 then (Match, q', amount + 1) else (Find, q, amount)), f\<lparr>last_accepting := la\<rparr>) }
      else do {
        (rc, f) \<leftarrow> yy_get_next_buffer amount f;
        case rc of
          EOB_ACT_END_OF_FILE \<Rightarrow> Some (None, f)
        | EOB_ACT_CONTINUE_SCAN \<Rightarrow> do {
            (q, la) \<leftarrow> yy_get_previous_state (take amount (ahead f)) (last_accepting f);
            Some (Some (Match, q, amount), f\<lparr>last_accepting := la\<rparr>) }
        | EOB_ACT_LAST_MATCH \<Rightarrow> do {
            (q, la) \<leftarrow> yy_get_previous_state (ahead f) (last_accepting f);
            Some (Some (Find, q, length (ahead f)), f\<lparr>last_accepting := la\<rparr>) } })"

text \<open>The conditions under which the scanner goes on at a label.\<close>

definition ready :: "addr \<Rightarrow> nat \<Rightarrow> yyguts_t \<Rightarrow> label \<Rightarrow> nat \<Rightarrow> nat \<Rightarrow> yyguts \<Rightarrow> bool" where
  "ready a t g l q cp f \<longleftrightarrow> q \<in> states \<and> cp \<le> length (ahead f) \<and> state_after (take cp (ahead f)) = q \<and>
     (known a t g f (last_accepting f) \<or> (if l = Match then due q else accept q \<noteq> 0))"

lemma scanning_accepting [simp]:
  "scanning e B s k b a t g r cs (f\<lparr>last_accepting := la\<rparr>) h = scanning e B s k b a t g r cs f h"
  "known a t g (f\<lparr>last_accepting := la\<rparr>) l = known a t g f l"
  by (simp_all add: scanning_def known_def accepts_at_def)

lemma scanning_set_guts:
  assumes "scanning e B s k b a t g r cs f h" "same_stack g (u g)" "yyg_n_chars (u g) = yyg_n_chars g"
    "yy_start (u g) = yy_start g"
    and "\<And>h'. scanning e B s k b a t (u g) r cs f h' \<Longrightarrow> Q () h'"
  shows "runs e (set_guts s u) h Q"
proof -
  have single: "single B s k b a g r cs h" using assms(1) by (simp add: scanning_def)
  show ?thesis
    by (rule single_set_guts [where f = u, OF single assms(2)]) (use assms(1,3,4) in \<open>auto simp: scanning_def stands_for_def intro!: assms(5)\<close>)
qed

lemma scanning_meet:
  assumes "scanning e B s k b a t g r cs f h"
    and "\<And>r' h'. scanning e B s k b a t g r' cs f h' \<Longrightarrow> yy_buffer_status r' \<noteq> YY_BUFFER_NEW \<Longrightarrow> Q () h'"
  shows "runs e (meet_new_buffer s) h Q"
proof -
  have single: "single B s k b a g r cs h" using assms(1) by (simp add: scanning_def)
  show ?thesis
  proof (cases "yy_buffer_status r = YY_BUFFER_NEW")
    case True
    then have g: "g\<lparr>yyg_n_chars := yy_n_chars r\<rparr> = g" using assms(1) by (simp add: scanning_def)
    show ?thesis
    proof (simp add: meet_new_buffer_def single_reads [OF single] acts True, rule scanning_set_guts [OF assms(1)], goal_cases)
      case (4 h1)
      then have h1: "scanning e B s k b a t g r cs f h1" unfolding g .
      then have single1: "single B s k b a g r cs h1" by (simp add: scanning_def)
      show ?case
      proof (simp add: single_reads [OF single1], rule single_set_buffer [OF single1], goal_cases)
        case (3 h2)
        show ?case
          by (rule assms(2) [of "r\<lparr>yy_input_file := yyin_r g, yy_buffer_status := YY_BUFFER_NORMAL\<rparr>"])
            (use 3 h1 True in \<open>simp_all add: scanning_def stands_for_def\<close>)
      qed (use single in \<open>simp_all add: single_def\<close>)
    qed (use assms(1) True in \<open>simp_all add: same_stack_def scanning_def\<close>)
  next
    case False
    then show ?thesis using assms(2) [OF assms(1) False] by (simp add: meet_new_buffer_def single_reads [OF single] acts)
  qed
qed

lemma scanning_get_previous:
  assumes "scanning e B s k b a t g r cs f h" "m \<le> length (ahead f)" "state_after (take m (ahead f)) \<in> states"
    "yytext_r g = (a, t)" "yy_c_buf_p g = (a, t + m)"
    and "\<And>q la' g' h'. yy_get_previous_state (take m (ahead f)) la = Some (q, la') \<Longrightarrow> q = state_after (take m (ahead f)) \<Longrightarrow>
      scanning e B s k b a t g' r cs f h' \<Longrightarrow> known a t g' f la' \<or> due q \<Longrightarrow> yytext_r g' = (a, t) \<Longrightarrow>
      yy_c_buf_p g' = (a, t + m) \<Longrightarrow> Q q h'"
  shows "runs e (heap_get_previous_state s) h Q"
proof -
  have single: "single B s k b a g r cs h" and start: "yy_start g = 1" using assms(1) by (simp_all add: scanning_def)
  have "runs e (heap_previous (m - 0) 1 (a, t + 0) s) h Q"
    by (rule scanning_previous [OF assms(1-3), where la = la])
      (use assms(4,5) in \<open>auto simp: state_after_def due_def yy_get_previous_state_def intro!: assms(6)\<close>)
  then show ?thesis by (simp add: heap_get_previous_state_def single_reads [OF single] assms(4,5) acts start)
qed

definition goes_on_from :: "bool \<Rightarrow> (addr \<rightharpoonup> block) \<Rightarrow> addr \<Rightarrow> addr \<Rightarrow> addr \<Rightarrow> label \<Rightarrow> nat \<Rightarrow> nat \<Rightarrow> yyguts \<Rightarrow>
    label \<times> nat \<times> ptr \<Rightarrow> heap \<Rightarrow> bool" where
  "goes_on_from e B s k b l q cp f next h \<longleftrightarrow> (\<exists>a t g r cs. next = (l, q, (a, t + cp)) \<and>
     scanning e B s k b a t g r cs f h \<and> yytext_r g = (a, t) \<and> ready a t g l q cp f)"

lemma scanning_null:
  assumes "scanning e B s k b a t g r cs f h" "m < length (ahead f)" "state_after (take m (ahead f)) \<in> states"
    "ahead f ! m = NUL" "yytext_r g = (a, t)"
    and "\<And>next l q cp f' h'. end_step (Suc m) f = Some (Some (l, q, cp), f') \<Longrightarrow> source f' = source f \<Longrightarrow>
      goes_on_from e B s k b l q cp f' next h' \<Longrightarrow> Q next h'"
  shows "runs e (scan_null m s) h Q"
proof (simp add: scan_null_def acts, rule scanning_set_guts [OF assms(1)], goal_cases)
  case (4 h1)
  let ?g = "g\<lparr>yy_c_buf_p := advance m (yytext_r g)\<rparr>"
  have m: "m \<le> length (ahead f)" using assms(2) by simp
  show ?case
  proof (rule scanning_get_previous [OF 4 m assms(3), where la = "last_accepting f"], goal_cases)
    case (3 q la g2 h2)
    note prev = 3(1) and q = 3(2) and sc = 3(3)
    have st: "q \<in> states" using assms(3) q by simp
    have single: "single B s k b a g2 r cs h2" using sc by (simp add: scanning_def)
    define g3 where "g3 = (if accept q \<noteq> 0 then noted q (a, t + m) g2 else g2)"
    have kn: "known a t g3 f (upd q m la) \<or> q = 1"
      by (rule known_after [OF 3(4) st m _ g3_def refl]) (use q in simp)
    define d where "d = delta q 1"
    have null: "yy_try_NUL_trans q m la = Some (if d = 13 then 0 else d, upd q m la)"
      unfolding d_def by (rule try_NUL_delta [OF st])
    have tr: "yy_trans q (Suc 0) = Some d" using yy_trans_delta [OF st, of 1] by (simp add: d_def)
    have after: "state_after (take (Suc m) (ahead f)) = d"
      using state_after_snoc [OF assms(2)] assms(4) q by (simp add: d_def)
    have d: "d \<noteq> 0" "d \<noteq> 13 \<Longrightarrow> d \<in> states" "q = 1 \<Longrightarrow> due d" "q = 1 \<Longrightarrow> d \<noteq> 13"
      using st delta_class [OF st, of NUL] due_delta(1,2) [of NUL] by (auto simp: states_def delta_def d_def)
    show ?case
    proof (simp add: heap_try_NUL_trans_def acts single_reads [OF single] 3(6), rule scanning_note [OF sc state_facts(1) [OF st]], goal_cases)
      case (1 h3)
      then have sc3: "scanning e B s k b a t g3 r cs f h3" by (simp add: g3_def)
      then have single3: "single B s k b a g3 r cs h3" by (simp add: scanning_def)
      have g3: "yytext_r g3 = (a, t)" "yy_c_buf_p g3 = (a, t + m)" using 3(5,6) by (simp_all add: g3_def)
      show ?case
      proof (cases "d = 13")
        case True
        then have "known a t g3 f (upd q m la)" using kn d(4) by auto
        then have "goes_on_from e B s k b Find q m (f\<lparr>last_accepting := upd q m la\<rparr>) (Find, q, (a, t + m)) h3"
          unfolding goes_on_from_def using sc3 g3(1) st m q
          by (intro exI [of _ a] exI [of _ t] exI [of _ g3] exI [of _ r] exI [of _ cs]) (simp add: ready_def)
        moreover have "end_step (Suc m) f = Some (Some (Find, q, m), f\<lparr>last_accepting := upd q m la\<rparr>)"
          using prev null True assms(2) by (simp add: end_step_def)
        ultimately show ?thesis using True assms(6) tr by (simp add: acts single_reads [OF single3] g3(2))
      next
        case False
        have "Q (Match, d, (a, t + Suc m)) h4"
          if "scanning e B s k b a t (g3\<lparr>yy_c_buf_p := advance (Suc 0) (yy_c_buf_p g3)\<rparr>) r cs f h4" for h4
        proof (rule assms(6))
          let ?g4 = "g3\<lparr>yy_c_buf_p := advance (Suc 0) (yy_c_buf_p g3)\<rparr>"
          have "known a t ?g4 f (upd q m la) \<or> due (d)"
            using kn d(3) by (auto simp: known_def)
          moreover have "d \<in> states" using d(2) False by simp
          ultimately show "goes_on_from e B s k b Match (d) (Suc m) (f\<lparr>last_accepting := upd q m la\<rparr>)
              (Match, d, (a, t + Suc m)) h4"
            unfolding goes_on_from_def using that g3(1) assms(2) after
            by (intro exI [of _ a] exI [of _ t] exI [of _ ?g4] exI [of _ r] exI [of _ cs]) (simp add: ready_def)
          show "end_step (Suc m) f = Some (Some (Match, d, Suc m), f\<lparr>last_accepting := upd q m la\<rparr>)"
            using prev null False assms(2) d(1) by (simp add: end_step_def)
        qed simp
        note Q = this
        show ?thesis
        proof (simp add: acts tr False d(1) neq0_conv [THEN iffD1, OF d(1)], rule scanning_set_guts [OF sc3], goal_cases)
          case (4 h4)
          then have "single B s k b a (g3\<lparr>yy_c_buf_p := advance (Suc 0) (yy_c_buf_p g3)\<rparr>) r cs h4" by (simp add: scanning_def)
          then show ?case using Q [of h4] 4 g3(2) by (simp add: single_reads advance_def)
        qed (simp_all add: same_stack_def)
      qed
    qed
  qed (use assms(5) in \<open>simp_all add: advance_def\<close>)
qed (simp_all add: same_stack_def)

lemma state_after_not_1: "z \<noteq> '''' \<Longrightarrow> state_after z \<noteq> 1"
  by (cases z rule: rev_cases) (auto simp: state_after_def delta_def class_of_def)

lemma scanning_end:
  assumes "scanning e B s k b a t g r cs f h" "state_after (ahead f) \<in> states" "yytext_r g = (a, t)"
    "yy_c_buf_p g = (a, t + length (ahead f) + 1)" "yy_buffer_status r \<noteq> YY_BUFFER_NEW" "31 \<le> n"
    and finish: "\<And>src f' h'. end_step (Suc (length (ahead f))) f = Some (None, f') \<Longrightarrow>
      (\<exists>a g r cs. single B s k b a g r cs h') \<Longrightarrow> Q (None, src) h'"
    and more: "\<And>next l q cp f' h'. end_step (Suc (length (ahead f))) f = Some (Some (l, q, cp), f') \<Longrightarrow>
      goes_on_from e B s k b l q cp f' next h' \<Longrightarrow> Q (Some next, source f') h'"
  shows "runs e (scan_end n (length (ahead f)) (source f) s) h Q"
proof -
  let ?L = "length (ahead f)"
  obtain n' where n: "n = Suc n'" "30 \<le> n'" using assms(6) by (cases n) auto
  have sc: "single B s k b a g r cs h" "stands_for g r cs t f" "wf_source f" "yy_start g = 1" "enough e (yy_buf_size r) (room h)"
    using assms(1) by (simp_all add: scanning_def)
  show ?thesis
    unfolding scan_end_def runs_andthen n(1)
  proof (rule runs_mono [OF refill_refines [OF sc(1-3) assms(3,4) order_refl sc(5) n(2)]], clarsimp, goal_cases)
    case (1 rc h1 f1 a1 g1 r1 cs1)
    have sc1: "scanning e B s k b a1 0 g1 r1 cs1 f1 h1" if "wf_source f1" "rc \<noteq> EOB_ACT_END_OF_FILE"
      using 1 sc(4) that assms(5) by (cases rc) (auto simp: scanning_def same_scan_def)
    note h1 = 1
    have text1: "yytext_r g1 = (a1, 0)" using h1 by simp
    show ?case
    proof (cases rc)
      case EOB_ACT_CONTINUE_SCAN
      from sc(3) obtain w where f1: "ahead f1 = ahead f @ w" "wf_source f1"
        by (rule refill) (use h1(1) EOB_ACT_CONTINUE_SCAN in \<open>auto split: if_splits\<close>)
      have sc2: "scanning e B s k b a1 0 g1 r1 cs1 f1 h1" using sc1 f1(2) EOB_ACT_CONTINUE_SCAN by simp
      have m: "?L \<le> length (ahead f1)" "state_after (take ?L (ahead f1)) \<in> states" using f1(1) assms(2) by simp_all
      show ?thesis
      proof (simp add: EOB_ACT_CONTINUE_SCAN acts, rule scanning_set_guts [OF sc2], goal_cases)
        case (4 h2)
        show ?case
        proof (rule scanning_get_previous [OF 4 m, where la = "last_accepting f1"], goal_cases)
          case (3 q la g3 h3)
          then have single: "single B s k b a1 g3 r1 cs1 h3" by (simp add: scanning_def)
          have step: "end_step (Suc ?L) f = Some (Some (Match, q, ?L), f1\<lparr>last_accepting := la\<rparr>)"
            using h1(1) EOB_ACT_CONTINUE_SCAN 3(1) by (simp add: end_step_def)
          have "goes_on_from e B s k b Match q ?L (f1\<lparr>last_accepting := la\<rparr>) (Match, q, (a1, ?L)) h3"
            unfolding goes_on_from_def using 3 m
            by (intro exI [of _ a1] exI [of _ 0] exI [of _ g3] exI [of _ r1] exI [of _ cs1]) (simp add: ready_def)
          from more [OF step this] show ?case by (simp add: single_reads [OF single] 3(6))
        qed (use text1 in \<open>simp_all add: advance_def\<close>)
      qed (simp_all add: same_stack_def)
    next
      case EOB_ACT_END_OF_FILE
      have step: "end_step (Suc ?L) f = Some (None, f1)"
        using h1(1) EOB_ACT_END_OF_FILE by (simp add: end_step_def)
      have single: "single B s k b a1 g1 r1 cs1 h1" using h1 by simp
      show ?thesis
      proof (simp add: EOB_ACT_END_OF_FILE acts, rule single_set_guts [OF single], goal_cases)
        case (2 h2)
        show ?case by (rule single_set_guts [OF 2(1)]) (simp add: same_stack_def, intro finish [OF step] exI)
      qed (simp add: same_stack_def)
    next
      case EOB_ACT_LAST_MATCH
      from sc(3) have f1: "ahead f1 = ahead f \<and> ahead f \<noteq> '''' \<and> wf_source f1"
        by (rule refill) (use h1(1) EOB_ACT_LAST_MATCH in \<open>auto split: if_splits\<close>)
      then have sc2: "scanning e B s k b a1 0 g1 r1 cs1 f1 h1" using sc1 EOB_ACT_LAST_MATCH by simp
      then have single: "single B s k b a1 g1 r1 cs1 h1" and n1: "nat (yyg_n_chars g1) = ?L"
        using f1 by (simp_all add: scanning_def stands_for_def)
      have m: "?L \<le> length (ahead f1)" "state_after (take ?L (ahead f1)) \<in> states" using f1 assms(2) by simp_all
      show ?thesis
      proof (simp add: EOB_ACT_LAST_MATCH acts single_reads [OF single], rule scanning_set_guts [OF sc2], goal_cases)
        case (4 h2)
        show ?case
        proof (rule scanning_get_previous [OF 4 m, where la = "last_accepting f1"], goal_cases)
          case (3 q la g3 h3)
          then have single3: "single B s k b a1 g3 r1 cs1 h3" by (simp add: scanning_def)
          have step: "end_step (Suc ?L) f = Some (Some (Find, q, ?L), f1\<lparr>last_accepting := la\<rparr>)"
            using h1(1) EOB_ACT_LAST_MATCH 3(1) f1 by (simp add: end_step_def)
          have "q \<noteq> 1" using 3(2) f1 state_after_not_1 by simp
          then have "known a1 0 g3 f1 la \<or> accept q \<noteq> 0" using 3(4) by (auto simp: due_def)
          then have "goes_on_from e B s k b Find q ?L (f1\<lparr>last_accepting := la\<rparr>) (Find, q, (a1, ?L)) h3"
            unfolding goes_on_from_def using 3 m
            by (intro exI [of _ a1] exI [of _ 0] exI [of _ g3] exI [of _ r1] exI [of _ cs1]) (simp add: ready_def)
          from more [OF step this] show ?case by (simp add: single_reads [OF single3] 3(6))
        qed (use text1 n1 single in \<open>simp_all add: single_def\<close>)
      qed (simp_all add: same_stack_def)
    qed
  qed
qed

lemma stopped_end:
  assumes "stopped e B s k b a t g r cs f c h" "accepts_at f 3 c" "31 \<le> n"
    and finish: "\<And>src f' h'. end_step c f = Some (None, f') \<Longrightarrow> (\<exists>a g r cs. single B s k b a g r cs h') \<Longrightarrow> Q (None, src) h'"
    and more: "\<And>next l q cp f' h'. end_step c f = Some (Some (l, q, cp), f') \<Longrightarrow>
      goes_on_from e B s k b l q cp f' next h' \<Longrightarrow> Q (Some next, source f') h'"
  shows "runs e (end_of_buffer_action n (a, t + c) (source f) s) h Q"
proof -
  obtain m where c: "c = Suc m" using assms(2) by (cases c) (auto simp: accepts_at_def states_def)
  have m: "m \<le> length (ahead f)" "state_after (take m (ahead f)) \<in> states" "m < length (ahead f) \<Longrightarrow> ahead f ! m = NUL"
    using assms(2) by (auto simp: accepts_at_def states_def c)
  have single: "single B s k b a g r (cs[t + c := Some NUL]) h" and g: "yytext_r g = (a, t)" "yy_c_buf_p g = (a, t + c)"
    and n_chars: "yyg_n_chars g = int (t + length (ahead f))"
    using assms(1) by (simp_all add: stopped_def stands_for_def)
  show ?thesis
  proof (simp add: end_of_buffer_action_def Let_def single_reads [OF single] acts g, rule stopped_restore [OF assms(1)], goal_cases)
    case (1 h1)
    show ?case
    proof (rule scanning_meet [OF 1], goal_cases)
      case (1 r2 h2)
      then have single2: "single B s k b a g r2 cs h2" by (simp add: scanning_def)
      show ?case
      proof (cases "m < length (ahead f)")
        case True
        have "runs e (scan_null m s) h2 (\<lambda>next. Q (Some next, source f))"
        proof (rule scanning_null [OF 1(1) True m(2) m(3) [OF True] g(1)], goal_cases)
          case (1 l' l q cp f' h')
          with more [of l q cp f' l' h'] show ?case by (simp add: c)
        qed
        then show ?thesis using True by (simp add: single_reads [OF single2] g n_chars acts c)
      next
        case False
        then have L: "m = length (ahead f)" using m(1) by simp
        have "runs e (scan_end n (length (ahead f)) (source f) s) h2 Q"
          by (rule scanning_end [OF 1(1) _ g(1) _ 1(2) assms(3)])
            (use m(2) g(2) L finish more in \<open>simp_all add: c\<close>)
        then show ?thesis using L by (simp add: single_reads [OF single2] g n_chars acts c)
      qed
    qed
  qed
qed

section \<open>The tokens\<close>

lemma stopped_accepting [simp]:
  "stopped e B s k b a t g r cs (f\<lparr>last_accepting := la\<rparr>) c h = stopped e B s k b a t g r cs f c h"
  "accepts_at (f\<lparr>last_accepting := la\<rparr>) q c = accepts_at f q c"
  by (simp_all add: stopped_def accepts_at_def)

text \<open>A run of \<open>yy_token\<close> is one of the scanner on the heap.\<close>

definition token_done :: "bool \<Rightarrow> (addr \<rightharpoonup> block) \<Rightarrow> addr \<Rightarrow> addr \<Rightarrow> addr \<Rightarrow> (nat \<times> string) option \<times> yyguts \<Rightarrow>
    (nat \<times> string) option \<times> string list \<Rightarrow> heap \<Rightarrow> bool" where
  "token_done e B s k b y res h \<longleftrightarrow> fst res = fst y \<and>
     (if fst y = None then \<exists>a g r cs. single B s k b a g r cs h
      else snd res = source (snd y) \<and> (\<exists>a t g r cs f c. stopped e B s k b a t g r cs f c h \<and> c \<le> length (ahead f) \<and>
        snd y = f\<lparr>ahead := drop c (ahead f)\<rparr>))"

definition token_sim :: "bool \<Rightarrow> (addr \<rightharpoonup> block) \<Rightarrow> addr \<Rightarrow> addr \<Rightarrow> addr \<Rightarrow> label \<Rightarrow> nat \<Rightarrow> nat \<Rightarrow> yyguts \<Rightarrow>
    (nat \<times> string) option \<times> yyguts \<Rightarrow> bool" where
  "token_sim e B s k b l q cp f y \<longleftrightarrow> (\<exists>N. \<forall>n \<ge> N. \<forall>a t g r cs h.
     scanning e B s k b a t g r cs f h \<and> ready a t g l q cp f \<longrightarrow>
     runs e (heap_token n l q (a, t) (a, t + cp) (source f) s) h (token_done e B s k b y))"

lemma accepts_at_facts:
  assumes "accepts_at f q c"
  shows "q < 14" "accept q \<noteq> 0" "accept q = 6 \<longleftrightarrow> q = 3" "q \<noteq> 3 \<Longrightarrow> c \<le> length (ahead f)"
  using assms by (auto simp: accepts_at_def states_def yy_accept_def)

text \<open>To the action: a match, unless the state is there already, and the choice of the action.\<close>

lemma scanning_action:
  assumes "scanning e B s k b a t g r cs f h" "ready a t g l q cp f" "length (ahead f) + 2 \<le> n"
    and "\<And>q1 cp1 la act c q2 g' h'.
      (if l = Match then yy_match (drop cp (ahead f) @ [NUL, NUL]) q cp (last_accepting f)
       else Some (q, cp, last_accepting f)) = Some (q1, cp1, la) \<Longrightarrow> yy_find_action q1 cp1 la = Some (act, c) \<Longrightarrow>
      accepts_at f q2 c \<Longrightarrow> act = accept q2 \<Longrightarrow> stopped e B s k b a t g' r cs f c h' \<Longrightarrow> Q (act, q2, (a, t + c)) h'"
  shows "runs e (andthen (if l = Match then heap_match n q (a, t + cp) s else ret (q, (a, t + cp)))
    (\<lambda>(q, yy_cp). heap_find_action q (a, t) yy_cp s)) h Q"
proof (cases l)
  case Match
  show ?thesis
  proof (simp add: Match acts, rule scanning_match [OF assms(1), where la = "last_accepting f"], goal_cases)
    case (6 q1 cp1 la g1 h1)
    show ?case
      by (simp, rule scanning_find [OF 6(2), where la = la]) (use 6 Match in \<open>auto intro!: assms(4)\<close>)
  qed (use assms(2,3) Match in \<open>auto simp: ready_def\<close>)
next
  case Find
  show ?thesis
    by (simp add: Find acts, rule scanning_find [OF assms(1), where la = "last_accepting f"])
      (use assms(2) Find state_facts in \<open>auto simp: ready_def accepts_at_def intro!: assms(4)\<close>)
qed

lemma next_buffer_accepting: "yy_get_next_buffer m f = Some (rc, f') \<Longrightarrow> last_accepting f' = last_accepting f"
  by (auto simp: yy_get_next_buffer_def Let_def split: bind_splits if_splits prod.splits)

text \<open>What a run of \<open>yy_token\<close> consists of.\<close>

lemma token_body:
  assumes "(do {
     (q, cp, la) \<leftarrow> (if l = Match then yy_match (drop cp (ahead g) @ [NUL, NUL]) q cp (last_accepting g)
                     else Some (q, cp, last_accepting g));
     let g = g\<lparr>last_accepting := la\<rparr>;
     (act, cp) \<leftarrow> yy_find_action q cp la;
     if act = 0 then T Find (fst la) (snd la) g
     else if act \<noteq> 6 then Some (Some (act, take cp (ahead g)), g\<lparr>ahead := drop cp (ahead g)\<rparr>)
     else let amount = cp - 1 in
       if cp \<le> length (ahead g) then do {
         (q, la) \<leftarrow> yy_get_previous_state (take amount (ahead g)) la;
         (q', la) \<leftarrow> yy_try_NUL_trans q amount la;
         let g = g\<lparr>last_accepting := la\<rparr>;
         if q' \<noteq> 0 then T Match q' (amount + 1) g else T Find q amount g
       } else do {
         (r, g) \<leftarrow> yy_get_next_buffer amount g;
         case r of
           EOB_ACT_END_OF_FILE \<Rightarrow> Some (None, g)
         | EOB_ACT_CONTINUE_SCAN \<Rightarrow> do {
             (q, la) \<leftarrow> yy_get_previous_state (take amount (ahead g)) la;
             T Match q amount (g\<lparr>last_accepting := la\<rparr>) }
         | EOB_ACT_LAST_MATCH \<Rightarrow> do {
             (q, la) \<leftarrow> yy_get_previous_state (ahead g) la;
             T Find q (length (ahead g)) (g\<lparr>last_accepting := la\<rparr>) } } }) = Some y"
  obtains q1 cp1 la act c where "(if l = Match then yy_match (drop cp (ahead g) @ [NUL, NUL]) q cp (last_accepting g)
       else Some (q, cp, last_accepting g)) = Some (q1, cp1, la)" "yy_find_action q1 cp1 la = Some (act, c)"
    "act \<noteq> 0 \<Longrightarrow> act \<noteq> 6 \<Longrightarrow> y = (Some (act, take c (ahead g)), g\<lparr>last_accepting := la, ahead := drop c (ahead g)\<rparr>)"
    "act = 6 \<Longrightarrow> \<exists>nx f. end_step c (g\<lparr>last_accepting := la\<rparr>) = Some (nx, f) \<and>
       (case nx of None \<Rightarrow> y = (None, f) | Some (l, q, cp) \<Rightarrow> T l q cp f = Some y)"
proof -
  obtain q1 cp1 la where M: "(if l = Match then yy_match (drop cp (ahead g) @ [NUL, NUL]) q cp (last_accepting g)
      else Some (q, cp, last_accepting g)) = Some (q1, cp1, la)"
    using assms by (auto split: bind_splits)
  note rest = assms [unfolded M, simplified, unfolded Let_def]
  obtain act c where F: "yy_find_action q1 cp1 la = Some (act, c)"
    using rest by (cases "yy_find_action q1 cp1 la") auto
  note rest = rest [unfolded F, simplified]
  show thesis
  proof (rule that [OF M F])
    show "\<exists>nx f. end_step c (g\<lparr>last_accepting := la\<rparr>) = Some (nx, f) \<and>
        (case nx of None \<Rightarrow> y = (None, f) | Some (l, q, cp) \<Rightarrow> T l q cp f = Some y)" if "act = 6"
    proof (cases "c \<le> length (ahead g)")
      case True
      then show ?thesis using rest that by (auto simp: end_step_def split: bind_splits if_splits)
    next
      case False
      then show ?thesis using rest that
        by (auto simp: end_step_def next_buffer_accepting split: bind_splits refill.splits)
    qed
  qed (use rest in \<open>simp_all split: if_splits\<close>)
qed

lemma token_simulates:
  assumes "yy_token l q cp f = Some y"
  shows "token_sim e B s k b l q cp f y"
  using assms
proof (rule yy_token.raw_induct [where P = "token_sim e B s k b", rotated])
  fix T :: "label \<Rightarrow> nat \<Rightarrow> nat \<Rightarrow> yyguts \<Rightarrow> ((nat \<times> string) option \<times> yyguts) option"
  fix l q cp f y
  assume IH: "\<And>l q cp f y. T l q cp f = Some y \<Longrightarrow> token_sim e B s k b l q cp f y"
  assume body: "(do {
     (q, cp, la) \<leftarrow> (if l = Match then yy_match (drop cp (ahead f) @ [NUL, NUL]) q cp (last_accepting f)
                     else Some (q, cp, last_accepting f));
     let g = f\<lparr>last_accepting := la\<rparr>;
     (act, cp) \<leftarrow> yy_find_action q cp la;
     if act = 0 then T Find (fst la) (snd la) g
     else if act \<noteq> 6 then Some (Some (act, take cp (ahead g)), g\<lparr>ahead := drop cp (ahead g)\<rparr>)
     else let amount = cp - 1 in
       if cp \<le> length (ahead g) then do {
         (q, la) \<leftarrow> yy_get_previous_state (take amount (ahead g)) la;
         (q', la) \<leftarrow> yy_try_NUL_trans q amount la;
         let g = g\<lparr>last_accepting := la\<rparr>;
         if q' \<noteq> 0 then T Match q' (amount + 1) g else T Find q amount g
       } else do {
         (r, g) \<leftarrow> yy_get_next_buffer amount g;
         case r of
           EOB_ACT_END_OF_FILE \<Rightarrow> Some (None, g)
         | EOB_ACT_CONTINUE_SCAN \<Rightarrow> do {
             (q, la) \<leftarrow> yy_get_previous_state (take amount (ahead g)) la;
             T Match q amount (g\<lparr>last_accepting := la\<rparr>) }
         | EOB_ACT_LAST_MATCH \<Rightarrow> do {
             (q, la) \<leftarrow> yy_get_previous_state (ahead g) la;
             T Find q (length (ahead g)) (g\<lparr>last_accepting := la\<rparr>) } } }) = Some y"
  obtain q1 cp1 la act c where M: "(if l = Match then yy_match (drop cp (ahead f) @ [NUL, NUL]) q cp (last_accepting f)
       else Some (q, cp, last_accepting f)) = Some (q1, cp1, la)" and F: "yy_find_action q1 cp1 la = Some (act, c)"
    and token: "act \<noteq> 0 \<Longrightarrow> act \<noteq> 6 \<Longrightarrow> y = (Some (act, take c (ahead f)), f\<lparr>last_accepting := la, ahead := drop c (ahead f)\<rparr>)"
    and eob: "act = 6 \<Longrightarrow> \<exists>nx f1. end_step c (f\<lparr>last_accepting := la\<rparr>) = Some (nx, f1) \<and>
       (case nx of None \<Rightarrow> y = (None, f1) | Some (l, q, cp) \<Rightarrow> T l q cp f1 = Some y)"
    using token_body [OF body] by blast
  have "\<exists>N. act = 6 \<longrightarrow> (\<forall>l q cp f1. end_step c (f\<lparr>last_accepting := la\<rparr>) = Some (Some (l, q, cp), f1) \<longrightarrow>
      (\<forall>n \<ge> N. \<forall>a t g r cs h. scanning e B s k b a t g r cs f1 h \<and> ready a t g l q cp f1 \<longrightarrow>
        runs e (heap_token n l q (a, t) (a, t + cp) (source f1) s) h (token_done e B s k b y)))"
  proof (cases "act = 6 \<and> (\<exists>l q cp f1. end_step c (f\<lparr>last_accepting := la\<rparr>) = Some (Some (l, q, cp), f1))")
    case True
    then obtain l2 q2 cp2 f2 where st: "end_step c (f\<lparr>last_accepting := la\<rparr>) = Some (Some (l2, q2, cp2), f2)" and "act = 6"
      by blast
    with eob have "T l2 q2 cp2 f2 = Some y" by auto
    from IH [OF this] show ?thesis unfolding token_sim_def using st by simp
  qed auto
  then obtain N where N: "act = 6 \<longrightarrow> (\<forall>l q cp f1. end_step c (f\<lparr>last_accepting := la\<rparr>) = Some (Some (l, q, cp), f1) \<longrightarrow>
      (\<forall>n \<ge> N. \<forall>a t g r cs h. scanning e B s k b a t g r cs f1 h \<and> ready a t g l q cp f1 \<longrightarrow>
        runs e (heap_token n l q (a, t) (a, t + cp) (source f1) s) h (token_done e B s k b y)))"
    by blast
  have "runs e (heap_token n l q (a, t) (a, t + cp) (source f) s) h (token_done e B s k b y)"
    if n: "Suc (N + length (ahead f) + 40) \<le> n" and sc: "scanning e B s k b a t g r cs f h" and rd: "ready a t g l q cp f"
    for n a t g r cs h
  proof -
    obtain n' where n': "n = Suc n'" using n by (cases n) auto
    then have le: "length (ahead f) + 2 \<le> n'" "31 \<le> n'" "N \<le> n'" using n by simp_all
    define K where "K = (\<lambda>(act, q :: nat, yy_cp). if act = 0 then
        andthen (get_guts s) (\<lambda>g. andthen (set_char yy_cp (yy_hold_char g)) (\<lambda>_.
        heap_token n' Find (yy_last_accepting_state g) (a, t) (yy_last_accepting_cpos g) (source f) s))
      else if act \<noteq> 6 then andthen (token_text_of s) (\<lambda>text. ret (Some (act, text), source f))
      else andthen (end_of_buffer_action n' yy_cp (source f) s) (\<lambda>(next, src). case next of
         None \<Rightarrow> ret (None, src)
       | Some (l, q, yy_cp) \<Rightarrow> andthen (get_guts s) (\<lambda>g. heap_token n' l q (yytext_r g) yy_cp src s)))"
    have "runs e (andthen (if l = Match then heap_match n' q (a, t + cp) s else ret (q, (a, t + cp)))
        (\<lambda>(q, yy_cp). heap_find_action q (a, t) yy_cp s)) h (\<lambda>x h'. runs e (K x) h' (token_done e B s k b y))"
    proof (rule scanning_action [OF sc rd le(1)], goal_cases)
      case (1 q1' cp1' la' act' c' q2 g' h')
      then have eq: "act' = act" "c' = c" using M F by simp_all
      note at = accepts_at_facts [OF 1(3)] and act = 1(4) [unfolded eq] and stop = 1(5) [unfolded eq]
      show ?case
      proof (cases "act = 6")
        case False
        then have c: "c \<le> length (ahead f)" and nz: "act \<noteq> 0" using at act eq by simp_all
        have "stopped e B s k b a t g' r cs (f\<lparr>last_accepting := la\<rparr>) c h'" using stop by simp
        then have "token_done e B s k b y (Some (act, take c (ahead f)), source f) h'"
          unfolding token_done_def token [OF nz False] using c
          by (simp, rule_tac exI [of _ a], rule_tac exI [of _ t], rule_tac exI [of _ g'], rule_tac exI [of _ r],
            rule_tac exI [of _ cs], rule_tac exI [of _ "f\<lparr>last_accepting := la\<rparr>"], rule_tac exI [of _ c], simp)
        then show ?thesis using False nz by (simp add: K_def acts eq stopped_text [OF stop c])
      next
        case True
        then have q2: "accepts_at (f\<lparr>last_accepting := la\<rparr>) 3 c" using at act 1(3) eq by simp
        have stop': "stopped e B s k b a t g' r cs (f\<lparr>last_accepting := la\<rparr>) c h'" using stop by simp
        have "runs e (end_of_buffer_action n' (a, t + c) (source (f\<lparr>last_accepting := la\<rparr>)) s) h'
          (\<lambda>x h. runs e (case x of (next, src) \<Rightarrow> (case next of None \<Rightarrow> ret (None, src)
             | Some (l, q, yy_cp) \<Rightarrow> andthen (get_guts s) (\<lambda>g. heap_token n' l q (yytext_r g) yy_cp src s))) h (token_done e B s k b y))"
        proof (rule stopped_end [OF stop' q2 le(2)], goal_cases)
          case (1 src f1 h1)
          then show ?case using eob [OF True] by (auto simp: acts token_done_def)
        next
          case (2 nx l q cp f1 h1)
          then obtain a1 t1 g1 r1 cs1 where g1: "nx = (l, q, (a1, t1 + cp))" "scanning e B s k b a1 t1 g1 r1 cs1 f1 h1"
            "yytext_r g1 = (a1, t1)" "ready a1 t1 g1 l q cp f1" by (auto simp: goes_on_from_def)
          then have single: "single B s k b a1 g1 r1 cs1 h1" by (simp add: scanning_def)
          show ?case using N True 2(1) le(3) g1 by (simp add: acts single_reads [OF single])
        qed
        then show ?thesis using True eq by (simp add: K_def acts)
      qed
    qed
    then show ?thesis unfolding n' by (simp add: acts K_def case_prod_beta)
  qed
  then show "token_sim e B s k b l q cp f y" unfolding token_sim_def by blast
qed

section \<open>From token to token\<close>

definition between_tokens :: "bool \<Rightarrow> (addr \<rightharpoonup> block) \<Rightarrow> addr \<Rightarrow> addr \<Rightarrow> addr \<Rightarrow> yyguts \<Rightarrow> heap \<Rightarrow> bool" where
  "between_tokens e B s k b f h \<longleftrightarrow> (\<exists>a t g r cs f0 c. stopped e B s k b a t g r cs f0 c h \<and> c \<le> length (ahead f0) \<and>
     f = f0\<lparr>ahead := drop c (ahead f0)\<rparr>)"

lemma scanning_drop:
  assumes "scanning e B s k b a t g r cs f h" "c \<le> length (ahead f)"
  shows "scanning e B s k b a (t + c) g r cs (f\<lparr>ahead := drop c (ahead f)\<rparr>) h"
proof -
  let ?w = "map Some (ahead f @ [NUL, NUL])"
  have "take (length (ahead f) + 2) (drop t cs) = ?w" using assms(1) by (simp add: scanning_def stands_for_def)
  then have "drop c (take (length (ahead f) + 2) (drop t cs)) = drop c ?w" by simp
  then have "take (length (ahead f) - c + 2) (drop (t + c) cs) = map Some (drop c (ahead f) @ [NUL, NUL])"
    using assms(2) by (simp add: drop_take drop_map add.commute Suc_diff_le)
  then show ?thesis using assms wf_source_drop by (auto simp: scanning_def stands_for_def)
qed

lemma tokens_simulate:
  assumes "yylex f = Some ts"
  shows "\<exists>N. \<forall>n \<ge> N. \<forall>h. between_tokens e B s k b f h \<longrightarrow>
    runs e (heap_tokens n (source f) s) h (\<lambda>ts' h'. ts' = ts \<and> (\<exists>a g r cs. single B s k b a g r cs h'))"
  using assms
proof (rule yylex.raw_induct [where P = "\<lambda>f ts. \<exists>N. \<forall>n \<ge> N. \<forall>h. between_tokens e B s k b f h \<longrightarrow>
    runs e (heap_tokens n (source f) s) h (\<lambda>ts' h'. ts' = ts \<and> (\<exists>a g r cs. single B s k b a g r cs h'))", rotated])
  fix T :: "yyguts \<Rightarrow> (nat \<times> string) list option" and f ts
  assume IH: "\<And>f ts. T f = Some ts \<Longrightarrow> \<exists>N. \<forall>n \<ge> N. \<forall>h. between_tokens e B s k b f h \<longrightarrow>
    runs e (heap_tokens n (source f) s) h (\<lambda>ts' h'. ts' = ts \<and> (\<exists>a g r cs. single B s k b a g r cs h'))"
  assume body: "(do {
     (r, g) \<leftarrow> yy_token Match 1 0 f;
     case r of None \<Rightarrow> Some [] | Some t \<Rightarrow> do { ts \<leftarrow> T g; Some (t # ts) } }) = Some ts"
  obtain tok f1 where tok: "yy_token Match 1 0 f = Some (tok, f1)" using body by (cases "yy_token Match 1 0 f") auto
  then have rest: "(case tok of None \<Rightarrow> Some [] | Some t \<Rightarrow> do { ts \<leftarrow> T f1; Some (t # ts) }) = Some ts" using body by simp
  obtain N1 where N1: "\<forall>n \<ge> N1. \<forall>a t g r cs h. scanning e B s k b a t g r cs f h \<and> ready a t g Match 1 0 f \<longrightarrow>
      runs e (heap_token n Match 1 (a, t) (a, t + 0) (source f) s) h (token_done e B s k b (tok, f1))"
    using token_simulates [OF tok, of e B s k b] unfolding token_sim_def by blast
  have "\<exists>N2. \<forall>t ts2. tok = Some t \<longrightarrow> T f1 = Some ts2 \<longrightarrow> (\<forall>n \<ge> N2. \<forall>h. between_tokens e B s k b f1 h \<longrightarrow>
      runs e (heap_tokens n (source f1) s) h (\<lambda>ts' h'. ts' = ts2 \<and> (\<exists>a g r cs. single B s k b a g r cs h')))"
    using IH [of f1] by (cases "T f1") auto
  then obtain N2 where N2: "\<forall>t ts2. tok = Some t \<longrightarrow> T f1 = Some ts2 \<longrightarrow> (\<forall>n \<ge> N2. \<forall>h. between_tokens e B s k b f1 h \<longrightarrow>
      runs e (heap_tokens n (source f1) s) h (\<lambda>ts' h'. ts' = ts2 \<and> (\<exists>a g r cs. single B s k b a g r cs h')))" by blast
  have "runs e (heap_tokens n (source f) s) h (\<lambda>ts' h'. ts' = ts \<and> (\<exists>a g r cs. single B s k b a g r cs h'))"
    if n: "Suc (N1 + N2) \<le> n" and bt: "between_tokens e B s k b f h" for n h
  proof -
    obtain m where m: "n = Suc m" "N1 \<le> m" "N2 \<le> m" using n by (cases n) auto
    obtain a t g r cs f0 c where st: "stopped e B s k b a t g r cs f0 c h" and c: "c \<le> length (ahead f0)"
      and f: "f = f0\<lparr>ahead := drop c (ahead f0)\<rparr>" using bt by (auto simp: between_tokens_def)
    have single: "single B s k b a g r (cs[t + c := Some NUL]) h" and g: "yy_c_buf_p g = (a, t + c)" "yy_start g = 1"
      using st by (simp_all add: stopped_def)
    have rd: "ready a (t + c) g Match 1 0 f" by (simp add: ready_def state_after_def states_def due_def)
    show ?thesis
    proof (simp add: m(1) acts single_reads [OF single] g, rule stopped_restore [OF st], goal_cases)
      case (1 h1)
      have sc: "scanning e B s k b a (t + c) g r cs f h1" unfolding f by (rule scanning_drop [OF 1 c])
      have "runs e (heap_token m Match 1 (a, t + c) (a, t + c + 0) (source f) s) h1 (token_done e B s k b (tok, f1))"
        using N1 m(2) sc rd by blast
      then show ?case
      proof (simp, elim runs_mono, goal_cases)
        case (1 x h2)
        obtain tok2 src2 where x: "x = (tok2, src2)" by (cases x)
        show ?case
        proof (cases tok)
          case None
          then show ?thesis using 1 rest by (auto simp: token_done_def acts x)
        next
          case (Some t2)
          then obtain ts2 where ts2: "T f1 = Some ts2" "ts = t2 # ts2" using rest by (cases "T f1") auto
          have bt2: "between_tokens e B s k b f1 h2" and eqs: "tok2 = Some t2" "src2 = source f1"
            using 1 Some by (auto simp: token_done_def between_tokens_def x)
          have tl: "runs e (heap_tokens m (source f1) s) h2 (\<lambda>ts' h'. ts' = ts2 \<and> (\<exists>a g r cs. single B s k b a g r cs h'))"
            using N2 Some ts2(1) m(3) bt2 by blast
          show ?thesis unfolding x eqs by (simp add: acts ts2(2), rule runs_mono [OF tl]) simp
        qed
      qed
    qed
  qed
  then show "\<exists>N. \<forall>n \<ge> N. \<forall>h. between_tokens e B s k b f h \<longrightarrow>
    runs e (heap_tokens n (source f) s) h (\<lambda>ts' h'. ts' = ts \<and> (\<exists>a g r cs. single B s k b a g r cs h'))" by blast
qed

end
