(* ===== verification/Flex_Session.thy ===== *)
theory Flex_Session
  imports Flex_Token
begin

text \<open>
  The session of \<^verbatim>\<open>gdb_scanner\<close> on the heap, from the scanner's allocation to its release: it executes
  the actions of the rules, every access is to memory that is there, and every block is given back.
\<close>

section \<open>The session\<close>

text \<open>\<^verbatim>\<open>gdb_scanner\<close>, with the actions executed; it ignores what \<^verbatim>\<open>yylex_init_extra\<close> returns.\<close>

definition scanner_session :: "nat \<Rightarrow> nat \<Rightarrow> nat \<Rightarrow> string list \<Rightarrow> (nat \<times> string) list act" where
  "scanner_session n data file src =
     andthen (yylex_init_extra data True) (\<lambda>(rc, scanner).
     andthen (yyset_in file scanner) (\<lambda>_.
     andthen (yylex_start scanner) (\<lambda>_.
     andthen (heap_tokens n src scanner) (\<lambda>ts.
     andthen (yylex_destroy n scanner) (\<lambda>_.
     ret ts)))))"

section \<open>The start and the end\<close>

definition new_buffer :: "addr \<Rightarrow> nat \<Rightarrow> int \<Rightarrow> yy_buffer_state" where
  "new_buffer a file sz = \<lparr>yy_input_file = file, yy_ch_buf = a, yy_buf_pos = (a, 0), yy_buf_size = sz, yy_n_chars = 0,
     yy_is_our_buffer = True, yy_is_interactive = True, yy_at_bol = True, yy_bs_lineno = Some 1,
     yy_bs_column = Some 0, yy_fill_buffer = True, yy_buffer_status = YY_BUFFER_NEW\<rparr>"

lemma create_first_buffer:
  assumes "blocks h = B(s \<mapsto> Guts g, k \<mapsto> Stack [0])" "distinct [0, s, k]" "{0, s, k} \<inter> dom B = {}"
    "dom B \<union> {s, k} \<subseteq> {..<fresh h}" "yy_buffer_stack g = k" "yy_buffer_stack_top g = 0" "yy_buffer_stack_max g = 1"
    "yy_start_stack g = 0" "e \<or> 2 \<le> room h"  "0 \<le> sz" "sz < 2 ^ 30"
    and "\<And>h'. single B s k (fresh h) (fresh h + 1) g (new_buffer (fresh h + 1) file sz)
        (Some NUL # Some NUL # replicate (nat sz) None) h' \<Longrightarrow> room h' = room h - 2 \<Longrightarrow> 2 \<le> room h \<Longrightarrow> Q () h'"
  shows "runs e (yy_create_buffer file sz s) h (\<lambda>x h'. runs e (set_YY_CURRENT_BUFFER s x) h' Q)"
proof -
  obtain F where F: "fresh h = Suc F" using assms(2,4) by (cases "fresh h") auto
  have f: "B (fresh h) = None" "B (Suc (fresh h)) = None" "s < fresh h" "k < fresh h"  "s \<noteq> 0" "k \<noteq> 0" "s \<noteq> k"
      "B 0 = None" "B s = None" "B k = None" "fresh h \<noteq> s" "fresh h \<noteq> k" "Suc (fresh h) \<noteq> s" "Suc (fresh h) \<noteq> k"
    using assms(2-4) by (auto simp: domIff subset_iff)
  have two: "nat (sz + 2) = Suc (Suc (nat sz))" using assms(10) by simp
  consider "room h = 0" | "room h = 1" | R where "room h = Suc (Suc R)" by (metis One_nat_def not0_implies_Suc)
  then show ?thesis
  proof cases
    case 1
    then show ?thesis using assms(9) by (simp add: yy_create_buffer_def acts accesses)
  next
    case 2
    then show ?thesis using assms(9,10,11) f F by (simp add: yy_create_buffer_def acts accesses)
  next
    case 3
    have n: "k \<noteq> Suc F" "k \<noteq> Suc (Suc F)" "s \<noteq> Suc F" "s \<noteq> Suc (Suc F)" "\<not> sz + 2 < 0" "sz < 2147483646" "0 < k" "0 \<le> 2147483650 + sz"
      using assms(10,11) f F by auto
    let ?h = "h\<lparr>fresh := Suc (Suc (Suc F)), room := R, blocks := B(s \<mapsto> Guts g,
      Suc (Suc F) \<mapsto> Chars (Some NUL # Some NUL # replicate (nat sz) None),
      Suc F \<mapsto> Buffer (new_buffer (Suc (Suc F)) file sz), k \<mapsto> Stack [Suc F])\<rparr>"
    have "single B s k (fresh h) (fresh h + 1) g (new_buffer (fresh h + 1) file sz)
        (Some NUL # Some NUL # replicate (nat sz) None) ?h"
      using f F n assms(1,4-8) by (auto simp: single_def new_buffer_def fun_eq_iff)
    then have "Q () ?h" by (rule assms(12)) (simp_all add: 3)
    then show ?thesis
      by (simp add: yy_create_buffer_def yy_init_buffer_def yy_flush_buffer_def YY_CURRENT_BUFFER_def
       set_YY_CURRENT_BUFFER_def blank_buffer_def acts accesses 3 f F assms(1,5,6) two n new_buffer_def)
  qed
qed

lemma wf_start:
  assumes "'''' \<notin> set reads" "length (concat reads) < 2 ^ 29"
  shows "wf_source (yy_init reads)"
  using assms by (simp add: wf_source_def unread_def yy_init_def YY_BUF_SIZE_def)

lemma first_between:
  assumes "single B s k b a g (new_buffer a file YY_BUF_SIZE) (Some NUL # Some NUL # replicate (nat YY_BUF_SIZE) None) h"
    "yy_start g = 1" "yyleng_r g = 0" "enough e YY_BUF_SIZE (room h)" "'''' \<notin> set reads" "length (concat reads) < 2 ^ 29"
  shows "runs e (yy_load_buffer_state s) h (\<lambda>_. between_tokens e B s k b (yy_init reads))"
proof (rule single_load [OF assms(1), where i = 0 and c = NUL], goal_cases)
  case (4 h1)
  let ?g = "g\<lparr>yyg_n_chars := yy_n_chars (new_buffer a file YY_BUF_SIZE), yytext_r := (a, 0), yy_c_buf_p := (a, 0),
    yyin_r := yy_input_file (new_buffer a file YY_BUF_SIZE), yy_hold_char := NUL\<rparr>"
  have "stopped e B s k b a 0 ?g (new_buffer a file YY_BUF_SIZE) (Some NUL # Some NUL # replicate (nat YY_BUF_SIZE) None)
      (yy_init reads) 0 h1"
    using 4 assms(2-4) wf_start [OF assms(5,6)]
    by (simp add: stopped_def stands_for_def new_buffer_def yy_init_def YY_BUF_SIZE_def)
  then show ?case unfolding between_tokens_def
    by (intro exI conjI) (assumption, simp_all add: yy_init_def)
qed (simp_all add: new_buffer_def)

lemma session_start:
  assumes "0 < fresh h" "blocks h 0 = None" "dom (blocks h) \<subseteq> {..<fresh h}" "room h = Suc R" "e \<or> 20 \<le> R"
    and "'''' \<notin> set reads" "length (concat reads) < 2 ^ 29"
  shows "runs e (yylex_init_extra data True) h (\<lambda>(rc, s) h1. runs e (yyset_in conn s) h1 (\<lambda>_ h2.
    runs e (yylex_start s) h2 (\<lambda>_ h3. s = fresh h \<and>
      between_tokens e (blocks h) (fresh h) (fresh h + 1) (fresh h + 2) (yy_init reads) h3)))"
proof -
  obtain F where F: "fresh h = Suc F" using assms(1) by (cases "fresh h") auto
  have f: "blocks h (Suc F) = None" "blocks h (Suc (Suc F)) = None" "blocks h (Suc (Suc (Suc F))) = None"
    "blocks h (Suc (Suc (Suc (Suc F)))) = None" "dom (blocks h) \<subseteq> {..<Suc (Suc (Suc F))}"
    using assms(3) by (auto simp: domIff subset_iff F)
  have enough: "enough e YY_BUF_SIZE R1" if "R1 = R - 1 - 2" for R1
  proof (cases e)
    case False
    then have "(2 :: int) ^ 17 \<le> 2 ^ R1" using assms(5) that by (intro power_increasing) simp_all
    then show ?thesis by (simp add: enough_def YY_BUF_SIZE_def)
  qed (simp add: enough_def)
  show ?thesis
  proof (cases R)
    case 0
    then show ?thesis using assms(5)
      by (simp add: yylex_init_extra_def yyset_in_def yyset_extra_def yy_init_globals_def acts accesses f F assms(1,4)
     yylex_start_def first_buffer_def YY_CURRENT_BUFFER_def zero_guts_def yyensure_buffer_stack_def)
  next
    case (Suc R')
    have main: "runs e (yy_create_buffer conn' YY_BUF_SIZE (Suc F)) h2 (\<lambda>x h'. runs e (set_YY_CURRENT_BUFFER (Suc F) x) h'
        (\<lambda>_ h'. runs e (yy_load_buffer_state (Suc F)) h'
        (\<lambda>_. between_tokens e (blocks h) (Suc F) (Suc (Suc F)) (Suc (Suc (Suc F))) (yy_init reads))))"
      if "blocks h2 = (blocks h)(Suc (Suc F) \<mapsto> Stack [0], Suc F \<mapsto> Guts g)" "fresh h2 = Suc (Suc (Suc F))" "room h2 = R'"
        "yy_buffer_stack g = Suc (Suc F)" "yy_buffer_stack_top g = 0" "yy_buffer_stack_max g = 1" "yy_start_stack g = 0"
        "yy_start g = 1" "yyleng_r g = 0"
      for h2 g conn'
    proof (rule create_first_buffer [where k = "Suc (Suc F)" and B = "blocks h" and g = g], goal_cases)
      case 1
      show ?case unfolding that(1) by (rule fun_upd_twist) simp
    next
      case (12 h3)
      have "runs e (yy_load_buffer_state (Suc F)) h3
          (\<lambda>_. between_tokens e (blocks h) (Suc F) (Suc (Suc F)) (fresh h2) (yy_init reads))"
        by (rule first_between [OF 12(1)]) (use that assms(6,7) enough [of "room h3"] 12(2) Suc in simp_all)
      then show ?case using that(2) by simp
    qed (use that assms(2,5) f Suc in \<open>auto simp: YY_BUF_SIZE_def\<close>)
    show ?thesis
      by (simp add: yylex_init_extra_def yyset_in_def yyset_extra_def yy_init_globals_def acts accesses f F assms(1,4) Suc
        yylex_start_def first_buffer_def YY_CURRENT_BUFFER_def zero_guts_def yyensure_buffer_stack_def main)
  qed
qed

lemma single_destroy:
  assumes "single B s k b a g r cs h" "2 \<le> n"
  shows "runs e (yylex_destroy n s) h (\<lambda>rc h'. rc = 0 \<and> blocks h' = B)"
proof -
  obtain m where n: "n = Suc (Suc m)" using assms(2) by (metis add_2_eq_Suc le_Suc_ex)
  have f: "distinct [0, s, k, b, a]" "B s = None" "B k = None" "B b = None" "B a = None"
    and st: "yy_buffer_stack g = k" "yy_buffer_stack_top g = 0" "yy_start_stack g = 0" "yy_ch_buf r = a" "yy_is_our_buffer r"
    and bl: "blocks h = B(s \<mapsto> Guts g, k \<mapsto> Stack [b], b \<mapsto> Buffer r, a \<mapsto> Chars cs)"
    using assms(1) by (auto simp: single_def)
  have "B(a := None, b := None, k := None, s := None) = B" using f by (auto simp: fun_eq_iff)
  then show ?thesis
    using f
    by (simp add: yylex_destroy_def n YY_CURRENT_BUFFER_def set_YY_CURRENT_BUFFER_def yy_delete_buffer_def
      yypop_buffer_state_def yy_init_globals_def acts accesses bl st)
qed

section \<open>The session executes the actions and gives its memory back\<close>

text \<open>
  Without memory for the scanner object, \<^verbatim>\<open>yyset_in\<close> writes through the null pointer that
  \<^verbatim>\<open>yylex_init_extra\<close> has left.
\<close>

lemma session_without_memory:
  assumes "room h = 0" "blocks h 0 = None"
  shows "scanner_session n data conn reads h = Inl Undefined"
  using assms by (simp add: scanner_session_def yylex_init_extra_def andthen_def malloc_def set_errno_def ret_def
    yyset_in_def set_guts_def get_guts_def peek_def)

lemma session_with_memory:
  assumes "0 < fresh h" "blocks h 0 = None" "dom (blocks h) \<subseteq> {..<fresh h}" "0 < room h"
    and "'''' \<notin> set reads" "length (concat reads) < 2 ^ 29"
  shows "\<exists>N. \<forall>n \<ge> N. case scanner_session n data conn reads h of
      Inr (ts, h') \<Rightarrow> ts = map action_of (tokens (concat reads)) \<and> blocks h' = blocks h
    | Inl (Exits msg) \<Rightarrow> room h < 21
    | Inl _ \<Rightarrow> False"
proof -
  let ?e = "room h < 21" and ?ts = "map action_of (tokens (concat reads))"
  obtain R where R: "room h = Suc R" using assms(4) by (cases "room h") auto
  have src: "source (yy_init reads) = reads" by (simp add: yy_init_def)
  obtain N where N: "\<And>n h1. N \<le> n \<Longrightarrow> between_tokens ?e (blocks h) (fresh h) (fresh h + 1) (fresh h + 2) (yy_init reads) h1 \<Longrightarrow>
      runs ?e (heap_tokens n reads (fresh h)) h1 (\<lambda>ts' h'. ts' = ?ts \<and>
        (\<exists>a g r cs. single (blocks h) (fresh h) (fresh h + 1) (fresh h + 2) a g r cs h'))"
    using tokens_simulate [OF generated_actions [OF assms(5,6)], of ?e "blocks h" "fresh h" "fresh h + 1" "fresh h + 2"]
    unfolding src by blast
  have "runs ?e (scanner_session n data conn reads) h (\<lambda>ts h'. ts = ?ts \<and> blocks h' = blocks h)" if n: "N + 2 \<le> n" for n
  proof -
    have "runs ?e (andthen (heap_tokens n reads s) (\<lambda>ts. andthen (yylex_destroy n s) (\<lambda>_. ret ts))) h1
        (\<lambda>ts h'. ts = ?ts \<and> blocks h' = blocks h)"
      if s: "s = fresh h \<and> between_tokens ?e (blocks h) (fresh h) (fresh h + 1) (fresh h + 2) (yy_init reads) h1" for s h1
    proof -
      have "runs ?e (heap_tokens n reads s) h1 (\<lambda>ts' h'. ts' = ?ts \<and>
        (\<exists>a g r cs. single (blocks h) (fresh h) (fresh h + 1) (fresh h + 2) a g r cs h'))"
        using N [of n h1] n s by simp
      then show ?thesis
      proof (simp only: runs_andthen, elim runs_mono, goal_cases)
        case (1 ts' h2)
        then obtain a g r cs where sg: "single (blocks h) s (fresh h + 1) (fresh h + 2) a g r cs h2" and ts': "ts' = ?ts"
          using s by auto
        have "runs ?e (yylex_destroy n s) h2 (\<lambda>rc h'. rc = 0 \<and> blocks h' = blocks h)"
          by (rule single_destroy [OF sg]) (use n in simp)
        then show ?case by (rule runs_mono) (simp add: acts ts')
      qed
    qed
    note rest = this
    have "?e \<or> 20 \<le> R" using R by auto
    note start = session_start [OF assms(1-3) R this assms(5,6), where data = data and conn = conn]
    show ?thesis
      unfolding scanner_session_def runs_andthen case_prod_beta
      by (rule runs_mono [OF start [unfolded case_prod_beta]], erule runs_mono, erule runs_mono,
        rule rest [unfolded runs_andthen])
  qed
  then have "\<forall>n \<ge> N + 2. case scanner_session n data conn reads h of
      Inr (ts, h') \<Rightarrow> ts = ?ts \<and> blocks h' = blocks h | Inl (Exits msg) \<Rightarrow> room h < 21 | Inl _ \<Rightarrow> False"
    by (simp add: runs_def)
  then show ?thesis by blast
qed

text \<open>
  C4. The memory of the generated scanner, from yylex_init_extra to yylex_destroy, on a heap
  with freed blocks, unwritten characters and allocations of which any number may fail: whatever
  a connection delivers (less than 2^29 characters, in any non-empty pieces), either the session
  executes exactly the actions of the rules, never leaves a block, follows a dangling pointer or
  reads an unwritten character although refills move and reallocate the buffer, and returns with
  every block freed that it has allocated; or it ends with a message, which happens only when
  between 1 and 20 allocations succeed; or not even the first allocation succeeds, and then, and
  only then, its behaviour is undefined (yyset_in writes through the null pointer).
\<close>

theorem scanner_session_releases:
  assumes "0 < fresh h" "blocks h 0 = None" "dom (blocks h) \<subseteq> {..<fresh h}"
    and "'''' \<notin> set reads" "length (concat reads) < 2 ^ 29"
  shows "\<exists>N. \<forall>n \<ge> N. case scanner_session n data conn reads h of
      Inr (ts, h') \<Rightarrow> ts = map action_of (tokens (concat reads)) \<and> blocks h' = blocks h \<and> 0 < room h
    | Inl (Exits msg) \<Rightarrow> 0 < room h \<and> room h < 21
    | Inl Undefined \<Rightarrow> room h = 0
    | Inl Runs_on \<Rightarrow> False"
proof (cases "room h = 0")
  case True
  then show ?thesis by (simp add: session_without_memory [OF _ assms(2)])
next
  case False
  then obtain N where N: "\<forall>n \<ge> N. case scanner_session n data conn reads h of
      Inr (ts, h') \<Rightarrow> ts = map action_of (tokens (concat reads)) \<and> blocks h' = blocks h
    | Inl (Exits msg) \<Rightarrow> room h < 21
    | Inl _ \<Rightarrow> False"
    using session_with_memory [OF assms(1-3) _ assms(4,5), of data conn] by blast
  have "case scanner_session n data conn reads h of
      Inr (ts, h') \<Rightarrow> ts = map action_of (tokens (concat reads)) \<and> blocks h' = blocks h \<and> 0 < room h
    | Inl (Exits msg) \<Rightarrow> 0 < room h \<and> room h < 21
    | Inl Undefined \<Rightarrow> room h = 0
    | Inl Runs_on \<Rightarrow> False" if "N \<le> n" for n
    using N [rule_format, OF that] False
    by (cases "scanner_session n data conn reads h" rule: sum.exhaust) (simp_all split: prod.splits fault.splits)
  then show ?thesis by blast
qed

definition empty_heap :: "nat \<Rightarrow> heap" where
  "empty_heap n = \<lparr>blocks = Map.empty, fresh = 1, room = n, error_number = 0\<rparr>"

theorem scanner_session_releases_witness:
  "\<exists>N. \<forall>n \<ge> N. case scanner_session n 7 3 [''+$'', ''g#6'', ''7x$''] (empty_heap 30) of
      Inr (ts, h) \<Rightarrow> ts = [(1, ''+''), (3, ''$g#67''), (4, ''x''), (4, ''$'')] \<and> blocks h = Map.empty
    | Inl e \<Rightarrow> False"
proof -
  let ?reads = "[''+$'', ''g#6'', ''7x$'']"
  have ts: "map action_of (tokens (concat ?reads)) = [(1, ''+''), (3, ''$g#67''), (4, ''x''), (4, ''$'')]"
    by code_simp
  have "\<exists>N. \<forall>n \<ge> N. case scanner_session n 7 3 ?reads (empty_heap 30) of
      Inr (ts, h) \<Rightarrow> ts = map action_of (tokens (concat ?reads)) \<and> blocks h = blocks (empty_heap 30) \<and>
        0 < room (empty_heap 30)
    | Inl (Exits msg) \<Rightarrow> 0 < room (empty_heap 30) \<and> room (empty_heap 30) < 21
    | Inl Undefined \<Rightarrow> room (empty_heap 30) = 0
    | Inl Runs_on \<Rightarrow> False"
    by (rule scanner_session_releases) (simp_all add: empty_heap_def)
  then show ?thesis
    unfolding ts by (simp add: empty_heap_def split: sum.splits prod.splits fault.splits)
      (metis fault.exhaust)
qed

end
