(* ===== verification/Flex_Library.thy ===== *)
theory Flex_Library
  imports Flex_Session
begin

text \<open>
  What the generated scanner offers and the simulator does not call: \<^verbatim>\<open>input\<close>, which takes single
  characters from the stream, and the stack of buffers with more than one of them.
\<close>

section \<open>Single characters\<close>

text \<open>
  Whether there is a character at \<^verbatim>\<open>yy_c_buf_p\<close>, after a refill if one is needed; \<^verbatim>\<open>yywrap\<close> is 1.
\<close>

definition input_ready :: "nat \<Rightarrow> string list \<Rightarrow> addr \<Rightarrow> (bool \<times> string list) act" where
  "input_ready n src s =
     andthen (get_guts s) (\<lambda>g. if yy_hold_char g \<noteq> NUL then ret (True, src) else
     andthen (YY_CURRENT_BUFFER s) (\<lambda>b.
     andthen (get_buffer b) (\<lambda>r.
     if fst (yy_c_buf_p g) \<noteq> yy_ch_buf r \<or> fst (yytext_r g) \<noteq> yy_ch_buf r then fail Undefined
     else if int (snd (yy_c_buf_p g)) < yyg_n_chars g then
       andthen (set_char (yy_c_buf_p g) NUL) (\<lambda>_. ret (True, src))
     else let offset = snd (yy_c_buf_p g) - snd (yytext_r g) in
       andthen (set_guts s (\<lambda>g. g\<lparr>yy_c_buf_p := advance 1 (yy_c_buf_p g)\<rparr>)) (\<lambda>_.
       andthen (heap_get_next_buffer n src s) (\<lambda>(rc, src).
       case rc of
         EOB_ACT_LAST_MATCH \<Rightarrow>
           andthen (get_guts s) (\<lambda>g. andthen (yyrestart (yyin_r g) s) (\<lambda>_. ret (False, src)))
       | EOB_ACT_END_OF_FILE \<Rightarrow> ret (False, src)
       | EOB_ACT_CONTINUE_SCAN \<Rightarrow>
           andthen (set_guts s (\<lambda>g. g\<lparr>yy_c_buf_p := advance offset (yytext_r g)\<rparr>)) (\<lambda>_. ret (True, src)))))))"

definition take_char :: "addr \<Rightarrow> int act" where
  "take_char s =
     andthen (get_guts s) (\<lambda>g.
     andthen (get_char (yy_c_buf_p g)) (\<lambda>c.
     andthen (set_char (yy_c_buf_p g) NUL) (\<lambda>_.
     andthen (set_guts s (\<lambda>g. g\<lparr>yy_c_buf_p := advance 1 (yy_c_buf_p g)\<rparr>)) (\<lambda>_.
     andthen (get_char (advance 1 (yy_c_buf_p g))) (\<lambda>d.
     andthen (set_guts s (\<lambda>g. g\<lparr>yy_hold_char := d\<rparr>)) (\<lambda>_.
     ret (of_char c)))))))"

definition heap_input :: "nat \<Rightarrow> string list \<Rightarrow> addr \<Rightarrow> (int \<times> string list) act" where
  "heap_input n src s =
     andthen (get_guts s) (\<lambda>g.
     andthen (set_char (yy_c_buf_p g) (yy_hold_char g)) (\<lambda>_.
     andthen (input_ready n src s) (\<lambda>(more, src).
     if more then andthen (take_char s) (\<lambda>c. ret (c, src)) else ret (0, src))))"

text \<open>
  Within an action: the next character is the one held for \<^verbatim>\<open>yy_c_buf_p\<close>, at the offset \<open>t + c\<close>; \<open>f\<close> is
  what is still to be read.
\<close>

definition held :: "bool \<Rightarrow> (addr \<rightharpoonup> block) \<Rightarrow> addr \<Rightarrow> addr \<Rightarrow> addr \<Rightarrow> yyguts \<Rightarrow> heap \<Rightarrow> bool" where
  "held e B s k b f h \<longleftrightarrow> (\<exists>a t g r cs f0 c. single B s k b a g r cs h \<and> t + c < length cs \<and>
     stands_for g r (cs[t + c := Some (yy_hold_char g)]) t f0 \<and> wf_source f0 \<and> yy_start g = 1 \<and>
     yy_buffer_status r \<noteq> YY_BUFFER_NEW \<and> enough e (yy_buf_size r) (room h) \<and>
     yytext_r g = (a, t) \<and> yy_c_buf_p g = (a, t + c) \<and> c \<le> length (ahead f0) \<and>
     f = f0\<lparr>ahead := drop c (ahead f0)\<rparr>)"

lemma stopped_held:
  assumes "stopped e B s k b a t g r cs f c h" "c \<le> length (ahead f)" "yy_buffer_status r \<noteq> YY_BUFFER_NEW"
  shows "held e B s k b (f\<lparr>ahead := drop c (ahead f)\<rparr>) h"
proof -
  have "cs[t + c := Some (yy_hold_char g)] = cs" using assms(1) by (simp add: stopped_def list_update_same_conv)
  then show ?thesis
    unfolding held_def
    by (intro exI [of _ a] exI [of _ t] exI [of _ g] exI [of _ r] exI [of _ "cs[t + c := Some NUL]"] exI [of _ f] exI [of _ c])
      (use assms in \<open>simp add: stopped_def\<close>)
qed

lemma take_char_takes:
  assumes "scanning e B s k b a t g r cs f h" "yytext_r g = (a, t)" "yy_c_buf_p g = (a, t + c)" "c < length (ahead f)"
    "yy_buffer_status r \<noteq> YY_BUFFER_NEW"
  shows "runs e (take_char s) h (\<lambda>x h'. x = of_char (ahead f ! c) \<and> (\<exists>f'. source f' = source f \<and>
    unread (f\<lparr>ahead := drop c (ahead f)\<rparr>) = ahead f ! c # unread f' \<and> held e B s k b f' h'))"
proof -
  have single: "single B s k b a g r cs h" using assms(1) by (simp add: scanning_def)
  have ch: "t + c < length cs" "cs ! (t + c) = Some (ahead f ! c)"
    using scanning_char [OF assms(1), of c] assms(4) by (simp_all add: nth_append)
  define d where "d = (ahead f @ [NUL, NUL]) ! Suc c"
  have nx: "Suc (t + c) < length cs" "cs ! Suc (t + c) = Some d"
    using scanning_char [OF assms(1), of "Suc c"] assms(4) by (simp_all add: d_def)
  define f0 where "f0 = f\<lparr>ahead := (ahead f)[c := NUL]\<rparr>"
  have tk: "take (length (ahead f) + 2) (drop t (cs[t + c := Some NUL])) = map Some (ahead f0 @ [NUL, NUL])"
  proof -
    have "take (length (ahead f) + 2) (drop t (cs[t + c := Some NUL])) =
        (take (length (ahead f) + 2) (drop t cs))[c := Some NUL]"
      by (simp add: drop_update_swap take_update_swap)
    also have "take (length (ahead f) + 2) (drop t cs) = map Some (ahead f @ [NUL, NUL])"
      using assms(1) by (simp add: scanning_def stands_for_def)
    finally show ?thesis using assms(4) by (simp add: f0_def list_update_append1 map_update)
  qed
  have same: "cs[t + c := Some NUL, Suc (t + c) := Some d] = cs[t + c := Some NUL]"
    using nx by (simp add: list_update_same_conv)
  have wf: "wf_source f0" using assms(1) by (auto simp: scanning_def wf_source_def unread_def f0_def split: if_splits)
  show ?thesis
  proof (simp add: take_char_def acts single_reads [OF single] assms(3) ch, rule single_set_char [OF single ch(1)], goal_cases)
    case (1 h1)
    show ?case
    proof (rule single_set_guts [OF 1(1)], goal_cases)
      case (2 h2)
      show ?case
      proof (simp add: advance_def single_reads [OF 2(1)] nx, rule single_set_guts [OF 2(1)], goal_cases)
        case (2 h3)
        have "held e B s k b (f0\<lparr>ahead := drop (Suc c) (ahead f0)\<rparr>) h3"
          unfolding held_def
          by (rule exI [of _ a], rule exI [of _ t], rule exI, rule exI, rule exI, rule exI [of _ f0], rule exI [of _ "Suc c"],
            intro conjI, rule 2(1))
            (use assms wf tk nx same \<open>room h1 = _\<close> \<open>room h2 = _\<close> 2(2) in
              \<open>simp_all add: scanning_def stands_for_def f0_def advance_def\<close>)
        then show ?case
          using assms(4) by (intro exI [of _ "f0\<lparr>ahead := drop (Suc c) (ahead f0)\<rparr>"])
            (auto simp: f0_def unread_def Cons_nth_drop_Suc)
      qed (simp add: same_stack_def)
    qed (simp add: same_stack_def)
  qed
qed

text \<open>
  \<^verbatim>\<open>input\<close> returns what the scanner has still to read, character by character, from the buffer and from
  the connection, and 0 at the end of the file.
\<close>

lemma heap_input_reads:
  assumes "held e B s k b f h" "31 \<le> n"
  shows "runs e (heap_input n (source f) s) h (\<lambda>(x, src) h'. unread f = '''' \<and> x = 0 \<or>
    (\<exists>c f'. unread f = c # unread f' \<and> x = of_char c \<and> src = source f' \<and> held e B s k b f' h'))"
proof -
  obtain a t g r cs f0 c where single: "single B s k b a g r cs h" and tc: "t + c < length cs"
    and S: "stands_for g r (cs[t + c := Some (yy_hold_char g)]) t f0" "wf_source f0" "yy_start g = 1"
      "yy_buffer_status r \<noteq> YY_BUFFER_NEW" "yytext_r g = (a, t)" "yy_c_buf_p g = (a, t + c)"
    and c: "c \<le> length (ahead f0)" and f: "f = f0\<lparr>ahead := drop c (ahead f0)\<rparr>" and room: "enough e (yy_buf_size r) (room h)"
    using assms(1) by (auto simp: held_def)
  obtain m where n: "n = Suc m" "30 \<le> m" using assms(2) by (cases n) auto
  let ?cs = "cs[t + c := Some (yy_hold_char g)]"
  have take_char: "runs e (take_char s) h' (\<lambda>x h'. unread f = '''' \<and> x = 0 \<or>
      (\<exists>c f'. unread f = c # unread f' \<and> x = of_char c \<and> source f1 = source f' \<and> held e B s k b f' h'))"
    if "scanning e B s k b a' t' g' r' cs' f1 h'" "yytext_r g' = (a', t')" "yy_c_buf_p g' = (a', t' + c)" "c < length (ahead f1)"
      "yy_buffer_status r' \<noteq> YY_BUFFER_NEW" "unread f1 = unread f0" "take c (ahead f1) = take c (ahead f0)"
    for a' t' g' r' cs' f1 h'
  proof (rule runs_mono [OF take_char_takes [OF that(1-5)]])
    fix x h''
    have "take c (ahead f1) @ unread (f1\<lparr>ahead := drop c (ahead f1)\<rparr>) = take c (ahead f0) @ unread f"
      using that(6) by (simp add: unread_def f append_assoc [symmetric] del: append_assoc cong: if_cong)
    then show "x = of_char (ahead f1 ! c) \<and> (\<exists>f'. source f' = source f1 \<and>
        unread (f1\<lparr>ahead := drop c (ahead f1)\<rparr>) = ahead f1 ! c # unread f' \<and> held e B s k b f' h'') \<Longrightarrow>
      unread f = '''' \<and> x = 0 \<or>
      (\<exists>c f'. unread f = c # unread f' \<and> x = of_char c \<and> source f1 = source f' \<and> held e B s k b f' h'')"
      using that(7) by auto
  qed
  have source_f: "source f = source f0" by (simp add: f)
  show ?thesis
  proof (simp add: heap_input_def acts single_reads [OF single] S(6), rule single_set_char [OF single tc], goal_cases)
    case (1 h1)
    have sc: "scanning e B s k b a t g r ?cs f0 h1" using 1 S room by (simp add: scanning_def)
    have hold: "yy_hold_char g = (ahead f0 @ [NUL, NUL]) ! c" using scanning_char [OF sc, of c] c tc by simp
    have chars: "yyg_n_chars g = int (t + length (ahead f0))" using S(1) by (simp add: stands_for_def)
    show ?case
    proof (cases "c < length (ahead f0)")
      case True
      have ch: "?cs ! (t + c) = Some (yy_hold_char g)" using tc by simp
      have same: "?cs[t + c := Some NUL] = ?cs" if "yy_hold_char g = NUL" using that by simp
      note go = take_char [of a t g r ?cs f0, OF _ S(5,6) True S(4)]
      show ?thesis
      proof (simp add: input_ready_def acts single_reads [OF 1(1)] S(5,6) chars True, intro conjI impI, goal_cases)
        case 1
        then show ?case using go [OF sc] by (auto simp: f elim: runs_mono)
      next
        case 2
        show ?case
        proof (rule single_set_char [OF 1(1)], goal_cases)
          case (2 h2)
          then have "scanning e B s k b a t g r ?cs f0 h2" using sc \<open>yy_hold_char g = NUL\<close> same by (simp add: scanning_def)
          then show ?case using go by (auto simp: f acts elim: runs_mono)
        qed (use tc in simp)
      qed
    next
      case False
      then have len: "c = length (ahead f0)" using c by simp
      then have nul: "yy_hold_char g = NUL" using hold by simp
      show ?thesis
      proof (simp add: input_ready_def acts single_reads [OF 1(1)] S(5,6) chars nul len advance_def,
          rule single_set_guts [OF 1(1)], goal_cases)
        case (2 h2)
        have refill_f0: "runs e (heap_get_next_buffer n (source f0) s) h2 (\<lambda>(rc, src) h'. \<exists>f' a' g' r' cs'.
            yy_get_next_buffer c f0 = Some (rc, f') \<and> source f' = src \<and> single B s k b a' g' r' cs' h' \<and>
            stands_for g' r' cs' 0 f' \<and> yytext_r g' = (a', 0) \<and> same_scan (g\<lparr>yy_c_buf_p := (a, t + c + 1)\<rparr>) g' \<and>
            enough e (yy_buf_size r') (room h') \<and> (rc = EOB_ACT_LAST_MATCH \<longrightarrow> yy_buffer_status r' \<noteq> YY_BUFFER_NEW) \<and>
            (rc = EOB_ACT_CONTINUE_SCAN \<longrightarrow> yy_buffer_status r' = yy_buffer_status r))"
          unfolding n(1)
          by (rule refill_refines [where cs = ?cs and r = r and a = a and t = t]) (use 1 2 S room c n(2) len in \<open>simp_all add: stands_for_def\<close>)
        show ?case
        proof (simp only: source_f, rule runs_mono [OF refill_f0], clarify, goal_cases)
          case (1 rc src h3 f' a' g' r' cs')
          note [acts] = single_reads [OF 1(2)]
          from S(2) show ?case
          proof (cases rule: refill)
            case last_read
            then have "unread f = ''''" using len by (auto simp: f unread_def)
            then show ?thesis
              using last_read(2) 1(1,3) len
              by (cases rc) (auto simp: acts stands_for_def split: if_splits intro!: single_yyrestart [OF 1(2)])
          next
            case (more h' w)
            have f': "rc = EOB_ACT_CONTINUE_SCAN" "ahead f' = ahead f0 @ w" "unread f' = unread f0" "wf_source f'"
              using more 1(1) len by simp_all
            have "concat (source f0) \<noteq> ''''" using more(6) by (cases "concat (source f0)") (simp_all del: concat_eq_Nil_conv)
            moreover have "length (concat (source f')) < length (concat (source f0))" using more(2,6) 1(1) len by simp
            ultimately have "w \<noteq> ''''"
              using f'(2,3) more(1) by (auto simp: unread_def simp del: concat_eq_Nil_conv split: if_splits)
            then have lt: "c < length (ahead f')" using f'(2) len by simp
            show ?thesis
            proof (simp add: f'(1) acts advance_def, rule single_set_guts [OF 1(2)], goal_cases)
              case (2 h4)
              have "scanning e B s k b a' 0 (g'\<lparr>yy_c_buf_p := (a', c)\<rparr>) r' cs' f' h4"
                using 1(3,5,6,8) 2 f'(1,4) S(3,4) len
                by (simp add: scanning_def same_scan_def stands_for_def 1(4))
              from take_char [OF this _ _ lt] show ?case
                using 1(4,8) f' S(4) len by (auto elim: runs_mono)
            qed (simp add: same_stack_def)
          qed
        qed
      qed (simp add: same_stack_def)
    qed
  qed
qed

section \<open>The stack of buffers\<close>

lemma single_fresh:
  assumes "single B s k b a g r cs h"
  shows "distinct [0, s, k, b, a, fresh h, Suc (fresh h)]" "B k = None" "B (fresh h) = None" "B (Suc (fresh h)) = None"
proof -
  have i: "distinct [0, s, k, b, a]" "k \<notin> dom B" "dom B \<subseteq> {..<fresh h}"
    and lt: "s < fresh h" "k < fresh h" "b < fresh h" "a < fresh h"
    using assms by (simp_all add: single_def)
  show "distinct [0, s, k, b, a, fresh h, Suc (fresh h)]" using i(1) lt by simp
  show "B k = None" using i(2) by (simp add: domIff)
  show "B (fresh h) = None" "B (Suc (fresh h)) = None" using i(3) by (auto simp: domIff subset_iff)
qed

lemma create_another_buffer:
  assumes "single B s k b a g r cs h" "2 \<le> room h" "0 \<le> sz" "sz < 2 ^ 30"
    and "\<And>h'. single (B(fresh h \<mapsto> Buffer (new_buffer (fresh h + 1) conn sz),
        fresh h + 1 \<mapsto> Chars (Some NUL # Some NUL # replicate (nat sz) None))) s k b a g r cs h' \<Longrightarrow>
      room h' = room h - 2 \<Longrightarrow> Q (fresh h) h'"
  shows "runs e (yy_create_buffer conn sz s) h Q"
proof -
  obtain R where R: "room h = Suc (Suc R)" using assms(2) by (auto simp: le_iff_add)
  have bl: "blocks h = B(s \<mapsto> Guts g, k \<mapsto> Stack [b], b \<mapsto> Buffer r, a \<mapsto> Chars cs)"
    and f: "{0, s, k, b, a} \<inter> dom B = {}" "dom B \<union> {s, k, b, a} \<subseteq> {..<fresh h}"
    and st: "yy_buffer_stack g = k" "yy_buffer_stack_top g = 0" "yy_buffer_stack_max g = 1" "yy_ch_buf r = a"
      "yy_start_stack g = 0" "yy_is_our_buffer r"
    using assms(1) by (simp_all add: single_def)
  have two: "nat (sz + 2) = Suc (Suc (nat sz))" "\<not> sz + 2 < 0" "- 2147483648 \<le> sz + 2" "sz + 2 < 2147483648"
    "sz < 2147483646" "0 \<le> 2147483650 + sz"
    using assms(3,4) by simp_all
  have d: "s \<noteq> k" "s \<noteq> b" "s \<noteq> a" "k \<noteq> b" "k \<noteq> a" "b \<noteq> a" "s \<noteq> 0" "k \<noteq> 0" "b \<noteq> 0" "fresh h \<noteq> 0"
    "s \<noteq> fresh h" "s \<noteq> Suc (fresh h)" "k \<noteq> fresh h" "k \<noteq> Suc (fresh h)" "b \<noteq> fresh h" "b \<noteq> Suc (fresh h)"
    "a \<noteq> fresh h" "a \<noteq> Suc (fresh h)"
    using single_fresh(1) [OF assms(1)] by auto
  have z: "0 < s" "0 < k" "0 < b" "0 < a" "0 < fresh h" using single_fresh(1) [OF assms(1)] by auto
  note d = d d [symmetric] z
  let ?B = "B(fresh h \<mapsto> Buffer (new_buffer (fresh h + 1) conn sz),
        fresh h + 1 \<mapsto> Chars (Some NUL # Some NUL # replicate (nat sz) None))"
  let ?h = "h\<lparr>fresh := Suc (Suc (fresh h)), room := R,
      blocks := (blocks h)(Suc (fresh h) \<mapsto> Chars (Some NUL # Some NUL # replicate (nat sz) None),
        fresh h \<mapsto> Buffer (new_buffer (Suc (fresh h)) conn sz))\<rparr>"
  have "single ?B s k b a g r cs ?h"
    using f st bl d by (auto simp: single_def fun_eq_iff)
  then have "Q (fresh h) ?h" by (rule assms(5)) (simp add: R)
  then show ?thesis
    by (simp add: yy_create_buffer_def yy_init_buffer_def yy_flush_buffer_def YY_CURRENT_BUFFER_def
       blank_buffer_def acts accesses R bl st two d new_buffer_def)
qed

lemma push_buffer:
  assumes "blocks h = B(b' \<mapsto> Buffer r', s \<mapsto> Guts g, k \<mapsto> Stack [b], b \<mapsto> Buffer r, a \<mapsto> Chars cs)"
    "B a' = Some (Chars (Some c # cs'))" "distinct [0, s, k, b, a, a', b', fresh h]" "room h = Suc R"
    "yy_buffer_stack g = k" "yy_buffer_stack_top g = 0" "yy_buffer_stack_max g = 1" 
    "yy_c_buf_p g = (a, i)" "i < length cs" "yy_buf_pos r' = (a', 0)"
    and "\<And>h'. blocks h' = B(k := None, b' \<mapsto> Buffer r', 
       s \<mapsto> Guts (g\<lparr>yy_buffer_stack := fresh h, yy_buffer_stack_max := 9, yy_buffer_stack_top := 1, yyg_n_chars := yy_n_chars r',
          yytext_r := (a', 0), yy_c_buf_p := (a', 0), yyin_r := yy_input_file r', yy_hold_char := c,
          yy_did_buffer_switch_on_eof := True\<rparr>),
       fresh h \<mapsto> Stack (b # b' # replicate 7 0),
       b \<mapsto> Buffer (r\<lparr>yy_buf_pos := (a, i), yy_n_chars := yyg_n_chars g\<rparr>),
       a \<mapsto> Chars (cs[i := Some (yy_hold_char g)])) \<Longrightarrow> Q () h'"
  shows "runs e (yypush_buffer_state b' s) h Q"
proof -
  have d: "s \<noteq> 0" "k \<noteq> 0" "b \<noteq> 0" "b' \<noteq> 0" "fresh h \<noteq> 0"
    "s \<noteq> k" "s \<noteq> b" "s \<noteq> a" "s \<noteq> a'" "s \<noteq> b'" "s \<noteq> fresh h" "k \<noteq> b" "k \<noteq> a" "k \<noteq> a'" "k \<noteq> b'" "k \<noteq> fresh h"
    "b \<noteq> a" "b \<noteq> a'" "b \<noteq> b'" "b \<noteq> fresh h" "a \<noteq> a'" "a \<noteq> b'" "a \<noteq> fresh h" "a' \<noteq> b'" "a' \<noteq> fresh h" "b' \<noteq> fresh h"
    using assms(3) by auto
  note d = d d [symmetric] d(1-5) [folded neq0_conv [symmetric], unfolded neq0_conv]
  have [simp]: "replicate 8 0 = (0 :: addr) # replicate 7 0" by (simp add: numeral_nat)
  show ?thesis
    by (simp add: yypush_buffer_state_def YY_CURRENT_BUFFER_def set_YY_CURRENT_BUFFER_def yyensure_buffer_stack_def
      save_buffer_state_def yy_load_buffer_state_def acts accesses assms(1,2,4-10) d)
      (rule assms(11), use d in \<open>auto simp: fun_eq_iff\<close>)
qed

lemma pop_buffer:
  assumes "blocks h = B(b' \<mapsto> Buffer r', s \<mapsto> Guts g, k \<mapsto> Stack (b # b' # replicate 7 0), b \<mapsto> Buffer r, a \<mapsto> Chars cs)"
    "B a' = Some (Chars cs')" "distinct [0, s, k, b, a, a', b']" "yy_ch_buf r' = a'" "yy_is_our_buffer r'"
    "yy_buffer_stack g = k" "yy_buffer_stack_top g = 1"
    "yy_buf_pos r = (a, i)" "i < length cs" "cs ! i = Some c"
    and "\<And>h'. blocks h' = B(a' := None, b' := None,
       s \<mapsto> Guts (g\<lparr>yy_buffer_stack_top := 0, yyg_n_chars := yy_n_chars r,
          yytext_r := (a, i), yy_c_buf_p := (a, i), yyin_r := yy_input_file r, yy_hold_char := c,
          yy_did_buffer_switch_on_eof := True\<rparr>),
       k \<mapsto> Stack (b # replicate 8 0), b \<mapsto> Buffer r, a \<mapsto> Chars cs) \<Longrightarrow> Q () h'"
  shows "runs e (yypop_buffer_state s) h Q"
proof -
  have d: "s \<noteq> 0" "k \<noteq> 0" "b \<noteq> 0" "b' \<noteq> 0" "a' \<noteq> 0"
    "s \<noteq> k" "s \<noteq> b" "s \<noteq> a" "s \<noteq> a'" "s \<noteq> b'" "k \<noteq> b" "k \<noteq> a" "k \<noteq> a'" "k \<noteq> b'"
    "b \<noteq> a" "b \<noteq> a'" "b \<noteq> b'" "a \<noteq> a'" "a \<noteq> b'" "a' \<noteq> b'"
    using assms(3) by auto
  note d = d d [symmetric] d(1-5) [folded neq0_conv [symmetric], unfolded neq0_conv]
  have [simp]: "replicate 8 0 = (0 :: addr) # replicate 7 0" by (simp add: numeral_nat)
  show ?thesis
    by (simp add: yypop_buffer_state_def YY_CURRENT_BUFFER_def set_YY_CURRENT_BUFFER_def yy_delete_buffer_def
      yy_load_buffer_state_def acts accesses assms(1,2,4-10) d)
      (rule assms(11), use d in \<open>auto simp: fun_eq_iff\<close>)
qed

text \<open>Outside of a token the character at \<^verbatim>\<open>yy_c_buf_p\<close> is held in the scanner object.\<close>

lemma push_then_pop_buffer:
  assumes "single B s k b a g r cs h" "yy_c_buf_p g = (a, i)" "i < length cs" "3 \<le> room h" "0 \<le> sz" "sz < 2 ^ 30"
  shows "runs e (andthen (yy_create_buffer conn sz s) (\<lambda>b'. andthen (yypush_buffer_state b' s) (\<lambda>_. yypop_buffer_state s))) h
    (\<lambda>_ h'. \<exists>k'. blocks h' = B(
       s \<mapsto> Guts (g\<lparr>yy_buffer_stack := k', yy_buffer_stack_max := 9, yytext_r := (a, i), yyin_r := yy_input_file r,
         yy_did_buffer_switch_on_eof := True\<rparr>),
       k' \<mapsto> Stack (b # replicate 8 0),
       b \<mapsto> Buffer (r\<lparr>yy_buf_pos := (a, i), yy_n_chars := yyg_n_chars g\<rparr>),
       a \<mapsto> Chars (cs[i := Some (yy_hold_char g)])))"
proof -
  define b' where "b' = fresh h"
  define a' where "a' = fresh h + 1"
  define r' where "r' = new_buffer a' conn sz"
  let ?cs = "Some NUL # Some NUL # replicate (nat sz) None"
  have new: "distinct [0, s, k, b, a, a', b']" "B a' = None" "B b' = None" "B k = None"
    using single_fresh [OF assms(1)] by (auto simp: a'_def b'_def)
  show ?thesis unfolding runs_andthen
  proof (rule create_another_buffer [OF assms(1)], goal_cases)
    case (4 h1)
    let ?B = "B(a' \<mapsto> Chars ?cs)"
    have sw: "B(b' \<mapsto> x, a' \<mapsto> y) = B(a' \<mapsto> y, b' \<mapsto> x)" for x y by (rule fun_upd_twist) (use new in auto)
    have bl: "blocks h1 = ?B(b' \<mapsto> Buffer r', s \<mapsto> Guts g, k \<mapsto> Stack [b], b \<mapsto> Buffer r, a \<mapsto> Chars cs)"
      and st: "yy_buffer_stack g = k" "yy_buffer_stack_top g = 0" "yy_buffer_stack_max g = 1"
      using 4(1) unfolding sw [symmetric] by (simp_all add: single_def a'_def b'_def r'_def)
    have k: "distinct [0, s, k, b, a, a', b', fresh h1]"
      using 4(1) new(1) by (simp add: single_def a'_def b'_def)
    have B: "B(k := None, a' := None, b' := None) = B" using new by (auto simp: fun_eq_iff)
    show ?case unfolding b'_def [symmetric]
    proof (rule push_buffer [where B = ?B and a' = a' and R = "room h1 - 1" and c = NUL and
        cs' = "Some NUL # replicate (nat sz) None", OF bl _ k _ st assms(2,3)], goal_cases)
      case (4 h2)
      let ?r = "r\<lparr>yy_buf_pos := (a, i), yy_n_chars := yyg_n_chars g\<rparr>" and ?c = "yy_hold_char g"
      have g: "g\<lparr>yy_buffer_stack := x, yy_buffer_stack_max := 9, yy_buffer_stack_top := 0,
          yytext_r := (a, i), yy_c_buf_p := (a, i), yyin_r := y, yy_did_buffer_switch_on_eof := True\<rparr> =
        g\<lparr>yy_buffer_stack := x, yy_buffer_stack_max := 9, yytext_r := (a, i), yyin_r := y,
          yy_did_buffer_switch_on_eof := True\<rparr>" for x y
        by (rule yyguts_t.equality) (simp_all add: assms(2) st)
      show ?case
      proof (rule pop_buffer [where B = "?B(k := None)" and k = "fresh h1" and a' = a' and cs' = ?cs and c = ?c and i = i, OF 4], goal_cases)
        case (10 h3)
        then show ?case by (intro exI [of _ "fresh h1"]) (simp add: B g)
      qed (use k assms(3) in \<open>auto simp: r'_def new_buffer_def\<close>)
    qed (use 4 assms(4) in \<open>simp_all add: r'_def new_buffer_def\<close>)
  qed (use assms in auto)
qed

text \<open>
  \<^verbatim>\<open>yylex_destroy\<close> frees the current buffer only: it sets the entry of the one it has deleted to null
  before \<^verbatim>\<open>yypop_buffer_state\<close>, which then does nothing.
\<close>

definition two_buffers :: "nat \<Rightarrow> addr act" where
  "two_buffers n =
     andthen (yylex_init True) (\<lambda>(rc, s).
     andthen (yy_create_buffer stdin 4 s) (\<lambda>b.
     andthen (yypush_buffer_state b s) (\<lambda>_.
     andthen (yy_create_buffer stdin 4 s) (\<lambda>b'.
     andthen (yypush_buffer_state b' s) (\<lambda>_.
     andthen (yylex_destroy n s) (\<lambda>_. ret b))))))"

lemma destroy_leaks_lower_buffer:
  "case two_buffers 5 (empty_heap 30) of
     Inr (b, h) \<Rightarrow> (case blocks h b of Some (Buffer r) \<Rightarrow> yy_is_our_buffer r | _ \<Rightarrow> False)
   | Inl _ \<Rightarrow> False"
  by code_simp

text \<open>Nothing assigns the counters of a buffer that is made by \<^verbatim>\<open>yy_scan_buffer\<close>.\<close>

lemma scan_bytes_without_line_number:
  "case andthen (yylex_init True) (\<lambda>(rc, s). andthen (yy_scan_bytes ''+'' 1 s) (\<lambda>_. yyget_lineno s)) (empty_heap 30) of
     Inl Undefined \<Rightarrow> True
   | _ \<Rightarrow> False"
  by code_simp

end
